(* ===== verification/Prelude.thy ===== *)
theory Prelude
  imports Main "HOL-Library.Word" "HOL-Library.AList" "HOL-Library.Multiset"
    "HOL-Library.Signed_Division"
begin

section \<open>Shared vocabulary and lemmas\<close>

text \<open>
  The types the components share (bytes, machine words, association lists that stand for
  the hash maps of the program), and the generic lemmas on lists and association lists
  their proofs use. An association list is read as the hash map together with the order in
  which the program happens to iterate over it; C++ leaves that order open, so no property
  of the development depends on where a new key is put.
\<close>

type_synonym byte = "8 word"
type_synonym u16 = "16 word"
type_synonym u32 = "32 word"
type_synonym u64 = "64 word"
type_synonym PlayerId = u64

named_theorems size_consts \<open>the compile-time constants of the code\<close>
named_theorems wf_intros \<open>operations keep well-formedness\<close>
named_theorems frame_simps \<open>what an operation leaves unchanged\<close>

subsection \<open>Loops that write a buffer by index\<close>

text \<open>
  The nested loops of the program write, for each of a list of positions \<open>p\<close>, a value
  \<open>v p\<close> at the index \<open>f p\<close> of an array.
\<close>

definition write_all :: "('p \<Rightarrow> nat) \<Rightarrow> ('p \<Rightarrow> 'a) \<Rightarrow> 'p list \<Rightarrow> 'a list \<Rightarrow> 'a list" where
  "write_all f v ps xs = fold (\<lambda>p ys. ys[f p := v p]) ps xs"

lemma write_all_simps [simp]:
  "write_all f v [] xs = xs"
  "write_all f v (p # ps) xs = write_all f v ps (xs[f p := v p])"
  by (simp_all add: write_all_def)

lemma length_write_all [simp]: "length (write_all f v ps xs) = length xs"
  by (induction ps arbitrary: xs) auto

lemma nth_write_all_other:
  "i \<notin> f ` set ps \<Longrightarrow> write_all f v ps xs ! i = xs ! i"
  by (induction ps arbitrary: xs) auto

lemma nth_write_all:
  assumes "inj_on f (set ps)" "p \<in> set ps" "f p < length xs"
  shows "write_all f v ps xs ! f p = v p"
  using assms
proof (induction ps arbitrary: xs)
  case Nil
  then show ?case by simp
next
  case (Cons q ps)
  show ?case
  proof (cases "p \<in> set ps")
    case True
    with Cons show ?thesis by (simp add: inj_on_insert)
  next
    case False
    with Cons.prems have "p = q" and "f p \<notin> f ` set ps"
      by (auto simp: inj_on_def)
    with Cons.prems(3) show ?thesis by (simp add: nth_write_all_other)
  qed
qed

subsection \<open>Association lists\<close>

lemma map_of_append_absent:
  "map_of m k = None \<Longrightarrow> map_of (m @ [(k, v)]) = (map_of m)(k \<mapsto> v)"
  by (auto simp: map_add_def fun_eq_iff split: option.splits)

lemma map_of_map_entry:
  "map_of (AList.map_entry k f m) =
     (case map_of m k of None \<Rightarrow> map_of m | Some v \<Rightarrow> (map_of m)(k \<mapsto> f v))"
  by (induction m) (auto simp: fun_eq_iff split: option.splits)

lemma keys_map_entry [simp]: "map fst (AList.map_entry k f m) = map fst m"
  by (induction m) auto

lemma map_of_map_snd:
  "map_of (map (\<lambda>(k, v). (k, f v)) m) k = map_option f (map_of m k)"
  by (induction m) auto

text \<open>
  \<open>m[k] += n\<close> on a hash map of counters: \<open>operator[]\<close> inserts a zero when the key is
  missing.
\<close>

definition add_at :: "'k \<Rightarrow> 'n::monoid_add \<Rightarrow> ('k \<times> 'n) list \<Rightarrow> ('k \<times> 'n) list" where
  "add_at k n m = AList.update k ((case map_of m k of None \<Rightarrow> 0 | Some v \<Rightarrow> v) + n) m"

lemma map_of_add_at:
  "map_of (add_at k n m) =
     (map_of m)(k \<mapsto> (case map_of m k of None \<Rightarrow> 0 | Some v \<Rightarrow> v) + n)"
  by (simp add: add_at_def update_conv')

lemma distinct_add_at: "distinct (map fst m) \<Longrightarrow> distinct (map fst (add_at k n m))"
  by (simp add: add_at_def distinct_update)

definition lookup0 :: "('k \<times> 'n::zero) list \<Rightarrow> 'k \<Rightarrow> 'n" where
  "lookup0 m k = (case map_of m k of None \<Rightarrow> 0 | Some v \<Rightarrow> v)"

lemma lookup0_add_at:
  "lookup0 (add_at k n m) k' = (if k' = k then lookup0 m k + n else lookup0 m k')"
  by (simp add: lookup0_def map_of_add_at)

lemma lookup0_Nil [simp]: "lookup0 [] k = 0"
  by (simp add: lookup0_def)

lemma dom_add_at: "fst ` set (add_at k n m) = insert k (fst ` set m)"
  by (simp add: add_at_def dom_update)

text \<open>Counting with a loop of \<open>m[k] += 1\<close>.\<close>

lemma lookup0_fold_count:
  fixes m :: "('k \<times> 'n::semiring_1) list"
  shows "lookup0 (fold (\<lambda>k. add_at k 1) ks m) k = lookup0 m k + of_nat (count_list ks k)"
  by (induction ks arbitrary: m) (auto simp: lookup0_add_at algebra_simps)

lemma dom_fold_count: "fst ` set (fold (\<lambda>k. add_at k n) ks m) = fst ` set m \<union> set ks"
  by (induction ks arbitrary: m) (auto simp: dom_add_at)

lemma distinct_fold_count:
  "distinct (map fst m) \<Longrightarrow> distinct (map fst (fold (\<lambda>k. add_at k n) ks m))"
  by (induction ks arbitrary: m) (auto simp: distinct_add_at)

text \<open>Summing a list of counter increments.\<close>

lemma lookup0_fold_add:
  fixes m :: "('k \<times> 'n::comm_monoid_add) list"
  shows "lookup0 (fold (\<lambda>(k, n). add_at k n) kns m) k =
    lookup0 m k + sum_list (map snd (filter (\<lambda>kn. fst kn = k) kns))"
  by (induction kns arbitrary: m) (auto simp: lookup0_add_at algebra_simps)

subsection \<open>Loops over rows and columns\<close>

definition row_major :: "nat \<Rightarrow> nat \<Rightarrow> (nat \<times> nat) list" where
  "row_major w h = concat (map (\<lambda>y. map (\<lambda>x. (x, y)) [0..<w]) [0..<h])"

lemma set_row_major [simp]: "set (row_major w h) = {0..<w} \<times> {0..<h}"
  by (auto simp: row_major_def)

lemma distinct_row_major [simp]: "distinct (row_major w h)"
proof -
  have "distinct (concat (map (\<lambda>y. map (\<lambda>x. (x, y)) [0..<w]) ys))" if "distinct ys" for ys :: "nat list"
    using that by (induction ys) (auto simp: distinct_map inj_on_def)
  then show ?thesis by (simp add: row_major_def)
qed

end
