(* ===== verification/Server_Types.thy ===== *)
theory Server_Types
  imports Prelude
begin

section \<open>Types.hpp and PlayerCommand.hpp\<close>

text \<open>
  Cells, chunk coordinates and player commands. \<open>int\<close> coordinates of chunks are 32-bit
  words read as two's complement (\<open>sint\<close>), global coordinates of commands are 64-bit
  words; \<open>std::size_t\<close> positions inside a chunk, which stay below 66, are naturals.
\<close>

record CellState =
  alive :: bool
  owner :: PlayerId

definition deadCell :: CellState where
  \<comment> \<open>the default member initialisers, \<open>CellState{}\<close>\<close>
  "deadCell = \<lparr>alive = False, owner = 0\<rparr>"

lemma deadCell_simps [simp]: "alive deadCell = False" "owner deadCell = 0"
  by (simp_all add: deadCell_def)

record ChunkCoord =
  coordX :: u32
  coordY :: u32

abbreviation coord :: "u32 \<Rightarrow> u32 \<Rightarrow> ChunkCoord" where
  "coord a b \<equiv> \<lparr>coordX = a, coordY = b\<rparr>"

definition ChunkWidth :: nat where [size_consts, simp]: "ChunkWidth = 64"
definition ChunkHeight :: nat where [size_consts, simp]: "ChunkHeight = 64"

definition toIndex :: "nat \<Rightarrow> nat \<Rightarrow> nat \<Rightarrow> nat" where
  "toIndex x y width = y * width + x"

lemma toIndex_inj:
  assumes "x < width" "x' < width" "toIndex x y width = toIndex x' y' width"
  shows "x = x' \<and> y = y'"
proof -
  have "(y * width + x) div width = y" "(y' * width + x') div width = y'"
    "(y * width + x) mod width = x" "(y' * width + x') mod width = x'"
    using assms(1,2) by simp_all
  with assms(3) show ?thesis by (metis toIndex_def)
qed

lemma toIndex_bound:
  assumes "x < width" "y < height"
  shows "toIndex x y width < width * height"
proof -
  have "y * width + x < Suc y * width" using assms(1) by simp
  also have "\<dots> \<le> height * width" using assms(2) by (intro mult_le_mono1) simp
  finally show ?thesis by (simp add: toIndex_def mult.commute)
qed

subsection \<open>Player commands\<close>

datatype CommandType = PlaceCell | RemoveCell | ToggleCell

record PlayerCommand =
  cmdPlayerId :: PlayerId
  cmdType :: CommandType
  cmdX :: u64
  cmdY :: u64

definition defaultCommand :: PlayerCommand where
  "defaultCommand = \<lparr>cmdPlayerId = 0, cmdType = PlaceCell, cmdX = 0, cmdY = 0\<rparr>"

end
