(* ===== verification/Interfaces.thy ===== *)
theory Interfaces
  imports Prelude
begin

section \<open>The interfaces between components, as locales\<close>

text \<open>
  Each locale names the operations a client calls and the laws it relies on; the client's
  lemmas are proved once from the laws. The components that provide the operations
  interpret the locales on their own definitions.
\<close>

subsection \<open>A rectangular store of cells\<close>

text \<open>
  What the border exchange and the command handler need of a chunk: reading back a
  position after a write. The theory \<open>Server_Chunk\<close> interprets it twice, for the inner cells
  and for the storage with its ghost border.
\<close>

locale cell_store =
  fixes valid :: "'c \<Rightarrow> bool"
    and get :: "'c \<Rightarrow> nat \<Rightarrow> nat \<Rightarrow> 'a"
    and put :: "'c \<Rightarrow> nat \<Rightarrow> nat \<Rightarrow> 'a \<Rightarrow> 'c"
    and w :: nat
    and h :: nat
  assumes valid_put: "valid c \<Longrightarrow> x < w \<Longrightarrow> y < h \<Longrightarrow> valid (put c x y v)"
    and get_put: "valid c \<Longrightarrow> x < w \<Longrightarrow> y < h \<Longrightarrow> x' < w \<Longrightarrow> y' < h \<Longrightarrow>
      get (put c x y v) x' y' = (if x' = x \<and> y' = y then v else get c x' y')"
begin

lemma get_put_same: "valid c \<Longrightarrow> x < w \<Longrightarrow> y < h \<Longrightarrow> get (put c x y v) x y = v"
  by (simp add: get_put)

lemma get_put_idem:
  "valid c \<Longrightarrow> x < w \<Longrightarrow> y < h \<Longrightarrow> x' < w \<Longrightarrow> y' < h \<Longrightarrow>
    get (put c x y (get c x y)) x' y' = get c x' y'"
  by (simp add: get_put)

lemma valid_puts:
  assumes "valid c" "\<forall>((x, y), v) \<in> set ws. x < w \<and> y < h"
  shows "valid (fold (\<lambda>((x, y), v) c. put c x y v) ws c)"
  using assms by (induction ws arbitrary: c) (auto simp: valid_put)

text \<open>
  A sequence of writes that all follow one rule \<open>F\<close> leaves every written position with
  the value \<open>F\<close> gives it, in whatever order the writes come.
\<close>

lemma get_puts:
  assumes "valid c" "\<forall>((x, y), v) \<in> set ws. x < w \<and> y < h \<and> v = F x y" "x' < w" "y' < h"
  shows "get (fold (\<lambda>((x, y), v) c. put c x y v) ws c) x' y' =
    (if (x', y') \<in> fst ` set ws then F x' y' else get c x' y')"
  using assms(1,2)
proof (induction ws arbitrary: c)
  case Nil
  then show ?case by simp
next
  case (Cons u ws)
  obtain x y v where u: "u = ((x, y), v)" by (metis prod.exhaust)
  with Cons.prems have b: "x < w" "y < h" "v = F x y" by auto
  have "valid (put c x y v)" using Cons.prems(1) b by (simp add: valid_put)
  from Cons.IH [OF this] Cons.prems b u assms(3,4) show ?case
    by (auto simp: get_put)
qed

end

subsection \<open>A first-in first-out queue\<close>

text \<open>
  What the tick relies on: \<open>push\<close> appends, \<open>try_pop\<close> takes the oldest element or
  reports that there is none. The tick drains the queue with a loop of \<open>try_pop\<close>.
\<close>

locale fifo =
  fixes contents :: "'q \<Rightarrow> 'a list"
    and push :: "'a \<Rightarrow> 'q \<Rightarrow> 'q"
    and try_pop :: "'q \<Rightarrow> ('a \<times> 'q) option"
  assumes contents_push: "contents (push v q) = contents q @ [v]"
    and try_pop_empty: "contents q = [] \<Longrightarrow> try_pop q = None"
    and try_pop_front: "contents q = v # vs \<Longrightarrow>
      \<exists>q'. try_pop q = Some (v, q') \<and> contents q' = vs"
begin

lemma contents_pushes: "contents (fold push vs q) = contents q @ vs"
  by (induction vs arbitrary: q) (auto simp: contents_push)

lemma try_pop_None_iff: "try_pop q = None \<longleftrightarrow> contents q = []"
  using try_pop_empty try_pop_front by (cases "contents q") fastforce+

lemma try_pop_SomeD: "try_pop q = Some (v, q') \<Longrightarrow> contents q = v # contents q'"
  using try_pop_empty try_pop_front by (cases "contents q") fastforce+

text \<open>A loop that pops until nothing is left returns the whole queue, in order.\<close>

lemma drain_rule:
  assumes "\<And>q batch. drain q batch =
      (case try_pop q of None \<Rightarrow> (q, batch) | Some (v, q') \<Rightarrow> drain q' (batch @ [v]))"
  shows "\<exists>q'. drain q batch = (q', batch @ contents q) \<and> contents q' = []"
proof (induction "contents q" arbitrary: q batch)
  case Nil
  then show ?case by (subst assms) (simp add: try_pop_empty)
next
  case (Cons v vs)
  from try_pop_front [OF Cons.hyps(2) [symmetric]]
  obtain q' where q': "try_pop q = Some (v, q')" "contents q' = vs" by blast
  then have "drain q batch = drain q' (batch @ [v])" by (subst assms) simp
  with Cons.hyps(1) [OF q'(2) [symmetric], of "batch @ [v]"] Cons.hyps(2) q'(2)
  show ?case by (metis append.assoc append_Cons append_Nil)
qed

end

subsection \<open>An account book\<close>

text \<open>
  What the command handler relies on: spending never overdraws and is refused as a whole,
  awards go to known players only, and neither touches any other account.
\<close>

locale ledger =
  fixes known :: "'r \<Rightarrow> 'p \<Rightarrow> bool"
    and balance :: "'r \<Rightarrow> 'p \<Rightarrow> u64"
    and spend :: "'p \<Rightarrow> u64 \<Rightarrow> 'r \<Rightarrow> bool \<times> 'r"
    and award :: "'p \<Rightarrow> u64 \<Rightarrow> 'r \<Rightarrow> bool \<times> 'r"
  assumes spend_ok: "known r p \<Longrightarrow> n \<le> balance r p \<Longrightarrow>
      fst (spend p n r) \<and> balance (snd (spend p n r)) p = balance r p - n"
    and spend_refused: "\<not> (known r p \<and> n \<le> balance r p) \<Longrightarrow> spend p n r = (False, r)"
    and award_ok: "known r p \<Longrightarrow>
      fst (award p n r) \<and> balance (snd (award p n r)) p = balance r p + n"
    and award_refused: "\<not> known r p \<Longrightarrow> award p n r = (False, r)"
    and spend_other: "q \<noteq> p \<Longrightarrow> balance (snd (spend p n r)) q = balance r q"
    and award_other: "q \<noteq> p \<Longrightarrow> balance (snd (award p n r)) q = balance r q"
    and spend_known: "known (snd (spend p n r)) q = known r q"
    and award_known: "known (snd (award p n r)) q = known r q"
begin

lemma spend_iff: "fst (spend p n r) \<longleftrightarrow> known r p \<and> n \<le> balance r p"
  using spend_ok spend_refused by (metis fst_conv)

lemma award_iff: "fst (award p n r) \<longleftrightarrow> known r p"
  using award_ok award_refused by (metis fst_conv)

lemma spend_no_underflow:
  assumes "fst (spend p n r)"
  shows "unat (balance (snd (spend p n r)) p) + unat n = unat (balance r p)"
proof -
  from assms have k: "known r p" "n \<le> balance r p" by (auto simp: spend_iff)
  with spend_ok have "balance (snd (spend p n r)) p = balance r p - n" by blast
  with k(2) show ?thesis by (simp add: unat_sub word_le_nat_alt)
qed

lemma spend_balance:
  "balance (snd (spend p n r)) q =
     (if q = p \<and> fst (spend p n r) then balance r p - n else balance r q)"
  using spend_ok spend_refused spend_other spend_iff by (metis snd_conv)

lemma award_balance:
  "balance (snd (award p n r)) q =
     (if q = p \<and> fst (award p n r) then balance r p + n else balance r q)"
  using award_ok award_refused award_other award_iff by (metis snd_conv)

end

subsection \<open>Fixed-width codecs\<close>

text \<open>
  What the packet formats rely on: a value is written as \<open>width\<close> bytes, and reading those
  bytes back, whatever follows them, gives the value.
\<close>

locale codec =
  fixes width :: nat
    and enc :: "'v \<Rightarrow> byte list"
    and dec :: "byte list \<Rightarrow> 'v"
  assumes length_enc: "length (enc v) = width"
    and dec_enc: "dec (enc v @ rest) = v"
begin

lemma drop_enc: "drop width (enc v @ rest) = rest"
  by (simp add: length_enc)

lemma take_enc: "take width (enc v @ rest) = enc v"
  by (simp add: length_enc)

lemma length_encs: "length (concat (map enc vs)) = width * length vs"
  by (induction vs) (auto simp: length_enc)

text \<open>A table of fixed-width entries is read back entry by entry.\<close>

lemma dec_table:
  "i < length vs \<Longrightarrow> dec (drop (width * i) (concat (map enc vs) @ rest)) = vs ! i"
proof (induction vs arbitrary: i)
  case Nil
  then show ?case by simp
next
  case (Cons v vs)
  show ?case
  proof (cases i)
    case 0
    then show ?thesis by (simp add: dec_enc)
  next
    case (Suc j)
    have "drop (width * i) (concat (map enc (v # vs)) @ rest) =
        drop (width * j) (drop width (enc v @ concat (map enc vs) @ rest))"
      using Suc by (simp add: length_enc)
    also have "\<dots> = drop (width * j) (concat (map enc vs) @ rest)"
      by (simp only: drop_enc)
    finally show ?thesis using Cons Suc by simp
  qed
qed

lemma enc_inj: "enc v = enc v' \<Longrightarrow> v = v'"
  by (metis dec_enc)

end

subsection \<open>A machine that refines another\<close>

text \<open>
  What an abstract specification promises of a component: every operation keeps the
  component's invariant and, seen through the abstraction, is the operation of the
  specification. Runs of any length then agree.
\<close>

locale refinement =
  fixes inv :: "'s \<Rightarrow> bool"
    and step :: "'e \<Rightarrow> 's \<Rightarrow> 's"
    and abst :: "'s \<Rightarrow> 'a"
    and astep :: "'e \<Rightarrow> 'a \<Rightarrow> 'a"
  assumes inv_step: "inv s \<Longrightarrow> inv (step e s)"
    and abst_step: "inv s \<Longrightarrow> abst (step e s) = astep e (abst s)"
begin

lemma inv_run: "inv s \<Longrightarrow> inv (fold step es s)"
  by (induction es arbitrary: s) (simp_all add: inv_step)

lemma abst_run: "inv s \<Longrightarrow> abst (fold step es s) = fold astep es (abst s)"
  by (induction es arbitrary: s) (simp_all add: inv_step abst_step)

text \<open>What the specification keeps, the component keeps.\<close>

lemma transfer:
  assumes "inv s" "\<And>e a. P a \<Longrightarrow> P (astep e a)" "P (abst s)"
  shows "P (abst (fold step es s))"
proof -
  have "P a \<Longrightarrow> P (fold astep es a)" for a
    using assms(2) by (induction es arbitrary: a) simp_all
  with assms(1,3) show ?thesis by (simp add: abst_run)
qed

end

end
