(* ===== verification/Server_Chunk.thy ===== *)
theory Server_Chunk
  imports Server_Types Interfaces
begin

section \<open>Chunk.hpp and Chunk.cpp: a double-buffered block of cells\<close>

text \<open>
  A chunk keeps two buffers of 66 x 66 cells (64 x 64 inner cells and a ring of ghost cells
  copied from the neighbours), the index of the current one, and the list of inner
  positions changed since the last broadcast. \<open>getCell\<close> and \<open>setCell\<close> address inner
  cells, \<open>getGhostCell\<close> and \<open>setGhostCell\<close> the storage with its ring.
\<close>

declare One_nat_def [simp del] \<comment> \<open>positions are written \<open>x + 1\<close>\<close>

definition InnerWidth :: nat where [size_consts]: "InnerWidth = ChunkWidth"
definition InnerHeight :: nat where [size_consts]: "InnerHeight = ChunkHeight"
definition GhostBorder :: nat where [size_consts]: "GhostBorder = 1"
definition TotalWidth :: nat where [size_consts]: "TotalWidth = InnerWidth + 2 * GhostBorder"
definition TotalHeight :: nat where [size_consts]: "TotalHeight = InnerHeight + 2 * GhostBorder"
definition TotalCells :: nat where [size_consts]: "TotalCells = TotalWidth * TotalHeight"

type_synonym Buffer = "CellState list"

record Chunk =
  currentBufferIndex :: nat
  buffers :: "Buffer list"
  dirtyCells :: "(byte \<times> byte) list"

definition index :: "nat \<Rightarrow> nat \<Rightarrow> nat" where
  "index storageX storageY = toIndex storageX storageY TotalWidth"

definition newChunk :: Chunk where
  \<comment> \<open>the default constructor with its member initialisers\<close>
  "newChunk = \<lparr>currentBufferIndex = 0,
     buffers = [replicate TotalCells deadCell, replicate TotalCells deadCell],
     dirtyCells = []\<rparr>"

subsection \<open>Operations\<close>

definition getCell :: "Chunk \<Rightarrow> nat \<Rightarrow> nat \<Rightarrow> CellState" where
  "getCell c x y =
     (let storageX = x + GhostBorder; storageY = y + GhostBorder;
          buffer = buffers c ! currentBufferIndex c
      in buffer ! index storageX storageY)"

definition setCell :: "Chunk \<Rightarrow> nat \<Rightarrow> nat \<Rightarrow> CellState \<Rightarrow> Chunk" where
  "setCell c x y state =
     (let idx = toIndex (x + GhostBorder) (y + GhostBorder) TotalWidth;
          k = currentBufferIndex c
      in c\<lparr>buffers := (buffers c)[k := (buffers c ! k)[idx := state]],
           dirtyCells := dirtyCells c @ [(word_of_nat x, word_of_nat y)]\<rparr>)"

definition getGhostCell :: "Chunk \<Rightarrow> nat \<Rightarrow> nat \<Rightarrow> CellState" where
  "getGhostCell c storageX storageY =
     buffers c ! currentBufferIndex c ! index storageX storageY"

definition setGhostCell :: "Chunk \<Rightarrow> nat \<Rightarrow> nat \<Rightarrow> CellState \<Rightarrow> Chunk" where
  "setGhostCell c storageX storageY state =
     (let k = currentBufferIndex c
      in c\<lparr>buffers := (buffers c)[k := (buffers c ! k)[index storageX storageY := state]]\<rparr>)"

definition isDirty :: "Chunk \<Rightarrow> bool" where
  "isDirty c \<longleftrightarrow> dirtyCells c \<noteq> []"

definition clearDirty :: "Chunk \<Rightarrow> Chunk" where
  "clearDirty c = c\<lparr>dirtyCells := []\<rparr>"

definition swapBuffers :: "Chunk \<Rightarrow> Chunk" where
  "swapBuffers c = c\<lparr>currentBufferIndex := 1 - currentBufferIndex c\<rparr>"

definition clearChunk :: "Chunk \<Rightarrow> Chunk" where
  "clearChunk c = clearDirty
     (c\<lparr>buffers := map (\<lambda>buffer. replicate (length buffer) deadCell) (buffers c),
        currentBufferIndex := 0\<rparr>)"

subsection \<open>The next generation\<close>

text \<open>
  \<open>neighborAliveCount\<close> visits the eight neighbours in the order of its two loops, counts
  the live owned ones and tallies their owners in a \<open>std::map\<close>, kept here as its list of
  entries in ascending key order. The owner of a birth is then the last key, in that order,
  whose tally is at least the best one so far.
\<close>

definition neighbourOffsets :: "(int \<times> int) list" where
  "neighbourOffsets =
     [(-1, -1), (0, -1), (1, -1), (-1, 0), (1, 0), (-1, 1), (0, 1), (1, 1)]"

fun tallyOwner :: "PlayerId \<Rightarrow> (PlayerId \<times> nat) list \<Rightarrow> (PlayerId \<times> nat) list" where
  "tallyOwner k [] = [(k, 1)]"
| "tallyOwner k ((k', n) # m) =
     (if k = k' then (k', n + 1) # m
      else if k < k' then (k, 1) # (k', n) # m
      else (k', n) # tallyOwner k m)"

definition countNeighbour ::
  "CellState \<Rightarrow> nat \<times> (PlayerId \<times> nat) list \<Rightarrow> nat \<times> (PlayerId \<times> nat) list" where
  "countNeighbour cell acc = (case acc of (alives, owners) \<Rightarrow>
     if alive cell \<and> owner cell \<noteq> 0 then (alives + 1, tallyOwner (owner cell) owners)
     else (alives, owners))"

definition pickOwner :: "(PlayerId \<times> nat) list \<Rightarrow> PlayerId \<times> nat" where
  "pickOwner owners =
     fold (\<lambda>m nextOwner. if snd m \<ge> snd nextOwner then m else nextOwner) owners (0, 0)"

definition neighborAliveCount :: "Buffer \<Rightarrow> nat \<Rightarrow> nat \<Rightarrow> nat \<times> PlayerId" where
  "neighborAliveCount current sx sy =
     (let (alives, owners) =
        fold (\<lambda>(dx, dy). countNeighbour
               (current ! index (nat (int sx + dx)) (nat (int sy + dy))))
          neighbourOffsets (0, [])
      in (alives, fst (pickOwner owners)))"

text \<open>The body of the inner loop: the next state of a cell, and whether it is marked dirty.\<close>

definition nextCell :: "CellState \<Rightarrow> nat \<times> PlayerId \<Rightarrow> CellState \<times> bool" where
  "nextCell currentCell nb = (case nb of (neighbors, nextOwner) \<Rightarrow>
     if alive currentCell then
       (if neighbors < 2 \<or> neighbors > 3
        then (currentCell\<lparr>alive := False, owner := 0\<rparr>, True)
        else (currentCell, False))
     else
       (if neighbors = 3
        then (currentCell\<lparr>alive := True, owner := nextOwner\<rparr>, True)
        else (currentCell, False)))"

definition stepCell :: "Buffer \<Rightarrow> nat \<times> nat \<Rightarrow> CellState \<times> bool" where
  "stepCell current p = (case p of (x, y) \<Rightarrow>
     (let sx = x + GhostBorder; sy = y + GhostBorder
      in nextCell (current ! index sx sy) (neighborAliveCount current sx sy)))"

definition calculateNext :: "Chunk \<Rightarrow> Chunk" where
  "calculateNext c =
     (let current = buffers c ! currentBufferIndex c;
          (nxt, dirty) =
            fold (\<lambda>(x, y) (nxt, dirty).
                let (cell, changed) = stepCell current (x, y)
                in (nxt[index (x + GhostBorder) (y + GhostBorder) := cell],
                    if changed then dirty @ [(word_of_nat x, word_of_nat y)] else dirty))
              (row_major InnerWidth InnerHeight)
              (buffers c ! (1 - currentBufferIndex c), dirtyCells c)
      in c\<lparr>buffers := (buffers c)[1 - currentBufferIndex c := nxt], dirtyCells := dirty\<rparr>)"

definition getLiveCountByPlayer :: "Chunk \<Rightarrow> (PlayerId \<times> u64) list" where
  "getLiveCountByPlayer c =
     (let buffer = buffers c ! currentBufferIndex c
      in fold (\<lambda>(x, y) counts.
           let cell = buffer ! index (x + GhostBorder) (y + GhostBorder)
           in if alive cell \<and> owner cell \<noteq> 0 then add_at (owner cell) 1 counts else counts)
         (row_major InnerWidth InnerHeight) [])"


subsection \<open>Positions are in range\<close>

lemma index_eq: "index sx sy = sy * 66 + sx"
  by (simp add: index_def toIndex_def size_consts)

lemma border_simps [simp]:
  "GhostBorder = 1" "InnerWidth = 64" "InnerHeight = 64"
  "TotalWidth = 66" "TotalHeight = 66" "TotalCells = 4356"
  by (simp_all add: size_consts)

lemma index_inj: "sx < 66 \<Longrightarrow> sx' < 66 \<Longrightarrow> index sx sy = index sx' sy' \<longleftrightarrow> sx = sx' \<and> sy = sy'"
  using toIndex_inj [of sx TotalWidth sx' sy sy'] by (auto simp: index_def)

lemma index_bound: "sx < 66 \<Longrightarrow> sy < 66 \<Longrightarrow> index sx sy < 4356"
  using toIndex_bound [of sx TotalWidth sy TotalHeight] by (simp add: index_def)

lemma inner_index_inj: "inj_on (\<lambda>(x, y). index (x + 1) (y + 1)) ({0..<64} \<times> {0..<64})"
proof (rule inj_onI, clarify)
  fix x y x' y' :: nat
  assume "x \<in> {0..<64}" "x' \<in> {0..<64}" "index (x + 1) (y + 1) = index (x' + 1) (y' + 1)"
  then show "x = x' \<and> y = y'"
    using index_inj [of "x + 1" "x' + 1" "y + 1" "y' + 1"] by simp
qed

text \<open>A neighbour of an inner cell is inside the storage.\<close>

lemma neighbour_in_storage:
  assumes "(dx, dy) \<in> set neighbourOffsets" "x < 64" "y < 64"
  shows "nat (int (x + 1) + dx) < 66 \<and> nat (int (y + 1) + dy) < 66
     \<and> 0 \<le> int (x + 1) + dx \<and> 0 \<le> int (y + 1) + dy"
  using assms by (auto simp: neighbourOffsets_def)

subsection \<open>Well-formed chunks\<close>

definition wf_chunk :: "Chunk \<Rightarrow> bool" where
  "wf_chunk c \<longleftrightarrow> currentBufferIndex c \<le> 1 \<and> length (buffers c) = 2 \<and>
     (\<forall>b \<in> set (buffers c). length b = TotalCells)"

abbreviation currentBuffer :: "Chunk \<Rightarrow> Buffer" where
  "currentBuffer c \<equiv> buffers c ! currentBufferIndex c"

abbreviation otherBuffer :: "Chunk \<Rightarrow> Buffer" where
  "otherBuffer c \<equiv> buffers c ! (1 - currentBufferIndex c)"

lemma wf_chunkD:
  assumes "wf_chunk c"
  shows "currentBufferIndex c < 2" "1 - currentBufferIndex c < 2"
    "length (currentBuffer c) = 4356" "length (otherBuffer c) = 4356"
    "currentBufferIndex c \<noteq> 1 - currentBufferIndex c" "length (buffers c) = 2"
    "currentBufferIndex c \<le> 1"
proof -
  from assms have k: "currentBufferIndex c \<le> 1" and l: "length (buffers c) = 2"
    and b: "\<And>b. b \<in> set (buffers c) \<Longrightarrow> length b = 4356"
    by (auto simp: wf_chunk_def)
  from k show lt: "currentBufferIndex c < 2" "1 - currentBufferIndex c < 2"
    "currentBufferIndex c \<noteq> 1 - currentBufferIndex c" "currentBufferIndex c \<le> 1" by arith+
  from l show "length (buffers c) = 2" .
  show "length (currentBuffer c) = 4356" "length (otherBuffer c) = 4356"
    using lt l by (simp_all add: b)
qed

lemma wf_chunkI:
  assumes "wf_chunk c" "currentBufferIndex c' \<le> 1" "length (buffers c') = 2"
    "\<forall>b \<in> set (buffers c'). length b = 4356"
  shows "wf_chunk c'"
  using assms by (simp add: wf_chunk_def)

lemma wf_update_buffer:
  assumes "wf_chunk c" "length b = 4356"
  shows "wf_chunk (c\<lparr>buffers := (buffers c)[k := b], dirtyCells := d\<rparr>)"
    "wf_chunk (c\<lparr>buffers := (buffers c)[k := b]\<rparr>)"
  using assms by (auto simp: wf_chunk_def dest!: set_update_subset_insert [THEN subsetD])

lemma wf_newChunk [wf_intros]: "wf_chunk newChunk"
  by (simp add: wf_chunk_def newChunk_def)

lemma wf_setCell [wf_intros]: "wf_chunk c \<Longrightarrow> wf_chunk (setCell c x y s)"
  by (simp add: setCell_def Let_def wf_update_buffer wf_chunkD)

lemma wf_setGhostCell [wf_intros]: "wf_chunk c \<Longrightarrow> wf_chunk (setGhostCell c x y s)"
  by (simp add: setGhostCell_def Let_def wf_update_buffer wf_chunkD)

lemma wf_clearDirty [wf_intros]: "wf_chunk c \<Longrightarrow> wf_chunk (clearDirty c)"
  by (simp add: wf_chunk_def clearDirty_def)

lemma wf_swapBuffers [wf_intros]: "wf_chunk c \<Longrightarrow> wf_chunk (swapBuffers c)"
  by (auto simp: wf_chunk_def swapBuffers_def)

lemma wf_clearChunk [wf_intros]: "wf_chunk c \<Longrightarrow> wf_chunk (clearChunk c)"
  by (auto simp: wf_chunk_def clearChunk_def clearDirty_def)

subsection \<open>Reading after writing\<close>

lemma getCell_ghost: "getCell c x y = getGhostCell c (x + 1) (y + 1)"
  by (simp add: getCell_def getGhostCell_def)

lemma getCell_newChunk [simp]: "x < 64 \<Longrightarrow> y < 64 \<Longrightarrow> getCell newChunk x y = deadCell"
  using index_bound [of "x + 1" "y + 1"] by (simp add: getCell_def newChunk_def)

interpretation cells: cell_store wf_chunk getCell setCell 64 64
proof
  fix c :: Chunk and x y :: nat and v :: CellState
  assume "wf_chunk c" "x < 64" "y < 64"
  then show "wf_chunk (setCell c x y v)" by (rule_tac wf_setCell)
next
  fix c :: Chunk and x y x' y' :: nat and v :: CellState
  assume a: "wf_chunk c" "x < 64" "y < 64" "x' < 64" "y' < 64"
  then show "getCell (setCell c x y v) x' y' = (if x' = x \<and> y' = y then v else getCell c x' y')"
    using index_inj [of "x + 1" "x' + 1" "y + 1" "y' + 1"] index_bound [of "x + 1" "y + 1"]
    by (auto simp: getCell_def setCell_def Let_def wf_chunkD index_def)
qed

interpretation storage: cell_store wf_chunk getGhostCell setGhostCell 66 66
proof
  fix c :: Chunk and x y :: nat and v :: CellState
  assume "wf_chunk c" "x < 66" "y < 66"
  then show "wf_chunk (setGhostCell c x y v)" by (rule_tac wf_setGhostCell)
next
  fix c :: Chunk and x y x' y' :: nat and v :: CellState
  assume a: "wf_chunk c" "x < 66" "y < 66" "x' < 66" "y' < 66"
  then show "getGhostCell (setGhostCell c x y v) x' y' =
      (if x' = x \<and> y' = y then v else getGhostCell c x' y')"
    using index_inj [of x x' y y'] index_bound [of x y]
    by (auto simp: getGhostCell_def setGhostCell_def Let_def wf_chunkD)
qed

lemma dirtyCells_setCell [simp]:
  "dirtyCells (setCell c x y s) = dirtyCells c @ [(word_of_nat x, word_of_nat y)]"
  by (simp add: setCell_def Let_def)

lemma dirtyCells_setGhostCell [simp]: "dirtyCells (setGhostCell c x y s) = dirtyCells c"
  by (simp add: setGhostCell_def Let_def)

lemma getCell_setGhostCell_border:
  assumes "wf_chunk c" "sx < 66" "sy < 66" "x < 64" "y < 64"
    "sx = 0 \<or> sx = 65 \<or> sy = 0 \<or> sy = 65"
  shows "getCell (setGhostCell c sx sy s) x y = getCell c x y"
  using assms storage.get_put [of c sx sy "x + 1" "y + 1" s] by (auto simp: getCell_ghost)

subsection \<open>The generation step\<close>

lemma calculateNext_loop:
  "fold (\<lambda>(x, y) (nxt, dirty).
       let (cell, changed) = stepCell current (x, y)
       in (nxt[index (x + GhostBorder) (y + GhostBorder) := cell],
           if changed then dirty @ [(word_of_nat x, word_of_nat y)] else dirty)) ps (nxt, dirty) =
   (write_all (\<lambda>(x, y). index (x + 1) (y + 1)) (\<lambda>p. fst (stepCell current p)) ps nxt,
    dirty @ map (\<lambda>(x, y). (word_of_nat x, word_of_nat y))
      (filter (\<lambda>p. snd (stepCell current p)) ps))"
  by (induction ps arbitrary: nxt dirty) (auto split: prod.splits simp: Let_def)

lemma calculateNext_eq:
  "calculateNext c = c\<lparr>
     buffers := (buffers c)[1 - currentBufferIndex c :=
       write_all (\<lambda>(x, y). index (x + 1) (y + 1)) (\<lambda>p. fst (stepCell (currentBuffer c) p))
         (row_major 64 64) (otherBuffer c)],
     dirtyCells := dirtyCells c @ map (\<lambda>(x, y). (word_of_nat x, word_of_nat y))
       (filter (\<lambda>p. snd (stepCell (currentBuffer c) p)) (row_major 64 64))\<rparr>"
  by (simp add: calculateNext_def calculateNext_loop [simplified] Let_def)

lemma wf_calculateNext [wf_intros]: "wf_chunk c \<Longrightarrow> wf_chunk (calculateNext c)"
  by (simp add: calculateNext_eq wf_update_buffer wf_chunkD)

lemma calculateNext_frame [frame_simps]:
  assumes "wf_chunk c"
  shows "currentBufferIndex (calculateNext c) = currentBufferIndex c"
    "currentBuffer (calculateNext c) = currentBuffer c"
    "getCell (calculateNext c) x y = getCell c x y"
  using wf_chunkD [OF assms] by (simp_all add: calculateNext_eq getCell_def)

text \<open>After the swap, every inner cell holds the state its loop body computed.\<close>

lemma getCell_next:
  assumes "wf_chunk c" "x < 64" "y < 64"
  shows "getCell (swapBuffers (calculateNext c)) x y = fst (stepCell (currentBuffer c) (x, y))"
proof -
  let ?f = "\<lambda>(x, y). index (x + 1) (y + 1)"
  let ?v = "\<lambda>p. fst (stepCell (currentBuffer c) p)"
  have "write_all ?f ?v (row_major 64 64) (otherBuffer c) ! ?f (x, y) = ?v (x, y)"
    using assms wf_chunkD [OF assms(1)] index_bound [of "x + 1" "y + 1"] inner_index_inj
    by (intro nth_write_all) auto
  then show ?thesis
    using wf_chunkD [OF assms(1)] by (simp add: getCell_def swapBuffers_def calculateNext_eq)
qed

lemma dirtyCells_swapBuffers [simp]: "dirtyCells (swapBuffers c) = dirtyCells c"
  by (simp add: swapBuffers_def)

end
