(* ===== verification/Life_Rule.thy ===== *)
theory Life_Rule
  imports Server_Chunk
begin

section \<open>The rule of the game, stated independently of the code\<close>

text \<open>
  The specification of one cell's next state: B3/S23 on the live owned neighbours, a birth
  going to the owner with the most neighbours and, among equals, to the largest identifier.
  The lemmas show that the loop over the neighbours with its ordered tally computes it.
\<close>

definition isOwned :: "CellState \<Rightarrow> bool" where
  "isOwned cell \<longleftrightarrow> alive cell \<and> owner cell \<noteq> 0"

definition ownersOf :: "CellState list \<Rightarrow> PlayerId list" where
  "ownersOf cells = map owner (filter isOwned cells)"

definition majorityOwner :: "PlayerId list \<Rightarrow> PlayerId" where
  "majorityOwner os = (if os = [] then 0
     else Max (set (filter (\<lambda>k. \<forall>k' \<in> set os. count_list os k' \<le> count_list os k) os)))"

definition lifeRule :: "CellState \<Rightarrow> CellState list \<Rightarrow> CellState" where
  "lifeRule cell nbrs =
     (let os = ownersOf nbrs; n = length os
      in if alive cell then (if n = 2 \<or> n = 3 then cell else deadCell)
         else if n = 3 then \<lparr>alive = True, owner = majorityOwner os\<rparr> else cell)"

subsection \<open>The tally is the ordered table of counts\<close>

definition is_tally :: "PlayerId list \<Rightarrow> (PlayerId \<times> nat) list \<Rightarrow> bool" where
  "is_tally os m \<longleftrightarrow> sorted_wrt (<) (map fst m) \<and>
     set m = {(k, count_list os k) |k. k \<in> set os}"

lemma tallyOwner_keys: "fst ` set (tallyOwner k m) = insert k (fst ` set m)"
  by (induction k m rule: tallyOwner.induct) auto

lemma tallyOwner_sorted:
  "sorted_wrt (<) (map fst m) \<Longrightarrow> sorted_wrt (<) (map fst (tallyOwner k m))"
proof (induction k m rule: tallyOwner.induct)
  case (1 k)
  then show ?case by simp
next
  case (2 k k' n m)
  have "fst ` set (tallyOwner k m) = insert k (fst ` set m)" by (rule tallyOwner_keys)
  with 2 show ?case
    by (auto simp flip: image_iff)
qed

lemma tallyOwner_set:
  assumes "sorted_wrt (<) (map fst m)"
  shows "set (tallyOwner k m) =
    insert (k, (case map_of m k of None \<Rightarrow> 1 | Some n \<Rightarrow> n + 1)) {e \<in> set m. fst e \<noteq> k}"
  using assms
proof (induction k m rule: tallyOwner.induct)
  case (1 k)
  then show ?case by simp
next
  case (2 k k' n m)
  consider "k = k'" | "k < k'" | "k' < k" by fastforce
  then show ?case
  proof cases
    case 1
    with "2.prems" show ?thesis by auto
  next
    case 2
    with "2.prems" have "k \<notin> fst ` set m" by auto
    then have "map_of m k = None" by (simp add: map_of_eq_None_iff)
    with 2 \<open>k \<notin> fst ` set m\<close> show ?thesis by force
  next
    case 3
    with "2.IH" "2.prems" show ?thesis by auto
  qed
qed

lemma is_tally_tallyOwner:
  assumes "is_tally os m"
  shows "is_tally (os @ [k]) (tallyOwner k m)"
proof -
  from assms have s: "sorted_wrt (<) (map fst m)"
    and m: "set m = {(k, count_list os k) |k. k \<in> set os}"
    by (auto simp: is_tally_def)
  from s have d: "distinct (map fst m)" by (simp add: strict_sorted_iff)
  have "map_of m k = (if k \<in> set os then Some (count_list os k) else None)"
    using m d by (auto simp: map_of_eq_None_iff)
  moreover have "count_list os k = 0" if "k \<notin> set os"
    using that by (simp add: count_list_0_iff)
  ultimately have "set (tallyOwner k m) = {(j, count_list (os @ [k]) j) |j. j \<in> set (os @ [k])}"
    using tallyOwner_set [OF s, of k] m by auto
  with tallyOwner_sorted [OF s] show ?thesis by (simp add: is_tally_def)
qed

lemma countNeighbour_fold:
  assumes "is_tally os m"
  shows "\<exists>m'. fold countNeighbour cells (n, m) = (n + length (ownersOf cells), m')
    \<and> is_tally (os @ ownersOf cells) m'"
  using assms
proof (induction cells arbitrary: n m os)
  case Nil
  then show ?case by (simp add: ownersOf_def)
next
  case (Cons c cells)
  show ?case
  proof (cases "isOwned c")
    case True
    then have "countNeighbour c (n, m) = (n + 1, tallyOwner (owner c) m)"
      by (simp add: countNeighbour_def isOwned_def)
    with Cons.IH [OF is_tally_tallyOwner [OF Cons.prems], of "n + 1" "owner c"] True
    show ?thesis by (simp add: ownersOf_def One_nat_def)
  next
    case False
    then have "countNeighbour c (n, m) = (n, m)"
      by (auto simp: countNeighbour_def isOwned_def)
    with Cons.IH [OF Cons.prems, of n] False show ?thesis by (simp add: ownersOf_def)
  qed
qed

subsection \<open>The pick is the majority owner\<close>

lemma pickOwner_best:
  assumes "m \<noteq> []" "sorted_wrt (<) (map fst m)"
  shows "pickOwner m \<in> set m \<and> (\<forall>e \<in> set m. snd e \<le> snd (pickOwner m) \<and>
    (snd e = snd (pickOwner m) \<longrightarrow> fst e \<le> fst (pickOwner m)))"
  using assms
proof (induction m rule: rev_induct)
  case Nil
  then show ?case by simp
next
  case (snoc e m)
  have step: "pickOwner (m @ [e]) = (if snd e \<ge> snd (pickOwner m) then e else pickOwner m)"
    by (simp add: pickOwner_def)
  show ?case
  proof (cases "m = []")
    case True
    with step show ?thesis by (simp add: pickOwner_def)
  next
    case False
    from snoc.prems(2) have s: "sorted_wrt (<) (map fst m)"
      and lt: "\<forall>e' \<in> set m. fst e' < fst e"
      by (auto simp: sorted_wrt_append)
    note IH = snoc.IH [OF False s]
    show ?thesis
    proof (cases "snd e \<ge> snd (pickOwner m)")
      case True
      have "snd e' \<le> snd e \<and> (snd e' = snd e \<longrightarrow> fst e' \<le> fst e)" if "e' \<in> set m" for e'
        using IH lt that True by (meson le_trans less_imp_le)
      with True step show ?thesis by simp
    next
      case gt: False
      with IH step show ?thesis by simp
    qed
  qed
qed

lemma majorityOwner_eqI:
  assumes "k \<in> set os"
    and "\<And>j. j \<in> set os \<Longrightarrow> count_list os j \<le> count_list os k"
    and "\<And>j. j \<in> set os \<Longrightarrow> count_list os j = count_list os k \<Longrightarrow> j \<le> k"
  shows "majorityOwner os = k"
proof -
  have "Max (set (filter (\<lambda>k. \<forall>k' \<in> set os. count_list os k' \<le> count_list os k) os)) = k"
    using assms by (intro Max_eqI) (auto intro: antisym)
  with assms(1) show ?thesis by (auto simp: majorityOwner_def)
qed

lemma pickOwner_majority:
  assumes "is_tally os m"
  shows "fst (pickOwner m) = majorityOwner os"
proof (cases "os = []")
  case True
  with assms have "m = []" by (auto simp: is_tally_def)
  with True show ?thesis by (simp add: pickOwner_def majorityOwner_def)
next
  case False
  from assms have s: "sorted_wrt (<) (map fst m)"
    and m: "set m = {(k, count_list os k) |k. k \<in> set os}"
    by (auto simp: is_tally_def)
  from m False have "m \<noteq> []" by auto
  from pickOwner_best [OF this s] m obtain k where k: "pickOwner m = (k, count_list os k)"
    "k \<in> set os" and best: "\<And>j. j \<in> set os \<Longrightarrow> count_list os j \<le> count_list os k \<and>
      (count_list os j = count_list os k \<longrightarrow> j \<le> k)"
    by fastforce
  then have "majorityOwner os = k" by (intro majorityOwner_eqI) auto
  with k show ?thesis by simp
qed

subsection \<open>The body of the loop implements the rule\<close>

definition neighbourCells :: "Buffer \<Rightarrow> nat \<Rightarrow> nat \<Rightarrow> CellState list" where
  "neighbourCells current sx sy =
     map (\<lambda>(dx, dy). current ! index (nat (int sx + dx)) (nat (int sy + dy))) neighbourOffsets"

lemma neighborAliveCount_eq:
  "neighborAliveCount current sx sy =
     (let os = ownersOf (neighbourCells current sx sy) in (length os, majorityOwner os))"
proof -
  have f: "fold (\<lambda>(dx, dy). countNeighbour (current ! index (nat (int sx + dx)) (nat (int sy + dy))))
      ds acc = fold countNeighbour
        (map (\<lambda>(dx, dy). current ! index (nat (int sx + dx)) (nat (int sy + dy))) ds) acc"
    for ds :: "(int \<times> int) list" and acc
    by (induction ds arbitrary: acc) auto
  have "is_tally [] []" by (simp add: is_tally_def)
  from countNeighbour_fold [OF this, of "neighbourCells current sx sy" 0]
  obtain m where "fold countNeighbour (neighbourCells current sx sy) (0, []) =
      (length (ownersOf (neighbourCells current sx sy)), m)"
    and "is_tally (ownersOf (neighbourCells current sx sy)) m" by auto
  then show ?thesis
    by (simp add: neighborAliveCount_def f neighbourCells_def [symmetric] pickOwner_majority Let_def)
qed

lemma nextCell_lifeRule:
  "fst (nextCell cell (length (ownersOf nbrs), majorityOwner (ownersOf nbrs))) = lifeRule cell nbrs"
  by (auto simp: nextCell_def lifeRule_def Let_def deadCell_def)

lemma nextCell_changed: "snd (nextCell cell nb) \<longleftrightarrow> fst (nextCell cell nb) \<noteq> cell"
  by (cases cell) (auto simp: nextCell_def split: prod.splits)

lemma stepCell_lifeRule:
  "fst (stepCell current (x, y)) =
     lifeRule (current ! index (x + 1) (y + 1)) (neighbourCells current (x + 1) (y + 1))"
  by (simp add: stepCell_def neighborAliveCount_eq Let_def nextCell_lifeRule)

lemma stepCell_changed:
  "snd (stepCell current (x, y)) \<longleftrightarrow>
     fst (stepCell current (x, y)) \<noteq> current ! index (x + 1) (y + 1)"
  by (simp add: stepCell_def nextCell_changed Let_def)

lemma majorityOwner_in: "os \<noteq> [] \<Longrightarrow> majorityOwner os \<in> set os"
proof -
  assume ne: "os \<noteq> []"
  let ?M = "Max (count_list os ` set os)"
  have "?M \<in> count_list os ` set os" using ne by (intro Max_in) auto
  then obtain k where "k \<in> set os" "count_list os k = ?M" by force
  then have "k \<in> set (filter (\<lambda>k. \<forall>k' \<in> set os. count_list os k' \<le> count_list os k) os)"
    by auto
  then have "Max (set (filter (\<lambda>k. \<forall>k' \<in> set os. count_list os k' \<le> count_list os k) os))
      \<in> set (filter (\<lambda>k. \<forall>k' \<in> set os. count_list os k' \<le> count_list os k) os)"
    by (intro Max_in) auto
  with ne show ?thesis by (simp add: majorityOwner_def)
qed

lemma majorityOwner_owned: "ownersOf nbrs \<noteq> [] \<Longrightarrow> majorityOwner (ownersOf nbrs) \<noteq> 0"
  using majorityOwner_in [of "ownersOf nbrs"] by (auto simp: ownersOf_def isOwned_def)

text \<open>The rule keeps the link between life and ownership.\<close>

definition okCell :: "CellState \<Rightarrow> bool" where
  "okCell cell \<longleftrightarrow> (alive cell \<longleftrightarrow> owner cell \<noteq> 0)"

lemma okCell_lifeRule: "okCell cell \<Longrightarrow> okCell (lifeRule cell nbrs)"
proof -
  have "majorityOwner (ownersOf nbrs) \<noteq> 0" if "length (ownersOf nbrs) = 3"
    using that by (intro majorityOwner_owned) auto
  then show "okCell cell \<Longrightarrow> okCell (lifeRule cell nbrs)"
    by (auto simp: lifeRule_def okCell_def Let_def)
qed

lemma lifeRule_isolated: "ownersOf nbrs = [] \<Longrightarrow> \<not> alive cell \<Longrightarrow> lifeRule cell nbrs = cell"
  by (simp add: lifeRule_def)

end
