(* ===== verification/Server_Resources.thy ===== *)
theory Server_Resources
  imports Server_Types Interfaces
begin

section \<open>ResourceManager: the players' balances\<close>

text \<open>
  The hash map from player to 64-bit balance; every method takes its lock for its whole
  body, so each is one atomic function here. Awards wrap at \<open>2 ^ 64\<close> as the code's
  unsigned addition does. The prices are the constants of World.hpp.
\<close>

definition kPlaceCost :: u64 where "kPlaceCost = 2"
definition kRemoveAward :: u64 where "kRemoveAward = 1"
definition kAliveCellAward :: u64 where "kAliveCellAward = 1"
definition kStartBalance :: u64 where "kStartBalance = 10"

record ResourceManager =
  balances :: "(PlayerId \<times> u64) list"

definition newResourceManager :: ResourceManager where
  "newResourceManager = \<lparr>balances = []\<rparr>"

definition addPlayer :: "PlayerId \<Rightarrow> ResourceManager \<Rightarrow> u64 \<times> ResourceManager" where
  "addPlayer p r = (kStartBalance, r\<lparr>balances := AList.update p kStartBalance (balances r)\<rparr>)"

definition getBalance :: "ResourceManager \<Rightarrow> PlayerId \<Rightarrow> u64" where
  "getBalance r p = (case map_of (balances r) p of None \<Rightarrow> 0 | Some b \<Rightarrow> b)"

definition trySpend :: "PlayerId \<Rightarrow> u64 \<Rightarrow> ResourceManager \<Rightarrow> bool \<times> ResourceManager" where
  "trySpend p amount r = (case map_of (balances r) p of
     None \<Rightarrow> (False, r)
   | Some b \<Rightarrow> if b < amount then (False, r)
       else (True, r\<lparr>balances := AList.update p (b - amount) (balances r)\<rparr>))"

definition award :: "PlayerId \<Rightarrow> u64 \<Rightarrow> ResourceManager \<Rightarrow> bool \<times> ResourceManager" where
  "award p amount r = (case map_of (balances r) p of
     None \<Rightarrow> (False, r)
   | Some b \<Rightarrow> (True, r\<lparr>balances := AList.update p (b + amount) (balances r)\<rparr>))"

definition awardFromLiveCounts ::
  "(PlayerId \<times> u64) list \<Rightarrow> ResourceManager \<Rightarrow> ResourceManager" where
  "awardFromLiveCounts liveCounts r =
     fold (\<lambda>(p, live) r. r\<lparr>balances := add_at p (live * kAliveCellAward) (balances r)\<rparr>)
       liveCounts r"

definition getPlayerIds :: "ResourceManager \<Rightarrow> PlayerId list" where
  "getPlayerIds r = map fst (balances r)"

subsection \<open>Laws\<close>

definition knownPlayer :: "ResourceManager \<Rightarrow> PlayerId \<Rightarrow> bool" where
  "knownPlayer r p \<longleftrightarrow> p \<in> set (getPlayerIds r)"

definition wf_resources :: "ResourceManager \<Rightarrow> bool" where
  "wf_resources r \<longleftrightarrow> distinct (map fst (balances r))"

lemma knownPlayer_iff: "knownPlayer r p \<longleftrightarrow> (\<exists>b. map_of (balances r) p = Some b)"
  by (auto simp: knownPlayer_def getPlayerIds_def map_of_eq_None_iff simp flip: not_None_eq)

lemma getBalance_lookup0: "getBalance r p = lookup0 (balances r) p"
  by (simp add: getBalance_def lookup0_def)

interpretation accounts: ledger knownPlayer getBalance trySpend award
  by unfold_locales
    (auto simp: knownPlayer_iff getBalance_def trySpend_def award_def update_conv'
      split: option.splits)

lemma wf_newResourceManager [wf_intros]: "wf_resources newResourceManager"
  by (simp add: wf_resources_def newResourceManager_def)

lemma wf_addPlayer [wf_intros]: "wf_resources r \<Longrightarrow> wf_resources (snd (addPlayer p r))"
  by (simp add: wf_resources_def addPlayer_def distinct_update)

lemma wf_trySpend [wf_intros]: "wf_resources r \<Longrightarrow> wf_resources (snd (trySpend p n r))"
  by (auto simp: wf_resources_def trySpend_def distinct_update split: option.splits)

lemma wf_award [wf_intros]: "wf_resources r \<Longrightarrow> wf_resources (snd (award p n r))"
  by (auto simp: wf_resources_def award_def distinct_update split: option.splits)

lemma getBalance_addPlayer:
  "getBalance (snd (addPlayer p r)) q = (if q = p then kStartBalance else getBalance r q)"
  by (simp add: getBalance_def addPlayer_def update_conv')

lemma awardFromLiveCounts_balances:
  "balances (awardFromLiveCounts counts r) =
     fold (\<lambda>(p, n). add_at p n) (map (\<lambda>(p, live). (p, live * kAliveCellAward)) counts) (balances r)"
  by (induction counts arbitrary: r) (auto simp: awardFromLiveCounts_def)

lemma wf_awardFromLiveCounts [wf_intros]:
  "wf_resources r \<Longrightarrow> wf_resources (awardFromLiveCounts counts r)"
proof -
  have "distinct (map fst m) \<Longrightarrow> distinct (map fst (fold (\<lambda>(p, n). add_at p n) kns m))"
    for kns and m :: "(PlayerId \<times> u64) list"
    by (induction kns arbitrary: m) (auto simp: distinct_add_at)
  then show "wf_resources r \<Longrightarrow> wf_resources (awardFromLiveCounts counts r)"
    by (simp add: wf_resources_def awardFromLiveCounts_balances)
qed

text \<open>One award per player: the table of live counts has each key once.\<close>

lemma filter_key_map_of:
  assumes "distinct (map fst kns)"
  shows "sum_list (map snd (filter (\<lambda>kn. fst kn = k) kns)) = lookup0 kns k"
  using assms
proof (induction kns)
  case Nil
  then show ?case by simp
next
  case (Cons e kns)
  obtain j n where e: "e = (j, n)" by fastforce
  show ?case
  proof (cases "j = k")
    case True
    with Cons.prems e have "k \<notin> set (map fst kns)" by auto
    then have "filter (\<lambda>kn. fst kn = k) kns = []" by (force simp: filter_empty_conv)
    with True e show ?thesis by (simp add: lookup0_def)
  next
    case False
    with Cons e show ?thesis by (simp add: lookup0_def)
  qed
qed

lemma getBalance_awardFromLiveCounts:
  assumes "distinct (map fst counts)"
  shows "getBalance (awardFromLiveCounts counts r) p = getBalance r p + lookup0 counts p"
proof -
  have "map (\<lambda>(p, live). (p, live * kAliveCellAward)) counts = counts"
    by (simp add: kAliveCellAward_def case_prod_beta)
  with assms show ?thesis
    by (simp add: getBalance_lookup0 awardFromLiveCounts_balances lookup0_fold_add filter_key_map_of)
qed

lemma known_awardFromLiveCounts:
  "knownPlayer (awardFromLiveCounts counts r) p \<longleftrightarrow> knownPlayer r p \<or> p \<in> fst ` set counts"
proof -
  have "fst ` set (fold (\<lambda>(p, n). add_at p n) kns m) = fst ` set m \<union> fst ` set kns"
    for kns and m :: "(PlayerId \<times> u64) list"
    by (induction kns arbitrary: m) (simp_all add: dom_add_at case_prod_beta)
  then show ?thesis
    by (simp add: knownPlayer_def getPlayerIds_def awardFromLiveCounts_balances image_image
        case_prod_beta)
qed

end
