(* ===== verification/Server_World.thy ===== *)
theory Server_World
  imports Life_Rule Server_Resources
begin

section \<open>World.hpp and World.cpp: the map of chunks\<close>

text \<open>
  The hash map of chunks, as the list of its entries in the order the program iterates
  over them. References into the map become an update of the entry with that key
  (\<open>modifyChunk\<close>). The world's reference to the resource manager is passed along.
  Chunk coordinates are two's complement words: where \<open>coord.x + 1\<close> would overflow
  \<open>int\<close>, which C++ leaves undefined, the model wraps.
\<close>

declare One_nat_def [simp del] \<comment> \<open>positions are written \<open>x + 1\<close>\<close>

record World =
  chunks :: "(ChunkCoord \<times> Chunk) list"

definition newWorld :: World where
  "newWorld = \<lparr>chunks = []\<rparr>"

definition tryGetChunk :: "ChunkCoord \<Rightarrow> World \<Rightarrow> Chunk option" where
  "tryGetChunk c w = map_of (chunks w) c"

definition getOrCreateChunkUnlocked :: "ChunkCoord \<Rightarrow> World \<Rightarrow> Chunk \<times> World" where
  "getOrCreateChunkUnlocked c w = (case map_of (chunks w) c of
     None \<Rightarrow> (newChunk, w\<lparr>chunks := chunks w @ [(c, newChunk)]\<rparr>)
   | Some ch \<Rightarrow> (ch, w))"

definition getOrCreateChunk :: "ChunkCoord \<Rightarrow> World \<Rightarrow> Chunk \<times> World" where
  "getOrCreateChunk c w = getOrCreateChunkUnlocked c w"

definition modifyChunk :: "ChunkCoord \<Rightarrow> (Chunk \<Rightarrow> Chunk) \<Rightarrow> World \<Rightarrow> World" where
  "modifyChunk c f w = w\<lparr>chunks := AList.map_entry c f (chunks w)\<rparr>"

definition allChunks :: "World \<Rightarrow> Chunk list" where
  "allChunks w = map snd (chunks w)"

definition allChunksWithCoords :: "World \<Rightarrow> (ChunkCoord \<times> Chunk) list" where
  "allChunksWithCoords w = chunks w"

subsection \<open>Commands\<close>

text \<open>C++ division and remainder truncate towards zero: \<open>sdiv\<close> and \<open>smod\<close>.\<close>

definition chunkOfGlobal :: "int \<Rightarrow> u32" where
  "chunkOfGlobal g = word_of_int
     (if g \<ge> 0 then g sdiv int ChunkWidth else (g - int ChunkWidth + 1) sdiv int ChunkWidth)"

definition localOfGlobal :: "int \<Rightarrow> nat" where
  "localOfGlobal g = nat ((g smod int ChunkWidth + int ChunkWidth) smod int ChunkWidth)"

fun commandEffect ::
  "CommandType \<Rightarrow> PlayerId \<Rightarrow> CellState \<Rightarrow> ResourceManager \<Rightarrow> CellState \<times> ResourceManager"
where
  "commandEffect PlaceCell p cell r =
     (if owner cell = 0 then
        (let (ok, r') = trySpend p kPlaceCost r
         in (if ok then cell\<lparr>alive := True, owner := p\<rparr> else cell, r'))
      else (cell, r))"
| "commandEffect RemoveCell p cell r =
     (if owner cell = p then
        (let (ok, r') = award p kRemoveAward r
         in (if ok then cell\<lparr>alive := False, owner := 0\<rparr> else cell, r'))
      else (cell, r))"
| "commandEffect ToggleCell p cell r =
     (if owner cell = 0 \<or> owner cell = p then
        (let (canToggle, r') =
           (if alive cell then award p kRemoveAward r else trySpend p kPlaceCost r)
         in (if canToggle
             then cell\<lparr>alive := \<not> alive cell, owner := (if \<not> alive cell then p else 0)\<rparr>
             else cell, r'))
      else (cell, r))"

definition applyCommand :: "PlayerCommand \<Rightarrow> World \<times> ResourceManager \<Rightarrow> World \<times> ResourceManager" where
  "applyCommand cmd wr = (case wr of (w, r) \<Rightarrow>
     (let globalX = sint (cmdX cmd); globalY = sint (cmdY cmd);
          c = coord (chunkOfGlobal globalX) (chunkOfGlobal globalY);
          localX = localOfGlobal globalX; localY = localOfGlobal globalY;
          (chunk, w1) = getOrCreateChunkUnlocked c w;
          cell = getCell chunk localX localY;
          (cell', r') = commandEffect (cmdType cmd) (cmdPlayerId cmd) cell r
      in (modifyChunk c (\<lambda>ch. setCell ch localX localY cell') w1, r')))"

definition applyCommands ::
  "PlayerCommand list \<Rightarrow> World \<times> ResourceManager \<Rightarrow> World \<times> ResourceManager" where
  "applyCommands cmds wr = fold applyCommand cmds wr"

subsection \<open>Borders\<close>

definition hasLiveCells :: "Chunk \<Rightarrow> bool" where
  "hasLiveCells c = list_ex (\<lambda>(x, y). alive (getCell c x y)) (row_major ChunkWidth ChunkHeight)"

definition neighbourCoord :: "ChunkCoord \<Rightarrow> int \<times> int \<Rightarrow> ChunkCoord" where
  "neighbourCoord c d = coord (coordX c + word_of_int (fst d)) (coordY c + word_of_int (snd d))"

definition chunksToCreate :: "World \<Rightarrow> ChunkCoord list" where
  "chunksToCreate w = concat (map (\<lambda>(c, ch).
     if \<not> hasLiveCells ch then []
     else filter (\<lambda>n. map_of (chunks w) n = None) (map (neighbourCoord c) neighbourOffsets))
     (chunks w))"

definition ensureSimulationMarginUnlocked :: "World \<Rightarrow> World" where
  "ensureSimulationMarginUnlocked w =
     fold (\<lambda>c w. snd (getOrCreateChunkUnlocked c w)) (chunksToCreate w) w"

definition readOrDead :: "Chunk option \<Rightarrow> nat \<Rightarrow> nat \<Rightarrow> CellState" where
  "readOrDead chunk x y = (case chunk of None \<Rightarrow> deadCell | Some ch \<Rightarrow> getCell ch x y)"

text \<open>The calls of \<open>setGhostCell\<close> for one chunk, in program order.\<close>

definition ghostWrites :: "World \<Rightarrow> ChunkCoord \<Rightarrow> ((nat \<times> nat) \<times> CellState) list" where
  "ghostWrites w c =
     (let near = (\<lambda>dx dy. tryGetChunk (neighbourCoord c (dx, dy)) w);
          north = near 0 (-1); south = near 0 1; west = near (-1) 0; east = near 1 0;
          northWest = near (-1) (-1); northEast = near 1 (-1);
          southWest = near (-1) 1; southEast = near 1 1
      in concat (map (\<lambda>x.
           [((x + GhostBorder, 0), readOrDead north x (ChunkHeight - 1)),
            ((x + GhostBorder, ChunkHeight + GhostBorder), readOrDead south x 0)]) [0..<ChunkWidth])
       @ concat (map (\<lambda>y.
           [((0, y + GhostBorder), readOrDead west (ChunkWidth - 1) y),
            ((ChunkWidth + GhostBorder, y + GhostBorder), readOrDead east 0 y)]) [0..<ChunkHeight])
       @ [((0, 0), readOrDead northWest (ChunkWidth - 1) (ChunkHeight - 1)),
          ((ChunkWidth + GhostBorder, 0), readOrDead northEast 0 (ChunkHeight - 1)),
          ((0, ChunkHeight + GhostBorder), readOrDead southWest (ChunkWidth - 1) 0),
          ((ChunkWidth + GhostBorder, ChunkHeight + GhostBorder), readOrDead southEast 0 0)])"

definition exchangeChunk :: "ChunkCoord \<Rightarrow> World \<Rightarrow> World" where
  "exchangeChunk c w =
     modifyChunk c (fold (\<lambda>((sx, sy), v) ch. setGhostCell ch sx sy v) (ghostWrites w c)) w"

definition exchangeBorders :: "World \<Rightarrow> World" where
  "exchangeBorders w =
     (let w1 = ensureSimulationMarginUnlocked w
      in fold exchangeChunk (map fst (chunks w1)) w1)"

subsection \<open>The infinite grid the chunks stand for\<close>

definition keyAt :: "int \<Rightarrow> int \<Rightarrow> ChunkCoord" where
  "keyAt X Y = coord (word_of_int (X div 64)) (word_of_int (Y div 64))"

definition cellAt :: "World \<Rightarrow> int \<Rightarrow> int \<Rightarrow> CellState" where
  "cellAt w X Y = readOrDead (tryGetChunk (keyAt X Y) w) (nat (X mod 64)) (nat (Y mod 64))"

definition wf_world :: "World \<Rightarrow> bool" where
  "wf_world w \<longleftrightarrow> distinct (map fst (chunks w)) \<and> (\<forall>(c, ch) \<in> set (chunks w). wf_chunk ch)"

lemma wf_worldD: "wf_world w \<Longrightarrow> tryGetChunk c w = Some ch \<Longrightarrow> wf_chunk ch"
  by (auto simp: wf_world_def tryGetChunk_def dest!: map_of_SomeD)

lemma wf_newWorld [wf_intros]: "wf_world newWorld"
  by (simp add: wf_world_def newWorld_def)

lemma tryGetChunk_modifyChunk:
  "tryGetChunk c' (modifyChunk c f w) =
     (if c' = c then map_option f (tryGetChunk c w) else tryGetChunk c' w)"
  by (simp add: tryGetChunk_def modifyChunk_def map_of_map_entry split: option.splits)

lemma keys_modifyChunk [frame_simps]: "map fst (chunks (modifyChunk c f w)) = map fst (chunks w)"
  by (simp add: modifyChunk_def)

lemma wf_worldI:
  assumes "distinct (map fst (chunks w))" "\<And>c ch. tryGetChunk c w = Some ch \<Longrightarrow> wf_chunk ch"
  shows "wf_world w"
  using assms by (auto simp: wf_world_def tryGetChunk_def)

lemma wf_modifyChunk [wf_intros]:
  assumes "wf_world w" "\<And>ch. wf_chunk ch \<Longrightarrow> wf_chunk (f ch)"
  shows "wf_world (modifyChunk c f w)"
proof (rule wf_worldI)
  show "distinct (map fst (chunks (modifyChunk c f w)))"
    using assms(1) by (simp add: keys_modifyChunk wf_world_def)
  show "wf_chunk ch" if "tryGetChunk c' (modifyChunk c f w) = Some ch" for c' ch
    using that assms by (auto simp: tryGetChunk_modifyChunk split: if_splits dest: wf_worldD)
qed

lemma getOrCreateChunk_fst:
  "fst (getOrCreateChunkUnlocked c w) = (case tryGetChunk c w of None \<Rightarrow> newChunk | Some ch \<Rightarrow> ch)"
  by (simp add: getOrCreateChunkUnlocked_def tryGetChunk_def split: option.splits)

lemma tryGetChunk_getOrCreate:
  "tryGetChunk c' (snd (getOrCreateChunkUnlocked c w)) =
     (if c' = c then Some (fst (getOrCreateChunkUnlocked c w)) else tryGetChunk c' w)"
  by (auto simp: getOrCreateChunkUnlocked_def tryGetChunk_def map_add_def
      split: option.splits)

lemma wf_getOrCreate [wf_intros]:
  assumes "wf_world w"
  shows "wf_world (snd (getOrCreateChunkUnlocked c w))"
proof (rule wf_worldI)
  show "distinct (map fst (chunks (snd (getOrCreateChunkUnlocked c w))))"
    using assms by (auto simp: getOrCreateChunkUnlocked_def wf_world_def map_of_eq_None_iff
        split: option.splits)
  show "wf_chunk ch" if "tryGetChunk c' (snd (getOrCreateChunkUnlocked c w)) = Some ch" for c' ch
    using that assms
    by (auto simp: tryGetChunk_getOrCreate getOrCreateChunk_fst wf_newChunk
        split: if_splits option.splits dest: wf_worldD)
qed

text \<open>Creating a chunk does not change the grid: a new chunk is dead everywhere.\<close>

lemma mod_64_nat [simp]: "nat (X mod 64) < 64"
  by (simp add: nat_less_iff)

lemma cellAt_getOrCreate [frame_simps]:
  "cellAt (snd (getOrCreateChunkUnlocked c w)) X Y = cellAt w X Y"
  by (auto simp: cellAt_def tryGetChunk_getOrCreate readOrDead_def getOrCreateChunk_fst
      split: option.splits)

subsection \<open>Commands act on one cell of the grid\<close>

lemma chunkOfGlobal_eq: "chunkOfGlobal g = word_of_int (g div 64)"
proof (cases "g \<ge> 0")
  case True
  then have "g sdiv 64 = g div 64" by (simp add: signed_divide_int_def sgn_if)
  with True show ?thesis by (simp add: chunkOfGlobal_def)
next
  case False
  then have "(g - 63) sdiv 64 = - ((63 - g) div 64)"
    by (simp add: signed_divide_int_def sgn_if)
  also have "(63 - g) div 64 = - (g div 64)"
    proof (rule int_div_pos_eq [where r = "63 - g mod 64"])
    have "64 * (g div 64) + g mod 64 = g" by simp
    then show "63 - g = 64 * - (g div 64) + (63 - g mod 64)" by linarith
  qed simp_all
  finally show ?thesis using False by (simp add: chunkOfGlobal_def)
qed

lemma localOfGlobal_eq: "localOfGlobal g = nat (g mod 64)"
proof -
  have "0 \<le> g smod 64 + 64" using smod_int_range [of 64 g] by simp
  then have "(g smod 64 + 64) smod 64 = (g smod 64) mod 64"
    by (simp add: smod_mod_positive)
  also have "\<dots> = (64 * (g sdiv 64) + g smod 64) mod 64" by simp
  also have "64 * (g sdiv 64) + g smod 64 = g" by (rule mult_sdiv_smod_eq)
  finally show ?thesis by (simp add: localOfGlobal_def)
qed

text \<open>
  Two global positions address the same cell exactly when they agree modulo \<open>2 ^ 38\<close>: 64
  cells times the \<open>2 ^ 32\<close> chunk coordinates.
\<close>

definition sameCoord :: "int \<Rightarrow> int \<Rightarrow> bool" where
  "sameCoord g g' \<longleftrightarrow> g mod 2 ^ 38 = g' mod 2 ^ 38"

lemma sameCoord_iff:
  "sameCoord g g' \<longleftrightarrow>
     (word_of_int (g div 64) :: u32) = word_of_int (g' div 64) \<and> nat (g mod 64) = nat (g' mod 64)"
proof -
  have "(word_of_int (g div 64) :: u32) = word_of_int (g' div 64) \<longleftrightarrow>
      (g div 64) mod 2 ^ 32 = (g' div 64) mod 2 ^ 32"
    by (simp add: word_of_int_eq_iff take_bit_eq_mod)
  moreover have "nat (g mod 64) = nat (g' mod 64) \<longleftrightarrow> g mod 64 = g' mod 64"
    by (simp add: eq_nat_nat_iff)
  moreover have "g mod 2 ^ 38 = 64 * ((g div 64) mod 2 ^ 32) + g mod 64" for g :: int
    using zmod_zmult2_eq [of "2 ^ 32" g 64] by simp
  moreover have "64 * a + b = 64 * a' + b' \<longleftrightarrow> a = a' \<and> b = b'"
    if "0 \<le> b" "b < 64" "0 \<le> b'" "b' < 64" for a b a' b' :: int
  proof -
    have "(64 * a + b) div 64 = a" "(64 * a' + b') div 64 = a'"
      using that by simp_all
    then have "a = a'" if "64 * a + b = 64 * a' + b'" using that by metis
    then show ?thesis by auto
  qed
  ultimately show ?thesis by (simp add: sameCoord_def)
qed

lemma keyAt_eq_iff:
  "keyAt X Y = keyAt X' Y' \<and> nat (X mod 64) = nat (X' mod 64) \<and> nat (Y mod 64) = nat (Y' mod 64)
   \<longleftrightarrow> sameCoord X X' \<and> sameCoord Y Y'"
  by (auto simp: keyAt_def sameCoord_iff)

lemma cellAt_modify_set:
  assumes "wf_world w" "tryGetChunk (keyAt X Y) w \<noteq> None"
  shows "cellAt (modifyChunk (keyAt X Y)
      (\<lambda>ch. setCell ch (nat (X mod 64)) (nat (Y mod 64)) s) w) X' Y' =
    (if sameCoord X' X \<and> sameCoord Y' Y then s else cellAt w X' Y')"
proof (cases "keyAt X' Y' = keyAt X Y")
  case True
  from assms obtain ch where ch: "tryGetChunk (keyAt X Y) w = Some ch" "wf_chunk ch"
    by (auto dest: wf_worldD)
  have "sameCoord X' X \<and> sameCoord Y' Y \<longleftrightarrow>
      nat (X' mod 64) = nat (X mod 64) \<and> nat (Y' mod 64) = nat (Y mod 64)"
    using True keyAt_eq_iff [of X' Y' X Y] by simp
  with True ch show ?thesis
    by (simp add: cellAt_def tryGetChunk_modifyChunk readOrDead_def cells.get_put)
next
  case False
  then have "(sameCoord X' X \<and> sameCoord Y' Y) = False" using keyAt_eq_iff [of X' Y' X Y] by auto
  with False show ?thesis by (simp only: cellAt_def tryGetChunk_modifyChunk if_False)
qed

lemma applyCommand_unfold:
  "applyCommand cmd (w, r) =
     (let X = sint (cmdX cmd); Y = sint (cmdY cmd);
          (cell', r') = commandEffect (cmdType cmd) (cmdPlayerId cmd) (cellAt w X Y) r
      in (modifyChunk (keyAt X Y) (\<lambda>ch. setCell ch (nat (X mod 64)) (nat (Y mod 64)) cell')
            (snd (getOrCreateChunkUnlocked (keyAt X Y) w)), r'))"
proof -
  have "getCell (fst (getOrCreateChunkUnlocked (keyAt X Y) w)) (nat (X mod 64)) (nat (Y mod 64))
      = cellAt w X Y" for X Y
    by (simp add: getOrCreateChunk_fst cellAt_def readOrDead_def split: option.splits)
  then show ?thesis
    by (simp add: applyCommand_def Let_def chunkOfGlobal_eq localOfGlobal_eq keyAt_def
        case_prod_beta)
qed

lemma cellAt_applyCommand:
  assumes "wf_world w"
  shows "cellAt (fst (applyCommand cmd (w, r))) X Y =
    (if sameCoord X (sint (cmdX cmd)) \<and> sameCoord Y (sint (cmdY cmd))
     then fst (commandEffect (cmdType cmd) (cmdPlayerId cmd)
                 (cellAt w (sint (cmdX cmd)) (sint (cmdY cmd))) r)
     else cellAt w X Y)"
  using assms
  by (simp add: applyCommand_unfold Let_def case_prod_beta cellAt_modify_set wf_getOrCreate
      tryGetChunk_getOrCreate cellAt_getOrCreate)

lemma snd_applyCommand:
  "snd (applyCommand cmd (w, r)) =
     snd (commandEffect (cmdType cmd) (cmdPlayerId cmd)
       (cellAt w (sint (cmdX cmd)) (sint (cmdY cmd))) r)"
  by (simp add: applyCommand_unfold Let_def case_prod_beta)

lemma wf_applyCommand [wf_intros]:
  assumes "wf_world w"
  shows "wf_world (fst (applyCommand cmd (w, r)))"
  using assms
  by (simp add: applyCommand_unfold Let_def case_prod_beta wf_modifyChunk wf_getOrCreate wf_setCell)

lemma wf_commandEffect [wf_intros]:
  "wf_resources r \<Longrightarrow> wf_resources (snd (commandEffect t p cell r))"
  by (cases t) (auto simp: case_prod_beta Let_def wf_trySpend wf_award)

lemma wf_applyCommands [wf_intros]:
  "wf_world (fst wr) \<and> wf_resources (snd wr) \<Longrightarrow>
   wf_world (fst (applyCommands cmds wr)) \<and> wf_resources (snd (applyCommands cmds wr))"
proof (induction cmds arbitrary: wr)
  case Nil
  then show ?case by (simp add: applyCommands_def)
next
  case (Cons cmd cmds)
  obtain w r where wr: "wr = (w, r)" by fastforce
  with Cons.prems have "wf_world (fst (applyCommand cmd wr)) \<and>
      wf_resources (snd (applyCommand cmd wr))"
    by (simp add: wf_applyCommand snd_applyCommand wf_commandEffect)
  from Cons.IH [OF this] show ?case by (simp add: applyCommands_def)
qed

text \<open>Commands of real players (a non-zero identifier) keep life and ownership together.\<close>

lemma okCell_commandEffect:
  "okCell cell \<Longrightarrow> p \<noteq> 0 \<Longrightarrow> okCell (fst (commandEffect t p cell r))"
  by (cases t) (auto simp: okCell_def case_prod_beta Let_def)

end
