(* ===== verification/Wire_Format.thy ===== *)
theory Wire_Format
  imports Interfaces
begin

section \<open>Protocol.hpp: constants and little-endian integers\<close>

text \<open>
  The sizes, offsets, tags and flags both sides share (\<open>Client_Protocol\<close> has the client's
  own copies), and the \<open>memcpy\<close> of an integer into or out of a byte buffer on a
  little-endian host (\<open>writeLE\<close>, \<open>readLE\<close>), for any word whose width is a whole number of
  bytes.
\<close>

definition kMagic :: u32 where "kMagic = 0x4D4C4946"
definition kHandshakeSize :: nat where [size_consts]: "kHandshakeSize = 12"

definition kCmdPlace :: byte where "kCmdPlace = 0x00"
definition kCmdRemove :: byte where "kCmdRemove = 0x01"
definition kCmdToggle :: byte where "kCmdToggle = 0x02"
definition kCommandSize :: nat where [size_consts]: "kCommandSize = 25"

definition kMsgResyncReq :: byte where "kMsgResyncReq = 0x10"
definition kResyncReqSize :: nat where [size_consts]: "kResyncReqSize = 1"

definition kMsgServerStats :: byte where "kMsgServerStats = 0x20"
definition kServerStatsHeader :: nat where [size_consts]: "kServerStatsHeader = 7"
definition kServerStatsEntry :: nat where [size_consts]: "kServerStatsEntry = 24"

definition kUdpHeader :: nat where [size_consts]: "kUdpHeader = 15"
definition kUdpCellEntry :: nat where [size_consts]: "kUdpCellEntry = 11"
definition kMaxUdpPayload :: nat where [size_consts]: "kMaxUdpPayload = 1400"
definition kMaxCellsPerPacket :: nat where [size_consts]:
  "kMaxCellsPerPacket = (kMaxUdpPayload - kUdpHeader) div kUdpCellEntry"

definition kOffSeqNum :: nat where [size_consts]: "kOffSeqNum = 0"
definition kOffFlags :: nat where [size_consts]: "kOffFlags = 4"
definition kOffChunkX :: nat where [size_consts]: "kOffChunkX = 5"
definition kOffChunkY :: nat where [size_consts]: "kOffChunkY = 9"
definition kOffCellCount :: nat where [size_consts]: "kOffCellCount = 13"

definition kFlagDelta :: byte where "kFlagDelta = 0x00"
definition kFlagFull :: byte where "kFlagFull = 0x01"

subsection \<open>Little-endian integers\<close>

fun leBytes :: "nat \<Rightarrow> nat \<Rightarrow> byte list" where
  "leBytes 0 v = []"
| "leBytes (Suc k) v = word_of_nat v # leBytes k (v div 256)"

fun leValue :: "byte list \<Rightarrow> nat" where
  "leValue [] = 0"
| "leValue (b # bs) = unat b + 256 * leValue bs"

definition writeLE :: "'a::len word \<Rightarrow> byte list" where
  "writeLE v = leBytes (LENGTH('a) div 8) (unat v)"

definition readLE :: "byte list \<Rightarrow> 'a::len word" where
  "readLE p = word_of_nat (leValue (take (LENGTH('a) div 8) p))"

text \<open>\<open>memcpy\<close> of some bytes into a buffer at an offset.\<close>

definition writeAt :: "nat \<Rightarrow> byte list \<Rightarrow> byte list \<Rightarrow> byte list" where
  "writeAt off bs buf = take off buf @ bs @ drop (off + length bs) buf"

lemma length_leBytes [simp]: "length (leBytes k v) = k"
  by (induction k arbitrary: v) auto

lemma leValue_leBytes: "leValue (leBytes k v) = v mod 256 ^ k"
proof (induction k arbitrary: v)
  case 0
  then show ?case by simp
next
  case (Suc k)
  have "unat (word_of_nat v :: byte) = v mod 256"
    by (simp add: unat_of_nat)
  with Suc show ?case by (simp add: mod_mult2_eq)
qed

lemma readLE_writeLE:
  assumes "256 ^ (LENGTH('a::len) div 8) = (2::nat) ^ LENGTH('a)"
  shows "readLE (writeLE (v :: 'a word) @ rest) = v"
proof -
  have "unat v < 2 ^ LENGTH('a)" by (rule unsigned_less)
  then show ?thesis by (simp add: readLE_def writeLE_def leValue_leBytes assms)
qed

lemma length_writeLE: "length (writeLE (v :: 'a::len word)) = LENGTH('a) div 8"
  by (simp add: writeLE_def)

interpretation le16: codec 2 "writeLE :: u16 \<Rightarrow> byte list" readLE
  by unfold_locales (simp_all add: length_writeLE readLE_writeLE)

interpretation le32: codec 4 "writeLE :: u32 \<Rightarrow> byte list" readLE
  by unfold_locales (simp_all add: length_writeLE readLE_writeLE)

interpretation le64: codec 8 "writeLE :: u64 \<Rightarrow> byte list" readLE
  by unfold_locales (simp_all add: length_writeLE readLE_writeLE)

lemmas le_lengths [simp] = le16.length_enc le32.length_enc le64.length_enc
lemmas le_reads [simp] = le16.dec_enc le32.dec_enc le64.dec_enc

lemma readLE_writeLE_exact [simp]:
  "readLE (writeLE (a :: u16)) = a" "readLE (writeLE (b :: u32)) = b"
  "readLE (writeLE (c :: u64)) = c"
  using le16.dec_enc [of a "[]"] le32.dec_enc [of b "[]"] le64.dec_enc [of c "[]"] by simp_all

lemma writeLE_readLE:
  fixes p :: "byte list"
  assumes "length p = k" "k * 8 = LENGTH('a::len)"
  shows "writeLE (readLE p :: 'a word) = p"
proof -
  have div: "LENGTH('a) div 8 = k" using assms(2) by simp
  have lt: "leValue bs < 256 ^ length bs" for bs
  proof (induction bs)
    case Nil
    then show ?case by simp
  next
    case (Cons b bs)
    have "unat b < 256" using unsigned_less [of b, where ?'a = nat] by simp
    with Cons show ?case by simp
  qed
  have inv: "leBytes (length bs) (leValue bs) = bs" for bs
  proof (induction bs)
    case Nil
    then show ?case by simp
  next
    case (Cons b bs)
    have "unat b < 256" using unsigned_less [of b, where ?'a = nat] by simp
    moreover from this have "(unat b + 256 * leValue bs) div 256 = leValue bs" by simp
    moreover have "(word_of_nat (unat b + 256 * leValue bs) :: byte) = b"
    proof -
      have z: "(256 :: byte) = 0" by simp
      show ?thesis by (simp add: z)
    qed
    ultimately show ?case using Cons by simp
  qed
  have "(2 ^ 8 :: nat) ^ k = 2 ^ (8 * k)" by (simp only: power_mult)
  then have "(256::nat) ^ k = 2 ^ LENGTH('a)" by (simp add: assms(2) [symmetric] mult.commute)
  with lt [of p] assms(1) have "leValue p < 2 ^ LENGTH('a)" by simp
  then have "unat (readLE p :: 'a word) = leValue p"
    using assms(1) by (simp add: readLE_def div unat_of_nat)
  with inv [of p] assms(1) show ?thesis by (simp add: writeLE_def div)
qed

end
