(* ===== verification/World_Serializer.thy ===== *)
theory World_Serializer
  imports Server_World Wire_Format
begin

section \<open>WorldSerializer.hpp: deltas and full snapshots as UDP packets\<close>

text \<open>
  The payload of an update is the concatenation of its packets. A chunk with more entries
  than fit a packet is split into several packets. Packets are written through pointers at
  the header's offsets, as \<open>writeAt\<close> on a zeroed buffer (\<open>resize\<close> value-initialises).
\<close>

record Entry =
  entryX :: byte
  entryY :: byte
  entryAlive :: byte
  entryOwner :: u64

definition packetHeader :: "u32 \<Rightarrow> byte \<Rightarrow> ChunkCoord \<Rightarrow> u16 \<Rightarrow> byte list" where
  "packetHeader seqNum flags c cellCount =
     writeAt kOffCellCount (writeLE cellCount)
       (writeAt kOffChunkY (writeLE (coordY c))
         (writeAt kOffChunkX (writeLE (coordX c))
           ((writeAt kOffSeqNum (writeLE seqNum) (replicate kUdpHeader 0))[kOffFlags := flags])))"

definition encodeEntry :: "Entry \<Rightarrow> byte list" where
  "encodeEntry e =
     writeAt 3 (writeLE (entryOwner e))
       ((replicate kUdpCellEntry 0)[0 := entryX e, 1 := entryY e, 2 := entryAlive e])"

definition encodePacket :: "u32 \<Rightarrow> byte \<Rightarrow> ChunkCoord \<Rightarrow> Entry list \<Rightarrow> byte list" where
  "encodePacket seqNum flags c es =
     packetHeader seqNum flags c (word_of_nat (length es)) @ concat (map encodeEntry es)"

text \<open>The loop over offsets; \<open>appendChunk\<close> starts it at zero.\<close>

function appendPackets ::
  "u32 \<Rightarrow> byte \<Rightarrow> ChunkCoord \<Rightarrow> Entry list \<Rightarrow> nat \<Rightarrow> byte list \<Rightarrow> byte list" where
  "appendPackets seqNum flags c entries offset out =
     (if offset < length entries then
        (let chunkSize = min kMaxCellsPerPacket (length entries - offset)
         in appendPackets seqNum flags c entries (offset + kMaxCellsPerPacket)
              (out @ encodePacket seqNum flags c (take chunkSize (drop offset entries))))
      else out)"
  by pat_completeness auto
termination
  by (relation "measure (\<lambda>(s, f, c, entries, offset, out). length entries - offset)")
    (auto simp: size_consts)

declare appendPackets.simps [simp del]

definition appendChunk ::
  "byte list \<Rightarrow> u32 \<Rightarrow> byte \<Rightarrow> ChunkCoord \<Rightarrow> Entry list \<Rightarrow> byte list" where
  "appendChunk out seqNum flags c entries =
     (if entries = [] then out else appendPackets seqNum flags c entries 0 out)"

definition dirtyEntries :: "Chunk \<Rightarrow> Entry list" where
  "dirtyEntries ch = map (\<lambda>(x, y).
     let state = getCell ch (unat x) (unat y)
     in \<lparr>entryX = x, entryY = y, entryAlive = (if alive state then 1 else 0),
         entryOwner = owner state\<rparr>) (dirtyCells ch)"

text \<open>The serializer clears the dirty list of every chunk it encodes.\<close>

definition serializeDelta ::
  "u32 \<Rightarrow> (ChunkCoord \<times> Chunk) list \<Rightarrow> byte list \<times> (ChunkCoord \<times> Chunk) list" where
  "serializeDelta seqNum cs =
     fold (\<lambda>(c, ch) (out, kept).
         if \<not> isDirty ch then (out, kept @ [(c, ch)])
         else (appendChunk out seqNum kFlagDelta c (dirtyEntries ch), kept @ [(c, clearDirty ch)]))
       cs ([], [])"

definition fullEntries :: "Chunk \<Rightarrow> Entry list" where
  "fullEntries ch = concat (map (\<lambda>(cx, cy).
     let state = getCell ch cx cy
     in if alive state
        then [\<lparr>entryX = word_of_nat cx, entryY = word_of_nat cy, entryAlive = 1,
               entryOwner = owner state\<rparr>]
        else []) (row_major ChunkWidth ChunkHeight))"

definition serializeFull :: "u32 \<Rightarrow> (ChunkCoord \<times> Chunk) list \<Rightarrow> byte list" where
  "serializeFull seqNum cs =
     fold (\<lambda>(c, ch) out.
         let entries = fullEntries ch
         in if entries = [] then out else appendChunk out seqNum kFlagFull c entries)
       cs []"

subsection \<open>The layout of a packet\<close>

lemma consts_simps [simp]:
  "kUdpHeader = 15" "kUdpCellEntry = 11" "kMaxUdpPayload = 1400" "kMaxCellsPerPacket = 125"
  "kOffSeqNum = 0" "kOffFlags = 4" "kOffChunkX = 5" "kOffChunkY = 9" "kOffCellCount = 13"
  by (simp_all add: size_consts)

lemma length_writeAt: "off + length bs \<le> length buf \<Longrightarrow> length (writeAt off bs buf) = length buf"
  by (simp add: writeAt_def)

lemma packetHeader_layout:
  "packetHeader seqNum flags c n =
     writeLE seqNum @ [flags] @ writeLE (coordX c) @ writeLE (coordY c) @ writeLE n"
proof -
  have r: "replicate 15 (0::byte) = replicate 4 0 @ [0] @ replicate 4 0 @ replicate 4 0 @ replicate 2 0"
    by (simp add: eval_nat_numeral)
  have w: "writeAt (length a) b (a @ x @ y) = a @ b @ y" if "length x = length b"
    for a b x y :: "byte list"
    using that by (simp add: writeAt_def)
  let ?z = "replicate 4 (0::byte)" and ?z2 = "replicate 2 (0::byte)"
  let ?s = "writeLE seqNum" and ?x = "writeLE (coordX c)" and ?y = "writeLE (coordY c)"
  have 1: "writeAt 0 ?s (replicate 15 0) = ?s @ [0] @ ?z @ ?z @ ?z2"
    unfolding r using w [of ?z ?s "[]"] by simp
  have 2: "(?s @ [0] @ ?z @ ?z @ ?z2)[4 := flags] = ?s @ [flags] @ ?z @ ?z @ ?z2"
    by (simp add: list_update_append)
  have 3: "writeAt 5 ?x (?s @ [flags] @ ?z @ ?z @ ?z2) = ?s @ [flags] @ ?x @ ?z @ ?z2"
    using w [of ?z ?x "?s @ [flags]" "?z @ ?z2"] by simp
  have 4: "writeAt 9 ?y (?s @ [flags] @ ?x @ ?z @ ?z2) = ?s @ [flags] @ ?x @ ?y @ ?z2"
    using w [of ?z ?y "?s @ [flags] @ ?x" "?z2"] by simp
  have 5: "writeAt 13 (writeLE n) (?s @ [flags] @ ?x @ ?y @ ?z2) =
      ?s @ [flags] @ ?x @ ?y @ writeLE n"
    using w [of ?z2 "writeLE n" "?s @ [flags] @ ?x @ ?y" "[]"] by simp
  show ?thesis by (simp only: packetHeader_def consts_simps 1 2 3 4 5)
qed

lemma encodeEntry_layout:
  "encodeEntry e = [entryX e, entryY e, entryAlive e] @ writeLE (entryOwner e)"
  by (simp add: encodeEntry_def writeAt_def eval_nat_numeral)

definition decodeEntry :: "byte list \<Rightarrow> Entry" where
  "decodeEntry p = \<lparr>entryX = p ! 0, entryY = p ! 1, entryAlive = p ! 2,
     entryOwner = readLE (drop 3 p)\<rparr>"

interpretation entries: codec 11 encodeEntry decodeEntry
  by unfold_locales (simp_all add: encodeEntry_layout decodeEntry_def eval_nat_numeral)

lemma length_packetHeader [simp]: "length (packetHeader s f c n) = 15"
  by (simp add: packetHeader_layout)

lemma length_encodePacket [simp]: "length (encodePacket s f c es) = 15 + 11 * length es"
  by (simp add: encodePacket_def entries.length_encs)

lemma readLE_skip:
  "length a = k \<Longrightarrow> drop k (a @ b) = b"
  by simp

lemma packet_fields:
  "readLE (packetHeader s f c n @ rest) = s"
  "(packetHeader s f c n @ rest) ! 4 = f"
  "readLE (drop 5 (packetHeader s f c n @ rest)) = coordX c"
  "readLE (drop 9 (packetHeader s f c n @ rest)) = coordY c"
  "readLE (drop 13 (packetHeader s f c n @ rest)) = n"
  by (simp_all add: packetHeader_layout nth_append)

subsection \<open>The packets of a payload\<close>

text \<open>A list cut into pieces of \<open>n\<close> elements.\<close>

function groups :: "nat \<Rightarrow> 'a list \<Rightarrow> 'a list list" where
  "groups n xs = (if xs = [] \<or> n = 0 then [] else take n xs # groups n (drop n xs))"
  by pat_completeness auto
termination by (relation "measure (\<lambda>(n, xs). length xs)") auto

declare groups.simps [simp del]

lemma concat_groups: "n \<noteq> 0 \<Longrightarrow> concat (groups n xs) = xs"
  by (induction n xs rule: groups.induct) (subst groups.simps, auto)

lemma groups_sizes: "g \<in> set (groups n xs) \<Longrightarrow> g \<noteq> [] \<and> length g \<le> n"
proof (induction n xs rule: groups.induct)
  case (1 n xs)
  then show ?case by (subst (asm) (2) groups.simps) (auto split: if_splits)
qed

lemma groups_nonempty: "n \<noteq> 0 \<Longrightarrow> xs \<noteq> [] \<Longrightarrow> groups n xs \<noteq> []"
  by (subst groups.simps) simp

lemma appendPackets_eq:
  "appendPackets s f c entries offset out =
     out @ concat (map (encodePacket s f c) (groups 125 (drop offset entries)))"
proof (induction s f c entries offset out rule: appendPackets.induct)
  case (1 s f c entries offset out)
  show ?case
  proof (cases "offset < length entries")
    case True
    have t: "take (min 125 (length entries - offset)) (drop offset entries) =
        take 125 (drop offset entries)"
      by (simp add: min_def)
    from True have "groups 125 (drop offset entries) =
        take 125 (drop offset entries) # groups 125 (drop (offset + 125) entries)"
      by (subst groups.simps) (simp add: add.commute)
    with True "1.IH" [OF True refl] t show ?thesis
      by (subst appendPackets.simps) (simp add: Let_def)
  next
    case False
    then show ?thesis by (subst appendPackets.simps) (simp add: groups.simps)
  qed
qed

lemma appendChunk_eq:
  "appendChunk out s f c entries = out @ concat (map (encodePacket s f c) (groups 125 entries))"
  by (simp add: appendChunk_def appendPackets_eq groups.simps)

text \<open>The packets of an update: their chunk and their entries, in order.\<close>

definition deltaPackets :: "(ChunkCoord \<times> Chunk) list \<Rightarrow> (ChunkCoord \<times> Entry list) list" where
  "deltaPackets cs = concat (map (\<lambda>(c, ch). map (Pair c) (groups 125 (dirtyEntries ch))) cs)"

definition fullPackets :: "(ChunkCoord \<times> Chunk) list \<Rightarrow> (ChunkCoord \<times> Entry list) list" where
  "fullPackets cs = concat (map (\<lambda>(c, ch). map (Pair c) (groups 125 (fullEntries ch))) cs)"

definition encodeAll :: "u32 \<Rightarrow> byte \<Rightarrow> (ChunkCoord \<times> Entry list) list \<Rightarrow> byte list" where
  "encodeAll s f ps = concat (map (\<lambda>(c, es). encodePacket s f c es) ps)"

lemma encodeAll_simps [simp]:
  "encodeAll s f [] = []"
  "encodeAll s f ((c, es) # ps) = encodePacket s f c es @ encodeAll s f ps"
  "encodeAll s f (ps @ qs) = encodeAll s f ps @ encodeAll s f qs"
  by (simp_all add: encodeAll_def)

lemma encodeAll_map_Pair:
  "encodeAll s f (map (Pair c) gs) = concat (map (encodePacket s f c) gs)"
  by (simp add: encodeAll_def comp_def)

lemma groups_Nil [simp]: "groups n [] = []"
  by (simp add: groups.simps)

lemma serializeDelta_eq:
  "serializeDelta s cs =
     (encodeAll s kFlagDelta (deltaPackets cs), map (\<lambda>(c, ch). (c, clearDirty ch)) cs)"
proof -
  have "fold (\<lambda>(c, ch) (out, kept).
         if \<not> isDirty ch then (out, kept @ [(c, ch)])
         else (appendChunk out s kFlagDelta c (dirtyEntries ch), kept @ [(c, clearDirty ch)]))
       cs (out, kept) =
     (out @ encodeAll s kFlagDelta (deltaPackets cs), kept @ map (\<lambda>(c, ch). (c, clearDirty ch)) cs)"
    for out kept
  proof (induction cs arbitrary: out kept)
    case Nil
    then show ?case by (simp add: deltaPackets_def)
  next
    case (Cons e cs)
    obtain c ch where e: "e = (c, ch)" by fastforce
    show ?case
    proof (cases "isDirty ch")
      case True
      with e Cons.IH show ?thesis
        by (simp add: appendChunk_eq deltaPackets_def encodeAll_map_Pair)
    next
      case False
      then have "dirtyEntries ch = []" "clearDirty ch = ch"
        by (simp_all add: isDirty_def dirtyEntries_def clearDirty_def)
      with False e Cons.IH show ?thesis by (simp add: deltaPackets_def)
    qed
  qed
  then show ?thesis by (simp add: serializeDelta_def)
qed

lemma serializeFull_eq: "serializeFull s cs = encodeAll s kFlagFull (fullPackets cs)"
proof -
  have "fold (\<lambda>(c, ch) out.
         let entries = fullEntries ch
         in if entries = [] then out else appendChunk out s kFlagFull c entries) cs out =
     out @ encodeAll s kFlagFull (fullPackets cs)" for out
  proof (induction cs arbitrary: out)
    case Nil
    then show ?case by (simp add: fullPackets_def)
  next
    case (Cons e cs)
    obtain c ch where e: "e = (c, ch)" by fastforce
    with Cons show ?case
      by (cases "fullEntries ch = []")
        (simp_all add: appendChunk_eq fullPackets_def encodeAll_map_Pair Let_def)
  qed
  then show ?thesis by (simp add: serializeFull_def)
qed

text \<open>Every packet of an update is within the payload limit.\<close>

definition smallPackets :: "(ChunkCoord \<times> Entry list) list \<Rightarrow> bool" where
  "smallPackets ps \<longleftrightarrow> (\<forall>(c, es) \<in> set ps. es \<noteq> [] \<and> length es \<le> 125)"

lemma smallPackets_Cons [simp]:
  "smallPackets ((c, es) # ps) \<longleftrightarrow> es \<noteq> [] \<and> length es \<le> 125 \<and> smallPackets ps"
  by (auto simp: smallPackets_def)

lemma smallPackets_delta: "smallPackets (deltaPackets cs)"
  by (auto simp: smallPackets_def deltaPackets_def dest: groups_sizes)

lemma smallPackets_full: "smallPackets (fullPackets cs)"
  by (auto simp: smallPackets_def fullPackets_def dest: groups_sizes)

lemma count_field:
  "length es \<le> 125 \<Longrightarrow> unat (word_of_nat (length es) :: u16) = length es"
  by (simp add: unat_of_nat)

end
