(* ===== verification/Boost_Network.thy ===== *)
theory Boost_Network
  imports World_Serializer
begin

section \<open>BoostNetworkManager: sessions, commands and broadcasts\<close>

text \<open>
  The handlers of the network manager as functions on its state. Boost.Asio runs them one
  at a time on its I/O thread, so each is one step; what Asio reports (error codes, the bytes
  read, the peer of a socket) is an argument. A session object is named by a number,
  \<open>m_sessions\<close> maps players to such names, and the type \<open>'ep\<close> stands for Boost's endpoints.
  \<open>remote_endpoint\<close> throws when the peer is gone: the exception leaves \<open>io_context::run\<close>,
  is caught outside it, and the I/O thread ends (\<open>ioRunning\<close>).
\<close>

record 'ep Session =
  sessPlayerId :: PlayerId
  handshakeDone :: bool
  needsFullSnapshot :: bool
  socketOpen :: bool
  peer :: "'ep option"

datatype IoTask = UdpBroadcast "byte list" u32 | StatsBroadcast "byte list"

record 'ep NetManager =
  nmRunning :: bool
  ioRunning :: bool
  acceptorOpen :: bool
  udpOpen :: bool
  commandCallbackSet :: bool
  addPlayerCallbackSet :: bool
  sessionObjs :: "(nat \<times> 'ep Session) list"
  sessions :: "(PlayerId \<times> nat) list"
  udpEndpoints :: "(PlayerId \<times> 'ep) list"
  nmSeqNum :: u32
  posted :: "IoTask list"

datatype 'ep NetEffect =
  AwaitAccept
| AwaitHandshake nat
| AwaitType nat
| AwaitBody nat byte
| NotifyPlayer PlayerId
| DeliverCommands "PlayerCommand list"
| SendTcp nat "byte list"
| SendUdp 'ep "byte list"

definition newNetManager :: "'ep NetManager" where
  "newNetManager = \<lparr>nmRunning = False, ioRunning = False, acceptorOpen = False, udpOpen = False,
     commandCallbackSet = False, addPlayerCallbackSet = False, sessionObjs = [], sessions = [],
     udpEndpoints = [], nmSeqNum = 0, posted = []\<rparr>"

definition newSession :: "'ep option \<Rightarrow> 'ep Session" where
  "newSession p = \<lparr>sessPlayerId = 0, handshakeDone = False, needsFullSnapshot = True,
     socketOpen = True, peer = p\<rparr>"

definition setCommandCallback :: "'ep NetManager \<Rightarrow> 'ep NetManager" where
  "setCommandCallback n = n\<lparr>commandCallbackSet := True\<rparr>"

definition setAddPlayerCallback :: "'ep NetManager \<Rightarrow> 'ep NetManager" where
  "setAddPlayerCallback n = n\<lparr>addPlayerCallbackSet := True\<rparr>"

definition modifySession :: "nat \<Rightarrow> ('ep Session \<Rightarrow> 'ep Session) \<Rightarrow> 'ep NetManager \<Rightarrow> 'ep NetManager" where
  "modifySession sid f n = n\<lparr>sessionObjs := AList.map_entry sid f (sessionObjs n)\<rparr>"

subsection \<open>Start and stop\<close>

text \<open>\<open>stopNetwork\<close> is \<open>stop\<close> up to its last statement, the join of the I/O thread.\<close>

text \<open>The step of \<open>start\<close> at which the operating system reports an error, if any.\<close>

datatype StartError = OpenAcceptor | SetReuseAddress | BindTcp | Listen | OpenUdp | BindUdp

definition startNetwork :: "StartError option \<Rightarrow> 'ep NetManager \<Rightarrow> 'ep NetManager \<times> 'ep NetEffect list" where
  "startNetwork err n =
     (if nmRunning n then (n, [])
      else
        let n1 = n\<lparr>nmRunning := True, acceptorOpen := False, udpOpen := False\<rparr>
        in case err of
             Some OpenAcceptor \<Rightarrow> (n1\<lparr>nmRunning := False\<rparr>, [])
           | Some SetReuseAddress \<Rightarrow> (n1\<lparr>nmRunning := False\<rparr>, [])
           | Some BindTcp \<Rightarrow> (n1\<lparr>nmRunning := False\<rparr>, [])
           | Some Listen \<Rightarrow> (n1\<lparr>nmRunning := False\<rparr>, [])
           | Some OpenUdp \<Rightarrow> (n1\<lparr>acceptorOpen := False, nmRunning := False\<rparr>, [])
           | Some BindUdp \<Rightarrow> (n1\<lparr>acceptorOpen := False, udpOpen := False, nmRunning := False\<rparr>, [])
           | None \<Rightarrow> (n1\<lparr>acceptorOpen := True, udpOpen := True, ioRunning := True\<rparr>, [AwaitAccept]))"

definition stopNetwork :: "'ep NetManager \<Rightarrow> 'ep NetManager" where
  "stopNetwork n =
     (if \<not> nmRunning n then n
      else
        let n1 = n\<lparr>nmRunning := False, acceptorOpen := False, udpOpen := False\<rparr>;
            n2 = fold (\<lambda>(p, sid). modifySession sid (\<lambda>s. s\<lparr>socketOpen := False\<rparr>)) (sessions n1) n1
        in n2\<lparr>sessions := [], udpEndpoints := []\<rparr>)"

subsection \<open>Accepting and the handshake\<close>

definition onAccept ::
  "bool \<Rightarrow> nat \<Rightarrow> 'ep option \<Rightarrow> 'ep NetManager \<Rightarrow> 'ep NetManager \<times> 'ep NetEffect list" where
  "onAccept ec sid ep n =
     (if \<not> nmRunning n then (n, [])
      else if \<not> ec then
        (case ep of
           None \<Rightarrow> (n\<lparr>ioRunning := False\<rparr>, [])
         | Some _ \<Rightarrow> (n\<lparr>sessionObjs := AList.update sid (newSession ep) (sessionObjs n)\<rparr>,
             [AwaitHandshake sid, AwaitAccept]))
      else (n, [AwaitAccept]))"

definition onHandshake ::
  "bool \<Rightarrow> byte list \<Rightarrow> nat \<Rightarrow> 'ep NetManager \<Rightarrow> 'ep NetManager \<times> 'ep NetEffect list" where
  "onHandshake ec handshakeBuf sid n =
     (if ec then (n, [])
      else if readLE handshakeBuf \<noteq> kMagic
      then (modifySession sid (\<lambda>s. s\<lparr>socketOpen := False\<rparr>) n, [])
      else
        let playerId = readLE (drop 4 handshakeBuf);
            n1 = modifySession sid (\<lambda>s. s\<lparr>sessPlayerId := playerId, handshakeDone := True,
                   needsFullSnapshot := True\<rparr>) n;
            notify = (if addPlayerCallbackSet n1 then [NotifyPlayer playerId] else [])
        in case Option.bind (map_of (sessionObjs n1) sid) peer of
             None \<Rightarrow> (n1\<lparr>ioRunning := False\<rparr>, notify)
           | Some ep \<Rightarrow>
               (n1\<lparr>sessions := AList.update playerId sid (sessions n1),
                   udpEndpoints := AList.update playerId ep (udpEndpoints n1)\<rparr>,
                notify @ [AwaitType sid]))"

definition removeSession :: "PlayerId \<Rightarrow> 'ep NetManager \<Rightarrow> 'ep NetManager" where
  "removeSession p n = n\<lparr>sessions := AList.delete p (sessions n),
     udpEndpoints := AList.delete p (udpEndpoints n)\<rparr>"

subsection \<open>Messages\<close>

definition playerOf :: "'ep NetManager \<Rightarrow> nat \<Rightarrow> PlayerId" where
  "playerOf n sid = (case map_of (sessionObjs n) sid of None \<Rightarrow> 0 | Some s \<Rightarrow> sessPlayerId s)"

definition onMessageType ::
  "bool \<Rightarrow> byte \<Rightarrow> nat \<Rightarrow> 'ep NetManager \<Rightarrow> 'ep NetManager \<times> 'ep NetEffect list" where
  "onMessageType ec msgType sid n =
     (if ec then (removeSession (playerOf n sid) n, [])
      else if msgType = kMsgResyncReq then
        (case map_of (sessions n) (playerOf n sid) of
           None \<Rightarrow> n
         | Some sid' \<Rightarrow> modifySession sid' (\<lambda>s. s\<lparr>needsFullSnapshot := True\<rparr>) n, [AwaitType sid])
      else if msgType = kCmdPlace \<or> msgType = kCmdRemove \<or> msgType = kCmdToggle
      then (n, [AwaitBody sid msgType])
      else (n, [AwaitType sid]))"

definition commandTypeOf :: "byte \<Rightarrow> CommandType" where
  "commandTypeOf msgType =
     (if msgType = kCmdPlace then PlaceCell
      else if msgType = kCmdRemove then RemoveCell else ToggleCell)"

definition onCommandBody ::
  "bool \<Rightarrow> byte \<Rightarrow> byte list \<Rightarrow> nat \<Rightarrow> 'ep NetManager \<Rightarrow> 'ep NetManager \<times> 'ep NetEffect list"
where
  "onCommandBody ec2 msgType cmdBodyBuf sid n =
     (if ec2 then (removeSession (playerOf n sid) n, [])
      else
        let cmdPlayer = readLE cmdBodyBuf;
            x = readLE (drop 8 cmdBodyBuf);
            y = readLE (drop 16 cmdBodyBuf)
        in if cmdPlayer \<noteq> playerOf n sid then (n, [AwaitType sid])
           else (n, (if commandCallbackSet n
                     then [DeliverCommands [\<lparr>cmdPlayerId = playerOf n sid,
                             cmdType = commandTypeOf msgType, cmdX = x, cmdY = y\<rparr>]]
                     else []) @ [AwaitType sid]))"

subsection \<open>Broadcasts\<close>

text \<open>
  \<open>sendPayloadTo\<close> cuts a payload into datagrams by the cell counts in their headers. It
  does not compare a packet's size with what is left of the payload: \<open>None\<close> is the read
  beyond its end, undefined in C++.
\<close>

function sendPayloadTo :: "byte list \<Rightarrow> byte list list option" where
  "sendPayloadTo payload =
     (if kUdpHeader \<le> length payload then
        (let cellCount = unat (readLE (drop kOffCellCount payload) :: u16);
             pktSize = kUdpHeader + cellCount * kUdpCellEntry
         in if pktSize > kMaxUdpPayload then
              (let cappedSize = kUdpHeader + kMaxCellsPerPacket * kUdpCellEntry
               in if cappedSize > length payload then None
                  else map_option (Cons (writeAt kOffCellCount
                           (writeLE (word_of_nat kMaxCellsPerPacket :: u16)) (take cappedSize payload)))
                         (sendPayloadTo (drop pktSize payload)))
            else if pktSize > length payload then None
            else map_option (Cons (take pktSize payload)) (sendPayloadTo (drop pktSize payload)))
      else Some [])"
  by pat_completeness auto
termination
  by (relation "measure length") auto

declare sendPayloadTo.simps [simp del]

definition broadcastWorldUpdate :: "byte list \<Rightarrow> 'ep NetManager \<Rightarrow> 'ep NetManager" where
  "broadcastWorldUpdate update n =
     (if update = [] then n
      else n\<lparr>nmSeqNum := nmSeqNum n + 1, posted := posted n @ [UdpBroadcast update (nmSeqNum n + 1)]\<rparr>)"

definition broadcastServerStats :: "byte list \<Rightarrow> 'ep NetManager \<Rightarrow> 'ep NetManager" where
  "broadcastServerStats payload n =
     (if payload = [] then n else n\<lparr>posted := posted n @ [StatsBroadcast payload]\<rparr>)"

definition statsBroadcast :: "byte list \<Rightarrow> 'ep NetManager \<Rightarrow> 'ep NetEffect list" where
  "statsBroadcast payload n = map (\<lambda>(p, sid). SendTcp sid payload) (sessions n)"

definition sessionInfos :: "'ep NetManager \<Rightarrow> (PlayerId \<times> 'ep \<times> bool) list" where
  "sessionInfos n = concat (map (\<lambda>(p, sid).
     case (map_of (udpEndpoints n) p, map_of (sessionObjs n) sid) of
       (Some ep, Some s) \<Rightarrow> [(p, ep, needsFullSnapshot s)]
     | _ \<Rightarrow> []) (sessions n))"

definition clearNeedsFull :: "PlayerId \<Rightarrow> 'ep NetManager \<Rightarrow> 'ep NetManager" where
  "clearNeedsFull p n = (case map_of (sessions n) p of
     None \<Rightarrow> n
   | Some sid \<Rightarrow> modifySession sid (\<lambda>s. s\<lparr>needsFullSnapshot := False\<rparr>) n)"

fun sendInfos ::
  "(u32 \<Rightarrow> byte list) option \<Rightarrow> u32 \<Rightarrow> byte list \<Rightarrow> (PlayerId \<times> 'ep \<times> bool) list \<Rightarrow>
   byte list \<times> bool \<Rightarrow> 'ep NetManager \<Rightarrow> ('ep NetManager \<times> 'ep NetEffect list) option"
where
  "sendInfos provider seqNum deltaData [] full n = Some (n, [])"
| "sendInfos provider seqNum deltaData ((p, ep, needsFull) # infos) (fullData, fullBuilt) n =
     (if needsFull then
        (let (fullData', fullBuilt') =
               (case provider of
                  Some f \<Rightarrow> if \<not> fullBuilt then (f seqNum, True) else (fullData, fullBuilt)
                | None \<Rightarrow> (fullData, fullBuilt));
             n' = clearNeedsFull p n
         in case (sendPayloadTo fullData', sendInfos provider seqNum deltaData infos (fullData', fullBuilt') n') of
              (Some ds, Some (n'', effs)) \<Rightarrow> Some (n'', map (SendUdp ep) ds @ effs)
            | _ \<Rightarrow> None)
      else
        (case (sendPayloadTo deltaData, sendInfos provider seqNum deltaData infos (fullData, fullBuilt) n) of
           (Some ds, Some (n'', effs)) \<Rightarrow> Some (n'', map (SendUdp ep) ds @ effs)
         | _ \<Rightarrow> None))"

definition doUdpBroadcast ::
  "(u32 \<Rightarrow> byte list) option \<Rightarrow> byte list \<Rightarrow> u32 \<Rightarrow> 'ep NetManager \<Rightarrow>
   ('ep NetManager \<times> 'ep NetEffect list) option" where
  "doUdpBroadcast provider deltaData seqNum n =
     (let infos = sessionInfos n
      in if infos = [] then Some (n, []) else sendInfos provider seqNum deltaData infos ([], False) n)"

text \<open>The I/O thread runs the posted tasks in order.\<close>

definition runPosted ::
  "(u32 \<Rightarrow> byte list) option \<Rightarrow> 'ep NetManager \<Rightarrow> ('ep NetManager \<times> 'ep NetEffect list) option" where
  "runPosted provider n = (case posted n of
     [] \<Rightarrow> Some (n, [])
   | UdpBroadcast deltaData seqNum # ts \<Rightarrow> doUdpBroadcast provider deltaData seqNum (n\<lparr>posted := ts\<rparr>)
   | StatsBroadcast payload # ts \<Rightarrow> Some (n\<lparr>posted := ts\<rparr>, statsBroadcast payload n))"

subsection \<open>Datagrams of a well-formed payload\<close>

lemma packet_count:
  assumes "length es \<le> 125"
  shows "unat (readLE (drop 13 (encodePacket s f c es @ rest)) :: u16) = length es"
  unfolding encodePacket_def append_assoc packet_fields by (rule count_field [OF assms])

lemma sendPayloadTo_step:
  assumes "15 + 11 * k \<le> length d" "unat (readLE (drop 13 d) :: u16) = k" "k \<le> 125"
  shows "sendPayloadTo d = map_option (Cons (take (15 + 11 * k) d)) (sendPayloadTo (drop (15 + 11 * k) d))"
  using assms by (subst sendPayloadTo.simps) (simp add: Let_def mult.commute)

lemma sendPayloadTo_packet:
  assumes "length es \<le> 125"
  shows "sendPayloadTo (encodePacket s f c es @ rest) =
    map_option (Cons (encodePacket s f c es)) (sendPayloadTo rest)"
  using sendPayloadTo_step [OF _ packet_count [OF assms] assms, of s f c rest] by simp

lemma sendPayloadTo_encodeAll:
  "smallPackets ps \<Longrightarrow>
     sendPayloadTo (encodeAll s f ps) = Some (map (\<lambda>(c, es). encodePacket s f c es) ps)"
proof (induction ps)
  case Nil
  then show ?case by (simp add: sendPayloadTo.simps)
next
  case (Cons p ps)
  then show ?case by (cases p) (simp add: sendPayloadTo_packet)
qed

subsection \<open>The system of handlers as a step relation\<close>

text \<open>
  The outstanding asynchronous operations decide which handler may run next. \<open>finish\<close>
  removes the operation that completed, adds the ones its handler started, and logs what
  the handler sent or delivered.
\<close>

record 'ep NetSystem =
  manager :: "'ep NetManager"
  pendingOps :: "'ep NetEffect list"
  netLog :: "'ep NetEffect list"

fun isAwait :: "'ep NetEffect \<Rightarrow> bool" where
  "isAwait AwaitAccept = True"
| "isAwait (AwaitHandshake sid) = True"
| "isAwait (AwaitType sid) = True"
| "isAwait (AwaitBody sid t) = True"
| "isAwait (NotifyPlayer p) = False"
| "isAwait (DeliverCommands cs) = False"
| "isAwait (SendTcp sid bs) = False"
| "isAwait (SendUdp ep bs) = False"

definition finish ::
  "'ep NetEffect \<Rightarrow> 'ep NetManager \<times> 'ep NetEffect list \<Rightarrow> 'ep NetSystem \<Rightarrow> 'ep NetSystem" where
  "finish e r st = \<lparr>manager = fst r, pendingOps = remove1 e (pendingOps st) @ filter isAwait (snd r),
     netLog = netLog st @ filter (\<lambda>e. \<not> isAwait e) (snd r)\<rparr>"

text \<open>
  The work guard is gone once the manager is stopped, so \<open>io_context::run\<close> returns, and the
  join in \<open>stop\<close> with it, when no operation is outstanding and no task is queued.
\<close>

definition ioThreadDone :: "'ep NetSystem \<Rightarrow> bool" where
  "ioThreadDone st \<longleftrightarrow> \<not> ioRunning (manager st) \<or> (pendingOps st = [] \<and> posted (manager st) = [])"

inductive net_step :: "'ep NetSystem \<Rightarrow> 'ep NetSystem \<Rightarrow> bool" where
  accept: "AwaitAccept \<in> set (pendingOps st) \<Longrightarrow> ioRunning (manager st) \<Longrightarrow>
    sid \<notin> fst ` set (sessionObjs (manager st)) \<Longrightarrow>
    net_step st (finish AwaitAccept (onAccept ec sid ep (manager st)) st)"
| handshake: "AwaitHandshake sid \<in> set (pendingOps st) \<Longrightarrow> ioRunning (manager st) \<Longrightarrow>
    ec \<or> length buf = kHandshakeSize \<Longrightarrow>
    net_step st (finish (AwaitHandshake sid) (onHandshake ec buf sid (manager st)) st)"
| msgType: "AwaitType sid \<in> set (pendingOps st) \<Longrightarrow> ioRunning (manager st) \<Longrightarrow>
    net_step st (finish (AwaitType sid) (onMessageType ec t sid (manager st)) st)"
| body: "AwaitBody sid t \<in> set (pendingOps st) \<Longrightarrow> ioRunning (manager st) \<Longrightarrow>
    ec \<or> length buf = kCommandSize - 1 \<Longrightarrow>
    net_step st (finish (AwaitBody sid t) (onCommandBody ec t buf sid (manager st)) st)"
| broadcast: "net_step st (st\<lparr>manager := broadcastWorldUpdate update (manager st)\<rparr>)"
| stats: "net_step st (st\<lparr>manager := broadcastServerStats payload (manager st)\<rparr>)"
| post: "ioRunning (manager st) \<Longrightarrow> runPosted provider (manager st) = Some (n', effs) \<Longrightarrow>
    net_step st (st\<lparr>manager := n', netLog := netLog st @ effs\<rparr>)"
| stop: "net_step st (st\<lparr>manager := stopNetwork (manager st)\<rparr>)"
| join: "\<not> nmRunning (manager st) \<Longrightarrow> ioThreadDone st \<Longrightarrow>
    net_step st (st\<lparr>manager := (manager st)\<lparr>ioRunning := False\<rparr>\<rparr>)"

inductive_cases net_stepE: "net_step st st'"

text \<open>What of a session decides its registration: whether it has shaken hands, and as whom.\<close>

definition identity :: "'ep NetManager \<Rightarrow> nat \<Rightarrow> (bool \<times> PlayerId) option" where
  "identity n sid = map_option (\<lambda>s. (handshakeDone s, sessPlayerId s)) (map_of (sessionObjs n) sid)"

text \<open>
  The session table and the endpoint table have the same players, and every registered
  session has completed its handshake under the identity it is registered for.
\<close>

definition registered :: "'ep NetManager \<Rightarrow> bool" where
  "registered n \<longleftrightarrow> dom (map_of (sessions n)) = dom (map_of (udpEndpoints n)) \<and>
     (\<forall>p sid. map_of (sessions n) p = Some sid \<longrightarrow> identity n sid = Some (True, p))"

fun opSession :: "'ep NetEffect \<Rightarrow> nat option" where
  "opSession (AwaitHandshake sid) = Some sid"
| "opSession (AwaitType sid) = Some sid"
| "opSession (AwaitBody sid t) = Some sid"
| "opSession _ = None"

fun opReady :: "'ep NetManager \<Rightarrow> 'ep NetEffect \<Rightarrow> bool" where
  "opReady n AwaitAccept = True"
| "opReady n (AwaitHandshake sid) = (\<exists>p. identity n sid = Some (False, p))"
| "opReady n (AwaitType sid) = (\<exists>p. identity n sid = Some (True, p))"
| "opReady n (AwaitBody sid t) = (\<exists>p. identity n sid = Some (True, p))"
| "opReady n _ = False"

text \<open>At most one operation is outstanding per session, in the phase the session is in.\<close>

definition net_inv :: "'ep NetSystem \<Rightarrow> bool" where
  "net_inv st \<longleftrightarrow> registered (manager st) \<and> distinct (map opSession (pendingOps st)) \<and>
     (\<forall>e \<in> set (pendingOps st). opReady (manager st) e)"

lemma identity_modifySession:
  assumes "\<And>s. (handshakeDone (f s), sessPlayerId (f s)) = (handshakeDone s, sessPlayerId s)"
  shows "identity (modifySession sid f n) sid' = identity n sid'"
  using assms
  by (simp add: identity_def modifySession_def map_of_map_entry option.map_comp comp_def
      split: option.splits)

lemma map_of_modifySession:
  "map_of (sessionObjs (modifySession sid f n)) sid' =
     (if sid' = sid then map_option f (map_of (sessionObjs n) sid) else map_of (sessionObjs n) sid')"
  by (simp add: modifySession_def map_of_map_entry split: option.splits)

lemma modifySession_frame [simp]:
  "sessions (modifySession sid f n) = sessions n"
  "udpEndpoints (modifySession sid f n) = udpEndpoints n"
  "nmRunning (modifySession sid f n) = nmRunning n"
  "ioRunning (modifySession sid f n) = ioRunning n"
  "posted (modifySession sid f n) = posted n"
  "nmSeqNum (modifySession sid f n) = nmSeqNum n"
  "addPlayerCallbackSet (modifySession sid f n) = addPlayerCallbackSet n"
  by (simp_all add: modifySession_def)

text \<open>Steps that keep every identity and only shrink the tables keep the invariant.\<close>

lemma registered_cong:
  assumes "registered n" "sessions n' = sessions n" "udpEndpoints n' = udpEndpoints n"
    "\<And>sid. identity n' sid = identity n sid"
  shows "registered n'"
  using assms by (simp add: registered_def)

lemma opReady_cong:
  assumes "opReady n e" "\<And>sid. opSession e = Some sid \<Longrightarrow> identity n' sid = identity n sid"
  shows "opReady n' e"
  using assms by (cases e) auto

lemma registered_removeSession: "registered n \<Longrightarrow> registered (removeSession p n)"
  by (auto simp: registered_def removeSession_def delete_conv' identity_def split: if_splits)

lemma identity_removeSession [simp]: "identity (removeSession p n) = identity n"
  by (simp add: removeSession_def identity_def fun_eq_iff)

lemma distinct_finish:
  assumes "distinct (map f xs)" "e \<in> set xs" "distinct (map f ys)"
    "\<And>x y. x \<in> set xs - {e} \<Longrightarrow> y \<in> set ys \<Longrightarrow> f x \<noteq> f y"
  shows "distinct (map f (remove1 e xs @ ys))"
proof -
  have "distinct xs" using assms(1) by (simp add: distinct_map)
  then have "set (remove1 e xs) = set xs - {e}" by simp
  moreover have "inj_on f (set (remove1 e xs))"
    using assms(1) \<open>distinct xs\<close> by (simp add: distinct_map inj_on_diff)
  ultimately show ?thesis
    using assms(3,4) \<open>distinct xs\<close> by (auto simp: distinct_map)
qed



text \<open>
  The common shape of a handler's step: it keeps the tables in order, touches the identity
  of its own session only, and starts at most one operation, ready, on that session.
\<close>

lemma net_inv_finish:
  assumes inv: "net_inv st" and e: "e \<in> set (pendingOps st)" and sid: "opSession e = Some sid"
    and reg: "registered (fst r)"
    and other: "\<And>sid'. sid' \<noteq> sid \<Longrightarrow> identity (fst r) sid' = identity (manager st) sid'"
    and new: "filter isAwait (snd r) = [] \<or>
      (\<exists>a. filter isAwait (snd r) = [a] \<and> opSession a = Some sid \<and> opReady (fst r) a)"
  shows "net_inv (finish e r st)"
proof -
  from inv have d: "distinct (map opSession (pendingOps st))"
    and ready: "\<And>e. e \<in> set (pendingOps st) \<Longrightarrow> opReady (manager st) e"
    by (auto simp: net_inv_def)
  have dp: "distinct (pendingOps st)" using d by (simp add: distinct_map)
  have ne: "opSession e' \<noteq> Some sid" if "e' \<in> set (pendingOps st) - {e}" for e'
    using that d e sid by (auto simp: distinct_map inj_on_def)
  have old: "opReady (fst r) e'" if "e' \<in> set (pendingOps st) - {e}" for e'
    using that ready [of e'] ne [OF that] other by (auto intro: opReady_cong)
  from new have "distinct (map opSession (remove1 e (pendingOps st) @ filter isAwait (snd r)))"
  proof (intro distinct_finish [OF d e])
    fix x y assume "x \<in> set (pendingOps st) - {e}" "y \<in> set (filter isAwait (snd r))"
    with new have "opSession y = Some sid" by (auto simp del: set_filter)
    with ne [OF \<open>x \<in> set (pendingOps st) - {e}\<close>] show "opSession x \<noteq> opSession y" by simp
  qed auto
  moreover have "\<forall>e' \<in> set (remove1 e (pendingOps st) @ filter isAwait (snd r)). opReady (fst r) e'"
  proof
    fix e' assume "e' \<in> set (remove1 e (pendingOps st) @ filter isAwait (snd r))"
    then consider "e' \<in> set (pendingOps st) - {e}" | "e' \<in> set (filter isAwait (snd r))"
      using dp by (auto simp del: set_filter)
    then show "opReady (fst r) e'"
      by cases (use old new in \<open>auto simp del: set_filter\<close>)
  qed
  ultimately show ?thesis using reg by (simp add: net_inv_def finish_def)
qed

lemma net_inv_handshake:
  assumes inv: "net_inv st" and e: "AwaitHandshake sid \<in> set (pendingOps st)"
  shows "net_inv (finish (AwaitHandshake sid) (onHandshake ec buf sid (manager st)) st)"
proof (rule net_inv_finish [OF inv e])
  let ?n = "manager st" and ?p = "readLE (drop 4 buf) :: PlayerId"
  let ?n1 = "modifySession sid (\<lambda>s. s\<lparr>sessPlayerId := ?p, handshakeDone := True,
      needsFullSnapshot := True\<rparr>) ?n"
  from inv e obtain p where id: "identity ?n sid = Some (False, p)"
    by (force simp: net_inv_def)
  from inv have reg: "registered ?n" by (simp add: net_inv_def)
  have unreg: "map_of (sessions ?n) q \<noteq> Some sid" for q
    using reg id by (auto simp: registered_def)
  have id1: "identity ?n1 sid = Some (True, ?p)" "\<And>sid'. sid' \<noteq> sid \<Longrightarrow> identity ?n1 sid' = identity ?n sid'"
    using id by (auto simp: identity_def map_of_modifySession)
  have id_upd: "identity (?n1\<lparr>sessions := ss, udpEndpoints := es\<rparr>) = identity ?n1"
    "identity (?n1\<lparr>ioRunning := b\<rparr>) = identity ?n1" for ss es b
    by (simp_all add: identity_def fun_eq_iff)
  have close: "identity (modifySession sid (\<lambda>s. s\<lparr>socketOpen := False\<rparr>) ?n) sid' = identity ?n sid'" for sid'
    by (rule identity_modifySession) simp
  have reg1: "registered ?n1"
    using reg unreg id1(2) unfolding registered_def by (metis modifySession_frame(1,2))
  show "opSession (AwaitHandshake sid) = Some sid" by simp
  show "registered (fst (onHandshake ec buf sid ?n))"
    using reg reg1 id1 unreg
    by (auto simp: onHandshake_def Let_def registered_def id_upd update_conv' close
        split: option.splits)
  show "identity (fst (onHandshake ec buf sid ?n)) sid' = identity ?n sid'" if "sid' \<noteq> sid" for sid'
    using that id1(2) close by (auto simp: onHandshake_def Let_def id_upd split: option.splits)
  show "filter isAwait (snd (onHandshake ec buf sid ?n)) = [] \<or>
      (\<exists>a. filter isAwait (snd (onHandshake ec buf sid ?n)) = [a] \<and> opSession a = Some sid \<and>
        opReady (fst (onHandshake ec buf sid ?n)) a)"
    using id1(1) by (auto simp: onHandshake_def Let_def id_upd split: option.splits)
qed

lemma net_inv_msgType:
  assumes inv: "net_inv st" and e: "AwaitType sid \<in> set (pendingOps st)"
  shows "net_inv (finish (AwaitType sid) (onMessageType ec t sid (manager st)) st)"
proof (rule net_inv_finish [OF inv e])
  let ?n = "manager st"
  from inv e have ready: "opReady ?n (AwaitType sid)" by (force simp: net_inv_def)
  from inv have reg: "registered ?n" by (simp add: net_inv_def)
  have mark: "identity (modifySession s (\<lambda>s. s\<lparr>needsFullSnapshot := True\<rparr>) ?n) sid' = identity ?n sid'"
    for s sid' by (rule identity_modifySession) simp
  show "opSession (AwaitType sid) = Some sid" by simp
  show "registered (fst (onMessageType ec t sid ?n))"
    using reg by (auto simp: onMessageType_def registered_removeSession mark
        intro: registered_cong [OF reg] split: option.splits)
  show "identity (fst (onMessageType ec t sid ?n)) sid' = identity ?n sid'" for sid'
    by (auto simp: onMessageType_def mark split: option.splits)
  show "filter isAwait (snd (onMessageType ec t sid ?n)) = [] \<or>
      (\<exists>a. filter isAwait (snd (onMessageType ec t sid ?n)) = [a] \<and> opSession a = Some sid \<and>
        opReady (fst (onMessageType ec t sid ?n)) a)"
    using ready by (auto simp: onMessageType_def mark split: option.splits)
qed

lemma net_inv_body:
  assumes inv: "net_inv st" and e: "AwaitBody sid t \<in> set (pendingOps st)"
  shows "net_inv (finish (AwaitBody sid t) (onCommandBody ec t buf sid (manager st)) st)"
proof (rule net_inv_finish [OF inv e])
  let ?n = "manager st"
  from inv e have ready: "opReady ?n (AwaitType sid)" by (force simp: net_inv_def)
  from inv have reg: "registered ?n" by (simp add: net_inv_def)
  show "opSession (AwaitBody sid t) = Some sid" by simp
  show "registered (fst (onCommandBody ec t buf sid ?n))"
    using reg by (simp add: onCommandBody_def Let_def registered_removeSession)
  show "identity (fst (onCommandBody ec t buf sid ?n)) sid' = identity ?n sid'" for sid'
    by (simp add: onCommandBody_def Let_def)
  show "filter isAwait (snd (onCommandBody ec t buf sid ?n)) = [] \<or>
      (\<exists>a. filter isAwait (snd (onCommandBody ec t buf sid ?n)) = [a] \<and> opSession a = Some sid \<and>
        opReady (fst (onCommandBody ec t buf sid ?n)) a)"
    using ready by (simp add: onCommandBody_def Let_def)
qed

lemma net_inv_accept:
  assumes inv: "net_inv st" and e: "AwaitAccept \<in> set (pendingOps st)"
    and fresh: "sid \<notin> fst ` set (sessionObjs (manager st))"
  shows "net_inv (finish AwaitAccept (onAccept ec sid ep (manager st)) st)"
proof -
  let ?n = "manager st" and ?r = "onAccept ec sid ep (manager st)"
  from inv have d: "distinct (map opSession (pendingOps st))" and reg: "registered ?n"
    and ready: "\<And>e. e \<in> set (pendingOps st) \<Longrightarrow> opReady ?n e"
    by (auto simp: net_inv_def)
  have dp: "distinct (pendingOps st)" using d by (simp add: distinct_map)
  have none: "identity ?n sid = None"
    using fresh by (simp add: identity_def map_of_eq_None_iff)
  have id: "identity (fst ?r) sid' = identity ?n sid'" if "sid' \<noteq> sid" for sid'
    using that by (auto simp: onAccept_def identity_def update_conv' split: option.splits)
  have tables: "sessions (fst ?r) = sessions ?n" "udpEndpoints (fst ?r) = udpEndpoints ?n"
    by (auto simp: onAccept_def split: option.splits)
  have "registered (fst ?r)"
    using reg none id tables unfolding registered_def by (metis option.distinct(1))
  moreover have notsid: "opSession e' \<noteq> Some sid" if "e' \<in> set (pendingOps st)" for e'
    using ready [OF that] none by (cases e') auto
  have nota: "opSession e' \<noteq> None" if "e' \<in> set (pendingOps st) - {AwaitAccept}" for e'
    using that ready [of e'] by (cases e') auto
  have "filter isAwait (snd ?r) = [] \<or> filter isAwait (snd ?r) = [AwaitAccept] \<or>
      (filter isAwait (snd ?r) = [AwaitHandshake sid, AwaitAccept] \<and> opReady (fst ?r) (AwaitHandshake sid))"
    by (auto simp: onAccept_def identity_def update_conv' newSession_def split: option.splits)
  note new = this
  then have "set (filter isAwait (snd ?r)) \<subseteq> {AwaitHandshake sid, AwaitAccept}"
    and "distinct (map opSession (filter isAwait (snd ?r)))"
    and newReady: "\<forall>a \<in> set (filter isAwait (snd ?r)). opReady (fst ?r) a"
    by (elim disjE; simp)+
  then have "distinct (map opSession (remove1 AwaitAccept (pendingOps st) @ filter isAwait (snd ?r)))"
    using notsid nota by (intro distinct_finish [OF d e]) (assumption, force)
  moreover have "opReady (fst ?r) e'" if "e' \<in> set (pendingOps st)" for e'
    using ready [OF that] notsid [OF that] id by (auto intro: opReady_cong)
  ultimately show ?thesis using dp newReady by (auto simp: net_inv_def finish_def)
qed

definition sameTables :: "'ep NetManager \<Rightarrow> 'ep NetManager \<Rightarrow> bool" where
  "sameTables n n' \<longleftrightarrow> sessions n' = sessions n \<and> udpEndpoints n' = udpEndpoints n \<and>
     addPlayerCallbackSet n' = addPlayerCallbackSet n \<and> (\<forall>sid. identity n' sid = identity n sid)"

lemma sameTables_mark: "sameTables n (modifySession sid (\<lambda>s. s\<lparr>needsFullSnapshot := b\<rparr>) n)"
  by (simp add: sameTables_def identity_modifySession)

lemma sameTables_trans: "sameTables n n' \<Longrightarrow> sameTables n' n'' \<Longrightarrow> sameTables n n''"
  by (simp add: sameTables_def)

lemma sameTables_clear: "sameTables n (clearNeedsFull p n)"
  by (cases "map_of (sessions n) p")
    (simp_all add: clearNeedsFull_def sameTables_mark, simp add: sameTables_def)

lemma sendInfos_sameTables:
  "sendInfos provider q delta infos full n = Some (n', effs) \<Longrightarrow> sameTables n n'"
proof (induction infos arbitrary: full n n' effs)
  case Nil
  then show ?case by (cases full) (simp add: sameTables_def)
next
  case (Cons info infos)
  obtain p ep needsFull where info: "info = (p, ep, needsFull)" by (cases info)
  obtain fd fb where full: "full = (fd, fb)" by (cases full)
  show ?case
  proof (cases needsFull)
    case True
    let ?n' = "clearNeedsFull p n"
    from Cons.prems True obtain full' effs' where
      "sendInfos provider q delta infos full' ?n' = Some (n', effs')"
      unfolding info full by (auto simp: Let_def split: option.splits prod.splits)
    then have "sameTables ?n' n'" by (rule Cons.IH)
    with sameTables_clear show ?thesis by (rule sameTables_trans)
  next
    case False
    with Cons.prems obtain effs' where "sendInfos provider q delta infos full n = Some (n', effs')"
      unfolding info full by (auto split: option.splits)
    then show ?thesis by (rule Cons.IH)
  qed
qed

lemma registered_sameTables: "registered n \<Longrightarrow> sameTables n n' \<Longrightarrow> registered n'"
  by (rule registered_cong) (simp_all add: sameTables_def)

lemma opReady_sameTables: "opReady n e \<Longrightarrow> sameTables n n' \<Longrightarrow> opReady n' e"
  by (rule opReady_cong) (simp_all add: sameTables_def)

lemma net_inv_sameTables:
  "net_inv st \<Longrightarrow> sameTables (manager st) n \<Longrightarrow> net_inv (st\<lparr>manager := n, netLog := l\<rparr>)"
  by (auto simp: net_inv_def intro: registered_sameTables opReady_sameTables)

lemma runPosted_sameTables:
  assumes "runPosted provider n = Some (n', effs)"
  shows "sameTables n n'"
proof (cases "posted n")
  case Nil
  with assms show ?thesis by (simp add: runPosted_def sameTables_def)
next
  case (Cons t ts)
  have tail: "sameTables n (n\<lparr>posted := ts\<rparr>)" by (simp add: sameTables_def identity_def)
  show ?thesis
  proof (cases t)
    case (UdpBroadcast d q)
    with Cons assms have run: "doUdpBroadcast provider d q (n\<lparr>posted := ts\<rparr>) = Some (n', effs)"
      by (simp add: runPosted_def)
    have "sameTables (n\<lparr>posted := ts\<rparr>) n'"
    proof (cases "sessionInfos (n\<lparr>posted := ts\<rparr>) = []")
      case True
      with run show ?thesis by (simp add: doUdpBroadcast_def sameTables_def)
    next
      case False
      with run show ?thesis by (simp add: doUdpBroadcast_def sendInfos_sameTables)
    qed
    with tail show ?thesis by (rule sameTables_trans)
  next
    case (StatsBroadcast payload)
    with Cons assms tail show ?thesis by (simp add: runPosted_def)
  qed
qed

lemma identity_stopNetwork: "identity (stopNetwork n) sid = identity n sid"
proof -
  have "identity (fold (\<lambda>(p, sid). modifySession sid (\<lambda>s. s\<lparr>socketOpen := False\<rparr>)) xs n) sid
      = identity n sid" for xs and n :: "'a NetManager"
    by (induction xs arbitrary: n) (auto simp: identity_modifySession)
  from this [of "sessions n" "n\<lparr>nmRunning := False, acceptorOpen := False, udpOpen := False\<rparr>"]
  show ?thesis by (simp add: stopNetwork_def Let_def identity_def)
qed

lemma registered_stopNetwork: "registered n \<Longrightarrow> registered (stopNetwork n)"
  by (simp add: registered_def stopNetwork_def Let_def)

lemma net_inv_stop: "net_inv st \<Longrightarrow> net_inv (st\<lparr>manager := stopNetwork (manager st)\<rparr>)"
  by (auto simp: net_inv_def identity_stopNetwork intro: registered_stopNetwork opReady_cong)

lemma net_step_inv:
  assumes "net_step st st'" "net_inv st"
  shows "net_inv st'"
  using assms(1)
proof cases
  case (accept sid ec ep)
  with assms(2) show ?thesis by (simp add: net_inv_accept)
next
  case (handshake sid ec buf)
  with assms(2) show ?thesis by (simp add: net_inv_handshake)
next
  case (msgType sid ec t)
  with assms(2) show ?thesis by (simp add: net_inv_msgType)
next
  case (body sid t ec buf)
  with assms(2) show ?thesis by (simp add: net_inv_body)
next
  case (broadcast update)
  have "sameTables (manager st) (broadcastWorldUpdate update (manager st))"
    by (simp add: broadcastWorldUpdate_def sameTables_def identity_def)
  from net_inv_sameTables [OF assms(2) this, of "netLog st"] broadcast show ?thesis by simp
next
  case (stats payload)
  have "sameTables (manager st) (broadcastServerStats payload (manager st))"
    by (simp add: broadcastServerStats_def sameTables_def identity_def)
  from net_inv_sameTables [OF assms(2) this, of "netLog st"] stats show ?thesis by simp
next
  case (post provider n' effs)
  then show ?thesis using net_inv_sameTables [OF assms(2)] runPosted_sameTables by blast
next
  case stop
  with net_inv_stop [OF assms(2)] show ?thesis by simp
next
  case join
  have "sameTables (manager st) ((manager st)\<lparr>ioRunning := False\<rparr>)"
    by (simp add: sameTables_def identity_def)
  from net_inv_sameTables [OF assms(2) this, of "netLog st"] join show ?thesis by simp
qed

subsection \<open>Reachable states\<close>

definition netStart :: "'ep NetSystem" where
  "netStart = (let r = startNetwork None (setAddPlayerCallback (setCommandCallback newNetManager))
     in \<lparr>manager = fst r, pendingOps = filter isAwait (snd r), netLog = []\<rparr>)"

inductive net_reachable :: "'ep NetSystem \<Rightarrow> bool" where
  start: "net_reachable netStart"
| step: "net_reachable st \<Longrightarrow> net_step st st' \<Longrightarrow> net_reachable st'"

lemma net_reachable_inv: "net_reachable st \<Longrightarrow> net_inv st"
proof (induction rule: net_reachable.induct)
  case start
  show ?case
    by (simp add: netStart_def startNetwork_def newNetManager_def setAddPlayerCallback_def
        setCommandCallback_def net_inv_def registered_def Let_def)
next
  case (step st st')
  then show ?case by (blast intro: net_step_inv)
qed

text \<open>Who has been announced to the server, and whether every command came from such a player.\<close>

fun notified :: "'ep NetEffect list \<Rightarrow> PlayerId set" where
  "notified [] = {}"
| "notified (NotifyPlayer p # l) = insert p (notified l)"
| "notified (_ # l) = notified l"

fun announced :: "PlayerId set \<Rightarrow> 'ep NetEffect list \<Rightarrow> bool" where
  "announced S [] = True"
| "announced S (NotifyPlayer p # l) = announced (insert p S) l"
| "announced S (DeliverCommands cs # l) = (cmdPlayerId ` set cs \<subseteq> S \<and> announced S l)"
| "announced S (_ # l) = announced S l"

lemma notified_append [simp]: "notified (l @ l') = notified l \<union> notified l'"
  by (induction l rule: notified.induct) auto

lemma announced_append [simp]:
  "announced S (l @ l') \<longleftrightarrow> announced S l \<and> announced (S \<union> notified l) l'"
  by (induction S l rule: announced.induct) auto

definition log_inv :: "'ep NetSystem \<Rightarrow> bool" where
  "log_inv st \<longleftrightarrow> addPlayerCallbackSet (manager st) \<and> announced {} (netLog st) \<and>
     (\<forall>sid p. identity (manager st) sid = Some (True, p) \<longrightarrow> p \<in> notified (netLog st))"

lemma sends_silent:
  "sendInfos provider q delta infos full n = Some (n', effs) \<Longrightarrow> notified effs = {} \<and> announced S effs"
proof (induction infos arbitrary: full n n' effs)
  case Nil
  then show ?case by (cases full) simp
next
  case (Cons info infos)
  obtain p ep needsFull where info: "info = (p, ep, needsFull)" by (cases info)
  obtain fd fb where full: "full = (fd, fb)" by (cases full)
  have udp: "notified (map (SendUdp ep) ds) = {} \<and> announced S (map (SendUdp ep) ds)" for ds S
    by (induction ds) auto
  from Cons.prems obtain full' n1 effs' ds where
    "sendInfos provider q delta infos full' n1 = Some (n', effs')" "effs = map (SendUdp ep) ds @ effs'"
    unfolding info full by (auto simp: Let_def split: option.splits prod.splits if_splits)
  with Cons.IH [of full' n1 n' effs'] udp show ?case by simp
qed

lemma runPosted_silent:
  assumes "runPosted provider n = Some (n', effs)"
  shows "notified effs = {} \<and> announced S effs"
proof -
  have tcp: "notified (statsBroadcast payload n) = {} \<and> announced S (statsBroadcast payload n)"
    for payload
  proof -
    have "notified (map (\<lambda>(p, sid). SendTcp sid payload) xs :: 'a NetEffect list) = {} \<and>
        announced S (map (\<lambda>(p, sid). SendTcp sid payload) xs :: 'a NetEffect list)"
      for xs :: "(PlayerId \<times> nat) list"
      by (induction xs) auto
    then show ?thesis unfolding statsBroadcast_def by blast
  qed
  show ?thesis
    using assms tcp
    by (auto simp: runPosted_def doUdpBroadcast_def Let_def sends_silent
        split: list.splits IoTask.splits if_splits)
qed

lemma log_inv_finish:
  assumes "log_inv st" "addPlayerCallbackSet (fst r)"
    and "\<And>sid p. identity (fst r) sid = Some (True, p) \<Longrightarrow>
      identity (manager st) sid = Some (True, p) \<or> p \<in> notified (filter (\<lambda>e. \<not> isAwait e) (snd r))"
    and "announced (notified (netLog st)) (filter (\<lambda>e. \<not> isAwait e) (snd r))"
  shows "log_inv (finish e r st)"
  using assms unfolding log_inv_def finish_def by fastforce

lemma log_inv_sameTables:
  assumes "log_inv st" "sameTables (manager st) n" "\<And>S. notified l = {} \<and> announced S l"
  shows "log_inv (st\<lparr>manager := n, netLog := netLog st @ l\<rparr>)"
  using assms by (auto simp: log_inv_def sameTables_def)

lemma log_inv_handshake:
  assumes "log_inv st"
  shows "log_inv (finish e (onHandshake ec buf sid (manager st)) st)"
proof (rule log_inv_finish [OF assms])
  let ?n = "manager st" and ?p = "readLE (drop 4 buf) :: PlayerId"
  let ?n1 = "modifySession sid (\<lambda>s. s\<lparr>sessPlayerId := ?p, handshakeDone := True,
      needsFullSnapshot := True\<rparr>) ?n"
  have cb: "addPlayerCallbackSet ?n" using assms by (simp add: log_inv_def)
  have close: "identity (modifySession sid (\<lambda>s. s\<lparr>socketOpen := False\<rparr>) ?n) sid' = identity ?n sid'" for sid'
    by (rule identity_modifySession) simp
  have id1: "identity ?n1 sid' = Some (True, p) \<Longrightarrow> identity ?n sid' = Some (True, p) \<or> p = ?p" for sid' p
    by (auto simp: identity_def map_of_modifySession split: if_splits)
  have id_upd: "identity (?n1\<lparr>sessions := ss, udpEndpoints := es\<rparr>) = identity ?n1"
    "identity (?n1\<lparr>ioRunning := b\<rparr>) = identity ?n1" for ss es b
    by (simp_all add: identity_def fun_eq_iff)
  show "addPlayerCallbackSet (fst (onHandshake ec buf sid ?n))"
    using cb by (auto simp: onHandshake_def Let_def split: option.splits)
  show "announced (notified (netLog st)) (filter (\<lambda>e. \<not> isAwait e) (snd (onHandshake ec buf sid ?n)))"
    using cb by (auto simp: onHandshake_def Let_def split: option.splits)
  fix sid' p assume "identity (fst (onHandshake ec buf sid ?n)) sid' = Some (True, p)"
  then show "identity ?n sid' = Some (True, p) \<or>
      p \<in> notified (filter (\<lambda>e. \<not> isAwait e) (snd (onHandshake ec buf sid ?n)))"
    using cb id1 [of sid' p] close [of sid']
    by (auto simp: onHandshake_def Let_def id_upd split: option.splits if_splits)
qed

lemma log_inv_msgType:
  assumes "log_inv st"
  shows "log_inv (finish e (onMessageType ec t sid (manager st)) st)"
proof (rule log_inv_finish [OF assms])
  let ?n = "manager st"
  have mark: "identity (modifySession s (\<lambda>s. s\<lparr>needsFullSnapshot := True\<rparr>) ?n) sid' = identity ?n sid'"
    for s sid' by (rule identity_modifySession) simp
  have cb: "addPlayerCallbackSet ?n" using assms by (simp add: log_inv_def)
  show "addPlayerCallbackSet (fst (onMessageType ec t sid ?n))"
    using cb by (auto simp: onMessageType_def removeSession_def split: option.splits)
  show "announced (notified (netLog st)) (filter (\<lambda>e. \<not> isAwait e) (snd (onMessageType ec t sid ?n)))"
    by (simp add: onMessageType_def)
  fix sid' p assume "identity (fst (onMessageType ec t sid ?n)) sid' = Some (True, p)"
  then show "identity ?n sid' = Some (True, p) \<or>
      p \<in> notified (filter (\<lambda>e. \<not> isAwait e) (snd (onMessageType ec t sid ?n)))"
    by (auto simp: onMessageType_def mark split: option.splits if_splits)
qed

lemma log_inv_body:
  assumes "log_inv st" "opReady (manager st) (AwaitBody sid t)"
  shows "log_inv (finish e (onCommandBody ec t buf sid (manager st)) st)"
proof (rule log_inv_finish [OF assms(1)])
  let ?n = "manager st"
  have cb: "addPlayerCallbackSet ?n" using assms by (simp add: log_inv_def)
  obtain p where "identity ?n sid = Some (True, p)" using assms(2) by auto
  moreover from this have "playerOf ?n sid = p" by (auto simp: identity_def playerOf_def)
  ultimately have p: "playerOf ?n sid \<in> notified (netLog st)"
    using assms(1) unfolding log_inv_def by blast
  show "addPlayerCallbackSet (fst (onCommandBody ec t buf sid ?n))"
    using cb by (simp add: onCommandBody_def removeSession_def Let_def)
  show "announced (notified (netLog st)) (filter (\<lambda>e. \<not> isAwait e) (snd (onCommandBody ec t buf sid ?n)))"
    using p by (simp add: onCommandBody_def Let_def)
  fix sid' p assume "identity (fst (onCommandBody ec t buf sid ?n)) sid' = Some (True, p)"
  then show "identity ?n sid' = Some (True, p) \<or>
      p \<in> notified (filter (\<lambda>e. \<not> isAwait e) (snd (onCommandBody ec t buf sid ?n)))"
    by (auto simp: onCommandBody_def Let_def split: if_splits)
qed

lemma log_inv_accept:
  assumes "log_inv st" "sid \<notin> fst ` set (sessionObjs (manager st))"
  shows "log_inv (finish e (onAccept ec sid ep (manager st)) st)"
proof (rule log_inv_finish [OF assms(1)])
  let ?n = "manager st"
  show "addPlayerCallbackSet (fst (onAccept ec sid ep ?n))"
    using assms(1) by (auto simp: log_inv_def onAccept_def split: option.splits)
  show "announced (notified (netLog st)) (filter (\<lambda>e. \<not> isAwait e) (snd (onAccept ec sid ep ?n)))"
    by (auto simp: onAccept_def split: option.splits)
  fix sid' p assume "identity (fst (onAccept ec sid ep ?n)) sid' = Some (True, p)"
  then show "identity ?n sid' = Some (True, p) \<or>
      p \<in> notified (filter (\<lambda>e. \<not> isAwait e) (snd (onAccept ec sid ep ?n)))"
    by (auto simp: onAccept_def identity_def update_conv' newSession_def split: option.splits if_splits)
qed

lemma stopNetwork_frame:
  "addPlayerCallbackSet (stopNetwork n) = addPlayerCallbackSet n"
  "posted (stopNetwork n) = posted n" "ioRunning (stopNetwork n) = ioRunning n"
proof -
  let ?close = "\<lambda>(p, sid). modifySession sid (\<lambda>s. s\<lparr>socketOpen := False\<rparr>)"
  have "addPlayerCallbackSet (fold ?close xs m) = addPlayerCallbackSet m \<and>
      posted (fold ?close xs m) = posted m \<and> ioRunning (fold ?close xs m) = ioRunning m"
    for xs and m :: "'a NetManager"
    by (induction xs arbitrary: m) (simp, simp only: fold_simps comp_def case_prod_beta modifySession_frame)
  note frame = this [of "sessions n" "n\<lparr>nmRunning := False, acceptorOpen := False, udpOpen := False\<rparr>"]
  show "addPlayerCallbackSet (stopNetwork n) = addPlayerCallbackSet n"
    "posted (stopNetwork n) = posted n" "ioRunning (stopNetwork n) = ioRunning n"
    using frame by (simp_all add: stopNetwork_def Let_def)
qed

lemma log_inv_manager:
  assumes "log_inv st" "addPlayerCallbackSet n = addPlayerCallbackSet (manager st)"
    "\<And>sid. identity n sid = identity (manager st) sid"
  shows "log_inv (st\<lparr>manager := n\<rparr>)"
  using assms by (simp add: log_inv_def)

lemma net_step_log_inv:
  assumes "net_step st st'" "net_inv st" "log_inv st"
  shows "log_inv st'"
  using assms(1)
proof cases
  case (accept sid ec ep)
  with assms(3) show ?thesis by (simp add: log_inv_accept)
next
  case (handshake sid ec buf)
  with assms(3) show ?thesis by (simp add: log_inv_handshake)
next
  case (msgType sid ec t)
  with assms(3) show ?thesis by (simp add: log_inv_msgType)
next
  case (body sid t ec buf)
  with assms(2) have "opReady (manager st) (AwaitBody sid t)" by (auto simp: net_inv_def simp del: opReady.simps)
  with body assms(3) show ?thesis by (simp add: log_inv_body del: opReady.simps)
next
  case (broadcast update)
  with assms(3) show ?thesis
    by (simp, intro log_inv_manager) (simp_all add: broadcastWorldUpdate_def identity_def)
next
  case (stats payload)
  with assms(3) show ?thesis
    by (simp, intro log_inv_manager) (simp_all add: broadcastServerStats_def identity_def)
next
  case (post provider n' effs)
  then show ?thesis
    using log_inv_sameTables [OF assms(3)] runPosted_sameTables runPosted_silent by metis
next
  case stop
  with assms(3) show ?thesis
    by (simp, intro log_inv_manager) (simp_all add: stopNetwork_frame identity_stopNetwork)
next
  case join
  with assms(3) show ?thesis by (simp, intro log_inv_manager) (simp_all add: identity_def)
qed

lemma net_reachable_log_inv: "net_reachable st \<Longrightarrow> log_inv st"
proof (induction rule: net_reachable.induct)
  case start
  show ?case
    by (simp add: netStart_def startNetwork_def newNetManager_def setAddPlayerCallback_def
        setCommandCallback_def log_inv_def identity_def Let_def)
next
  case (step st st')
  then show ?case by (blast intro: net_step_log_inv net_reachable_inv)
qed

subsection \<open>What a broadcast delivers\<close>

definition wantsFull :: "'ep NetManager \<Rightarrow> PlayerId \<Rightarrow> bool option" where
  "wantsFull n p = Option.bind (map_of (sessions n) p)
     (\<lambda>sid. map_option needsFullSnapshot (map_of (sessionObjs n) sid))"

lemma wantsFull_clear:
  "wantsFull (clearNeedsFull p n) q = Some True \<Longrightarrow> wantsFull n q = Some True \<and> q \<noteq> p"
  by (auto simp: clearNeedsFull_def wantsFull_def map_of_modifySession
      split: option.splits if_splits Option.bind_splits)

lemma sendInfos_delivers:
  assumes "sendPayloadTo delta = Some ds" "sendPayloadTo (f q) = Some fs" "fb \<Longrightarrow> fd = f q"
  shows "sendInfos (Some f) q delta infos (fd, fb) n =
     Some (fold (\<lambda>(p, ep, needs) n. if needs then clearNeedsFull p n else n) infos n,
       concat (map (\<lambda>(p, ep, needs). map (SendUdp ep) (if needs then fs else ds)) infos))"
  using assms(3)
proof (induction infos arbitrary: fd fb n)
  case Nil
  then show ?case by simp
next
  case (Cons info infos)
  then show ?case using assms(1,2) by (cases info) (auto simp: Let_def)
qed

lemma fold_clear_wantsFull:
  "wantsFull (fold (\<lambda>(p, ep, needs) n. if needs then clearNeedsFull p n else n) infos n) q = Some True \<Longrightarrow>
     wantsFull n q = Some True \<and> (\<forall>ep. (q, ep, True) \<notin> set infos)"
proof (induction infos arbitrary: n)
  case Nil
  then show ?case by simp
next
  case (Cons info infos)
  obtain p ep needs where info: "info = (p, ep, needs)" by (cases info)
  from Cons.prems have "wantsFull (if needs then clearNeedsFull p n else n) q = Some True"
    and "\<forall>ep. (q, ep, True) \<notin> set infos"
    using Cons.IH by (auto simp: info)
  then show ?case using wantsFull_clear by (cases needs) (auto simp: info)
qed

lemma wantsFull_sessionInfos:
  assumes "registered n" "wantsFull n q = Some True"
  shows "\<exists>ep. (q, ep, True) \<in> set (sessionInfos n)"
proof -
  from assms(2) obtain sid s where sid: "map_of (sessions n) q = Some sid"
    and s: "map_of (sessionObjs n) sid = Some s" "needsFullSnapshot s"
    by (auto simp: wantsFull_def split: Option.bind_splits)
  from assms(1) sid obtain ep where ep: "map_of (udpEndpoints n) q = Some ep"
    unfolding registered_def by blast
  from sid have "(q, sid) \<in> set (sessions n)" by (rule map_of_SomeD)
  with s ep show ?thesis by (force simp: sessionInfos_def)
qed

text \<open>
  C20. One queued world update is sent as the code promises: every registered session gets,
  at the endpoint recorded for it and as whole packets in payload order, the full snapshot if
  it asked for one and the delta otherwise; no session is left asking for a snapshot.
\<close>

theorem doUdpBroadcast_delivers:
  assumes "registered n" "smallPackets ds" "smallPackets fs"
    and "f q = encodeAll q' 1 fs"
  shows "\<exists>n'. doUdpBroadcast (Some f) (encodeAll sq 0 ds) q n =
      Some (n', concat (map (\<lambda>(p, ep, needs). map (SendUdp ep)
        (if needs then map (\<lambda>(c, es). encodePacket q' 1 c es) fs
         else map (\<lambda>(c, es). encodePacket sq 0 c es) ds)) (sessionInfos n))) \<and>
    registered n' \<and> (\<forall>p. wantsFull n' p \<noteq> Some True)"
proof (cases "sessionInfos n = []")
  case True
  with assms(1) show ?thesis
    using wantsFull_sessionInfos [OF assms(1)] by (fastforce simp: doUdpBroadcast_def)
next
  case False
  let ?n' = "fold (\<lambda>(p, ep, needs) n. if needs then clearNeedsFull p n else n) (sessionInfos n) n"
  from False have run: "doUdpBroadcast (Some f) (encodeAll sq 0 ds) q n = Some (?n',
      concat (map (\<lambda>(p, ep, needs). map (SendUdp ep)
        (if needs then map (\<lambda>(c, es). encodePacket q' 1 c es) fs
         else map (\<lambda>(c, es). encodePacket sq 0 c es) ds)) (sessionInfos n)))"
    unfolding doUdpBroadcast_def Let_def
    by (simp, intro sendInfos_delivers) (simp_all add: assms sendPayloadTo_encodeAll)
  then have "sameTables n ?n'"
    using False unfolding doUdpBroadcast_def Let_def by (simp add: sendInfos_sameTables)
  then have "registered ?n'" using assms(1) by (blast intro: registered_sameTables)
  moreover have "wantsFull ?n' p \<noteq> Some True" for p
    using fold_clear_wantsFull wantsFull_sessionInfos [OF assms(1)] by blast
  ultimately show ?thesis using run by blast
qed

text \<open>A run for the witnesses: player 7 connects twice, from endpoints 1 and 2, then sends a command.\<close>

definition helloBytes :: "PlayerId \<Rightarrow> byte list" where
  "helloBytes p = writeLE kMagic @ writeLE p"

lemma helloBytes_simps [simp]:
  "readLE (helloBytes p) = kMagic" "readLE (drop 4 (helloBytes p)) = p" "length (helloBytes p) = 12"
  by (simp_all add: helloBytes_def)

definition sampleSession :: "nat \<Rightarrow> nat Session" where
  "sampleSession ep = \<lparr>sessPlayerId = 7, handshakeDone = True, needsFullSnapshot = True,
     socketOpen = True, peer = Some ep\<rparr>"

definition sampleState ::
  "(nat \<times> nat Session) list \<Rightarrow> (PlayerId \<times> nat) list \<Rightarrow> (PlayerId \<times> nat) list \<Rightarrow>
   nat NetEffect list \<Rightarrow> nat NetEffect list \<Rightarrow> nat NetSystem" where
  "sampleState objs ss eps ops l = \<lparr>manager = \<lparr>nmRunning = True, ioRunning = True,
       acceptorOpen = True, udpOpen = True, commandCallbackSet = True, addPlayerCallbackSet = True,
       sessionObjs = objs, sessions = ss, udpEndpoints = eps, nmSeqNum = 0, posted = []\<rparr>,
     pendingOps = ops, netLog = l\<rparr>"

definition sampleRun :: "nat NetSystem" where
  "sampleRun = sampleState [(0, sampleSession 1), (1, sampleSession 2)] [(7, 1)] [(7, 2)]
     [AwaitType 0, AwaitAccept, AwaitType 1] [NotifyPlayer 7, NotifyPlayer 7]"

lemmas sampleRun_eq = sampleRun_def sampleState_def

lemma sample_accept:
  assumes "sid \<notin> fst ` set objs" "net_reachable (sampleState objs ss eps (AwaitAccept # ops) l)"
  shows "net_reachable (sampleState (objs @ [(sid, newSession (Some ep))]) ss eps
    (ops @ [AwaitHandshake sid, AwaitAccept]) l)"
proof -
  let ?st = "sampleState objs ss eps (AwaitAccept # ops) l"
  have "AList.update k v xs = xs @ [(k, v)]" if "k \<notin> fst ` set xs"
    for k v and xs :: "(nat \<times> nat Session) list"
    using that by (induction xs) auto
  with assms(1) have e: "finish AwaitAccept (onAccept False sid (Some ep) (manager ?st)) ?st =
      sampleState (objs @ [(sid, newSession (Some ep))]) ss eps (ops @ [AwaitHandshake sid, AwaitAccept]) l"
    by (simp add: finish_def sampleState_def onAccept_def)
  have "net_step ?st (finish AwaitAccept (onAccept False sid (Some ep) (manager ?st)) ?st)"
    using assms(1) by (intro net_step.accept) (simp_all add: sampleState_def)
  with assms(2) show ?thesis unfolding e by (rule net_reachable.step)
qed

lemma sample_handshake:
  assumes "AwaitHandshake sid \<in> set ops" "map_of objs sid = Some (newSession (Some ep))"
    "net_reachable (sampleState objs ss eps ops l)"
  shows "net_reachable (sampleState (AList.map_entry sid (\<lambda>_. sampleSession ep) objs)
    (AList.update 7 sid ss) (AList.update 7 ep eps) (remove1 (AwaitHandshake sid) ops @ [AwaitType sid])
    (l @ [NotifyPlayer 7]))"
proof -
  let ?st = "sampleState objs ss eps ops l"
  have m: "AList.map_entry sid (\<lambda>s. s\<lparr>sessPlayerId := 7, handshakeDone := True, needsFullSnapshot := True\<rparr>) objs =
      AList.map_entry sid (\<lambda>_. sampleSession ep) objs"
    using assms(2)
    by (induction objs) (auto simp: newSession_def sampleSession_def split: if_splits)
  have e: "finish (AwaitHandshake sid) (onHandshake False (helloBytes 7) sid (manager ?st)) ?st =
      sampleState (AList.map_entry sid (\<lambda>_. sampleSession ep) objs)
        (AList.update 7 sid ss) (AList.update 7 ep eps) (remove1 (AwaitHandshake sid) ops @ [AwaitType sid])
        (l @ [NotifyPlayer 7])"
    using assms(2) m
    by (simp add: finish_def sampleState_def onHandshake_def modifySession_def map_of_map_entry
        newSession_def Let_def)
  have "net_step ?st (finish (AwaitHandshake sid) (onHandshake False (helloBytes 7) sid (manager ?st)) ?st)"
    using assms(1) by (intro net_step.handshake) (simp_all add: sampleState_def kHandshakeSize_def)
  with assms(3) show ?thesis unfolding e by (rule net_reachable.step)
qed

lemma sampleRun_reachable: "net_reachable sampleRun"
proof -
  have "netStart = sampleState [] [] [] [AwaitAccept] []"
    by (simp add: netStart_def startNetwork_def newNetManager_def setAddPlayerCallback_def
        setCommandCallback_def sampleState_def Let_def)
  then have "net_reachable (sampleState [] [] [] [AwaitAccept] [])"
    by (metis net_reachable.start)
  from sample_accept [OF _ this, of 0 1]
  have "net_reachable (sampleState [(0, newSession (Some 1))] [] [] [AwaitHandshake 0, AwaitAccept] [])"
    by simp
  from sample_handshake [OF _ _ this, of 0 1]
  have "net_reachable (sampleState [(0, sampleSession 1)] [(7, 0)] [(7, 1)] [AwaitAccept, AwaitType 0]
      [NotifyPlayer 7])"
    by simp
  from sample_accept [OF _ this, of 1 2]
  have "net_reachable (sampleState [(0, sampleSession 1), (1, newSession (Some 2))] [(7, 0)] [(7, 1)]
      [AwaitType 0, AwaitHandshake 1, AwaitAccept] [NotifyPlayer 7])"
    by simp
  from sample_handshake [OF _ _ this, of 1 2] show ?thesis
    by (simp add: sampleRun_def)
qed

theorem doUdpBroadcast_delivers_witness:
  "\<exists>n'. doUdpBroadcast (Some (\<lambda>q. encodeAll q 1 [(coord 0 0, [\<lparr>entryX = 1, entryY = 2, entryAlive = 1, entryOwner = 7\<rparr>])]))
      (encodeAll 5 0 []) 9 (manager sampleRun) =
      Some (n', [SendUdp 2 (encodePacket 9 1 (coord 0 0)
        [\<lparr>entryX = 1, entryY = 2, entryAlive = 1, entryOwner = 7\<rparr>])]) \<and>
    registered n' \<and> (\<forall>p. wantsFull n' p \<noteq> Some True)"
proof -
  have infos: "sessionInfos (manager sampleRun) = [(7, 2, True)]"
    by (simp add: sessionInfos_def sampleRun_eq sampleSession_def)
  have reg: "registered (manager sampleRun)"
    using net_reachable_inv [OF sampleRun_reachable] by (simp add: net_inv_def)
  show ?thesis
    using doUdpBroadcast_delivers [OF reg, of "[]"
        "[(coord 0 0, [\<lparr>entryX = 1, entryY = 2, entryAlive = 1, entryOwner = 7\<rparr>])]"
        "\<lambda>q. encodeAll q 1 [(coord 0 0, [\<lparr>entryX = 1, entryY = 2, entryAlive = 1, entryOwner = 7\<rparr>])]"
        9 9 5]
    unfolding infos by (simp add: smallPackets_def)
qed



text \<open>
  C39. The end of a replaced connection cuts off its successor: a player reconnects while the
  old session still reads; when the old connection closes, its handler removes the new
  session and endpoint, because it removes by player and not by session.
\<close>

theorem stale_disconnect_removes_successor:
  assumes "map_of (sessions n) p = Some sid'" "playerOf n sid = p" "sid \<noteq> sid'"
  shows "map_of (sessions (fst (onMessageType True t sid n))) p = None \<and>
    map_of (udpEndpoints (fst (onMessageType True t sid n))) p = None \<and>
    map_of (sessionObjs (fst (onMessageType True t sid n))) sid' = map_of (sessionObjs n) sid'"
  using assms by (simp add: onMessageType_def removeSession_def delete_conv')

theorem stale_disconnect_removes_successor_witness:
  "net_reachable sampleRun \<and> AwaitType 0 \<in> set (pendingOps sampleRun) \<and>
   map_of (sessions (fst (onMessageType True 0 0 (manager sampleRun)))) 7 = None"
  using stale_disconnect_removes_successor [of "manager sampleRun" 7 1 0 0] sampleRun_reachable
  by (simp add: sampleRun_eq playerOf_def sampleSession_def)

text \<open>
  \<open>stop\<close> closes the registered sessions only. A connection that has not shaken hands, or
  that was replaced, keeps its socket open and its read outstanding, so the I/O thread is not
  finished and the join in \<open>stop\<close> waits for that peer.
\<close>

theorem stop_waits_for_unregistered:
  assumes "opSession e = Some sid" "e \<in> set (pendingOps st)" "ioRunning (manager st)"
    "sid \<notin> snd ` set (sessions (manager st))" "net_step st st'"
    "st' = st\<lparr>manager := stopNetwork (manager st)\<rparr>"
  shows "map_of (sessionObjs (manager st')) sid = map_of (sessionObjs (manager st)) sid \<and>
    e \<in> set (pendingOps st') \<and> \<not> ioThreadDone st'"
proof -
  let ?close = "\<lambda>(p, sid). modifySession sid (\<lambda>s. s\<lparr>socketOpen := False\<rparr>)"
  have fold: "sid \<notin> snd ` set xs \<Longrightarrow> map_of (sessionObjs (fold ?close xs m)) sid = map_of (sessionObjs m) sid"
    for xs and m :: "'a NetManager"
    by (induction xs arbitrary: m) (auto simp: map_of_modifySession)
  have "map_of (sessionObjs (stopNetwork (manager st))) sid = map_of (sessionObjs (manager st)) sid"
    using fold [OF assms(4)] by (simp add: stopNetwork_def Let_def)
  moreover have "pendingOps st' \<noteq> []" using assms(2,6) by auto
  ultimately show ?thesis
    using assms(2,3,6) by (simp add: ioThreadDone_def stopNetwork_frame)
qed

theorem stop_waits_for_unregistered_witness:
  "map_of (sessionObjs (stopNetwork (manager sampleRun))) 0 = Some (sampleSession 1) \<and>
   \<not> ioThreadDone (sampleRun\<lparr>manager := stopNetwork (manager sampleRun)\<rparr>)"
  using stop_waits_for_unregistered [of "AwaitType 0" 0 sampleRun, OF _ _ _ _ net_step.stop refl]
  by (simp add: sampleRun_eq)

end
