(* ===== verification/World_Refinement.thy ===== *)
theory World_Refinement
  imports Server_World
begin

section \<open>One generation of the world refines the rule on the infinite grid\<close>

text \<open>
  The world is cut into chunks, each stepped on its own from a copy of its neighbours'
  borders. The lemmas show that the margin of new chunks, the exchange of borders, the
  parallel \<open>calculateNext\<close> tasks and the buffer swaps together apply the rule of the game to
  every cell of the grid \<open>cellAt\<close> at once.
\<close>

subsection \<open>The grid is periodic in the range of the chunk coordinates\<close>

lemma cellAt_sameCoord: "sameCoord X X' \<Longrightarrow> sameCoord Y Y' \<Longrightarrow> cellAt w X Y = cellAt w X' Y'"
  using keyAt_eq_iff [of X Y X' Y'] by (simp add: cellAt_def)

lemma sameCoord_refl [simp]: "sameCoord g g"
  by (simp add: sameCoord_def)

lemma sameCoord_add: "sameCoord g g' \<Longrightarrow> sameCoord (g + d) (g' + d)"
  unfolding sameCoord_def by (rule mod_add_cong) auto

lemma block_div_mod:
  fixes q :: int
  assumes "l < 64"
  shows "(64 * q + int l) div 64 = q" "(64 * q + int l) mod 64 = int l"
  using assms by simp_all

lemma cellAt_block:
  assumes "lx < 64" "ly < 64"
  shows "cellAt w (64 * (sint (coordX k) + ex) + int lx) (64 * (sint (coordY k) + ey) + int ly) =
    readOrDead (tryGetChunk (neighbourCoord k (ex, ey)) w) lx ly"
  unfolding cellAt_def keyAt_def block_div_mod [OF assms(1)] block_div_mod [OF assms(2)]
  by (simp add: neighbourCoord_def)

definition ghostSource :: "World \<Rightarrow> ChunkCoord \<Rightarrow> nat \<Rightarrow> nat \<Rightarrow> CellState" where
  "ghostSource w k sx sy =
     cellAt w (64 * sint (coordX k) + int sx - 1) (64 * sint (coordY k) + int sy - 1)"

text \<open>The position a storage column or row stands for: which chunk, and where in it.\<close>

definition side :: "nat \<Rightarrow> int" where
  "side s = (if s = 0 then -1 else if s = 65 then 1 else 0)"

definition within :: "nat \<Rightarrow> nat" where
  "within s = (if s = 0 then 63 else if s = 65 then 0 else s - 1)"

lemma side_within:
  assumes "s < 66"
  shows "64 * (q + side s) + int (within s) = 64 * q + int s - 1" "within s < 64"
  using assms by (auto simp: side_def within_def)

lemma ghostSource_eq:
  assumes "sx < 66" "sy < 66"
  shows "ghostSource w k sx sy =
    readOrDead (tryGetChunk (neighbourCoord k (side sx, side sy)) w) (within sx) (within sy)"
  using cellAt_block [OF side_within(2) [OF assms(1)] side_within(2) [OF assms(2)],
      of w k "side sx" "side sy"]
  by (simp only: ghostSource_def side_within(1) [OF assms(1)] side_within(1) [OF assms(2)])

lemma neighbourCoord_0 [simp]: "neighbourCoord k (0, 0) = k"
  by (simp add: neighbourCoord_def)

lemma ghostSource_inner:
  assumes "tryGetChunk k w = Some ch" "x < 64" "y < 64"
  shows "ghostSource w k (x + 1) (y + 1) = getCell ch x y"
  using assms by (simp add: ghostSource_eq side_def within_def readOrDead_def)

subsection \<open>The exchange copies the neighbours' borders\<close>

definition onRing :: "nat \<Rightarrow> nat \<Rightarrow> bool" where
  "onRing sx sy \<longleftrightarrow> sx = 0 \<or> sx = 65 \<or> sy = 0 \<or> sy = 65"

lemma ghostWrites_source:
  "\<forall>((sx, sy), v) \<in> set (ghostWrites w k). sx < 66 \<and> sy < 66 \<and> v = ghostSource w k sx sy"
  by (auto simp: ghostWrites_def Let_def ghostSource_eq side_def within_def)

lemma ghostWrites_ring:
  assumes "sx < 66" "sy < 66"
  shows "(sx, sy) \<in> fst ` set (ghostWrites w k) \<longleftrightarrow> onRing sx sy"
proof
  assume "(sx, sy) \<in> fst ` set (ghostWrites w k)"
  then show "onRing sx sy" by (auto simp: ghostWrites_def Let_def onRing_def)
next
  assume "onRing sx sy"
  then consider "sx = 0 \<or> sx = 65" "sy = 0 \<or> sy = 65"
    | x where "sx = x + 1" "x < 64" "sy = 0 \<or> sy = 65"
    | y where "sy = y + 1" "y < 64" "sx = 0 \<or> sx = 65"
  proof -
    have pred: "s = 0 \<or> s = 65 \<or> (\<exists>t. s = t + 1 \<and> t < 64)" if "s < 66" for s :: nat
      using that by (cases s) auto
    from pred [OF assms(1)] pred [OF assms(2)] \<open>onRing sx sy\<close> that show thesis
      unfolding onRing_def by blast
  qed
  then show "(sx, sy) \<in> fst ` set (ghostWrites w k)"
  proof cases
    case 1
    then show ?thesis by (auto simp: ghostWrites_def Let_def image_Un)
  next
    case (2 x)
    then show ?thesis by (force simp: ghostWrites_def Let_def image_Un image_iff)
  next
    case (3 y)
    then show ?thesis by (force simp: ghostWrites_def Let_def image_Un image_iff)
  qed
qed

lemma ghost_fold_get:
  assumes "wf_chunk ch" "sx < 66" "sy < 66"
  shows "getGhostCell (fold (\<lambda>((sx, sy), v) ch. setGhostCell ch sx sy v) (ghostWrites w k) ch) sx sy =
    (if onRing sx sy then ghostSource w k sx sy else getGhostCell ch sx sy)"
  using storage.get_puts [OF assms(1) ghostWrites_source assms(2,3)]
  by (simp add: ghostWrites_ring assms)

lemma ghost_fold_wf:
  assumes "wf_chunk ch"
  shows "wf_chunk (fold (\<lambda>((sx, sy), v) ch. setGhostCell ch sx sy v) (ghostWrites w k) ch)"
  using assms ghostWrites_source [of w k] by (intro storage.valid_puts) auto

lemma ghost_fold_getCell:
  assumes "wf_chunk ch" "x < 64" "y < 64"
  shows "getCell (fold (\<lambda>((sx, sy), v) ch. setGhostCell ch sx sy v) (ghostWrites w k) ch) x y =
    getCell ch x y"
  using ghost_fold_get [of ch "x + 1" "y + 1"] assms by (simp add: getCell_ghost onRing_def)

lemma wf_exchangeChunk [wf_intros]: "wf_world w \<Longrightarrow> wf_world (exchangeChunk k w)"
  by (simp add: exchangeChunk_def wf_modifyChunk ghost_fold_wf)

lemma cellAt_exchangeChunk [frame_simps]:
  assumes "wf_world w"
  shows "cellAt (exchangeChunk k w) X Y = cellAt w X Y"
  using assms
  by (auto simp: cellAt_def exchangeChunk_def tryGetChunk_modifyChunk readOrDead_def
      ghost_fold_getCell wf_worldD split: option.splits)

lemma ghostSource_exchangeChunk:
  "wf_world w \<Longrightarrow> ghostSource (exchangeChunk k w) k' sx sy = ghostSource w k' sx sy"
  by (simp add: ghostSource_def cellAt_exchangeChunk)

definition bordered :: "World \<Rightarrow> ChunkCoord \<Rightarrow> bool" where
  "bordered w k \<longleftrightarrow> (\<forall>ch sx sy. tryGetChunk k w = Some ch \<and> sx < 66 \<and> sy < 66 \<longrightarrow>
     getGhostCell ch sx sy = ghostSource w k sx sy)"

lemma bordered_exchange_same:
  assumes "wf_world w"
  shows "bordered (exchangeChunk k w) k"
proof -
  have "getGhostCell (fold (\<lambda>((sx, sy), v) ch. setGhostCell ch sx sy v) (ghostWrites w k) ch) sx sy
      = ghostSource w k sx sy"
    if ch: "tryGetChunk k w = Some ch" and b: "sx < 66" "sy < 66" for ch sx sy
  proof (cases "onRing sx sy")
    case True
    with assms that show ?thesis by (simp add: ghost_fold_get wf_worldD)
  next
    case False
    with b have "sx = (sx - 1) + 1" "sx - 1 < 64" "sy = (sy - 1) + 1" "sy - 1 < 64"
      by (auto simp: onRing_def)
    then have "getGhostCell ch sx sy = ghostSource w k sx sy"
      using ghostSource_inner [OF ch] by (metis getCell_ghost)
    with False assms that show ?thesis by (simp add: ghost_fold_get wf_worldD)
  qed
  with assms show ?thesis
    by (auto simp: bordered_def ghostSource_exchangeChunk)
      (auto simp: exchangeChunk_def tryGetChunk_modifyChunk)
qed

lemma bordered_exchange_other:
  assumes "wf_world w" "bordered w k'"
  shows "bordered (exchangeChunk k w) k'"
proof (cases "k' = k")
  case True
  with assms bordered_exchange_same show ?thesis by simp
next
  case False
  with assms show ?thesis
    by (simp add: bordered_def ghostSource_exchangeChunk)
      (simp add: exchangeChunk_def tryGetChunk_modifyChunk)
qed

lemma exchange_fold:
  assumes "wf_world w"
  shows "wf_world (fold exchangeChunk ks w)
    \<and> (\<forall>X Y. cellAt (fold exchangeChunk ks w) X Y = cellAt w X Y)
    \<and> map fst (chunks (fold exchangeChunk ks w)) = map fst (chunks w)
    \<and> (\<forall>k. k \<in> set ks \<or> bordered w k \<longrightarrow> bordered (fold exchangeChunk ks w) k)"
  using assms
proof (induction ks arbitrary: w)
  case Nil
  then show ?case by simp
next
  case (Cons k ks)
  note IH = Cons.IH [OF wf_exchangeChunk [OF Cons.prems, of k]]
  have "map fst (chunks (exchangeChunk k w)) = map fst (chunks w)"
    by (simp add: exchangeChunk_def keys_modifyChunk)
  with IH Cons.prems bordered_exchange_same bordered_exchange_other show ?case
    by (auto simp: cellAt_exchangeChunk)
qed

subsection \<open>The margin of new chunks\<close>

lemma margin_fold:
  assumes "wf_world w"
  shows "wf_world (fold (\<lambda>c w. snd (getOrCreateChunkUnlocked c w)) cs w)
    \<and> (\<forall>X Y. cellAt (fold (\<lambda>c w. snd (getOrCreateChunkUnlocked c w)) cs w) X Y = cellAt w X Y)
    \<and> (\<forall>k. tryGetChunk k (fold (\<lambda>c w. snd (getOrCreateChunkUnlocked c w)) cs w) =
        (case tryGetChunk k w of Some ch \<Rightarrow> Some ch
         | None \<Rightarrow> if k \<in> set cs then Some newChunk else None))"
  using assms
proof (induction cs arbitrary: w)
  case Nil
  then show ?case by (simp split: option.splits)
next
  case (Cons c cs)
  from Cons.IH [OF wf_getOrCreate [OF Cons.prems, of c]] show ?case
    by (auto simp: cellAt_getOrCreate tryGetChunk_getOrCreate getOrCreateChunk_fst
        split: option.splits)
qed

lemma hasLiveCells_iff: "hasLiveCells ch \<longleftrightarrow> (\<exists>x < 64. \<exists>y < 64. alive (getCell ch x y))"
  by (simp add: hasLiveCells_def list_ex_iff) force

lemma margin_created:
  assumes "tryGetChunk c w = Some ch" "hasLiveCells ch" "d \<in> set neighbourOffsets" "wf_world w"
  shows "tryGetChunk (neighbourCoord c d) (ensureSimulationMarginUnlocked w) \<noteq> None"
proof -
  from assms(1) have "(c, ch) \<in> set (chunks w)" by (simp add: tryGetChunk_def map_of_SomeD)
  with assms(2,3) have "tryGetChunk (neighbourCoord c d) w = None \<Longrightarrow>
      neighbourCoord c d \<in> set (chunksToCreate w)"
    by (force simp: chunksToCreate_def tryGetChunk_def)
  with margin_fold [OF assms(4), of "chunksToCreate w"] show ?thesis
    by (auto simp: ensureSimulationMarginUnlocked_def split: option.splits)
qed

lemma div_64_shift:
  fixes X d :: int
  assumes "d \<in> {-1, 0, 1}"
  shows "(X + d) div 64 - X div 64 \<in> {-1, 0, 1}"
  using assms by auto

lemma neighbourOffsets_iff:
  "(dx, dy) \<in> set neighbourOffsets \<longleftrightarrow>
     dx \<in> {-1, 0, 1} \<and> dy \<in> {-1, 0, 1} \<and> \<not> (dx = 0 \<and> dy = 0)"
  by (auto simp: neighbourOffsets_def)

lemma keyAt_from_neighbour:
  assumes "(dx, dy) \<in> set neighbourOffsets"
  shows "\<exists>d. (d = (0, 0) \<or> d \<in> set neighbourOffsets) \<and>
    keyAt X Y = neighbourCoord (keyAt (X + dx) (Y + dy)) d"
proof -
  let ?ex = "(X + dx) div 64 - X div 64" and ?ey = "(Y + dy) div 64 - Y div 64"
  have e: "?ex \<in> {-1, 0, 1}" "?ey \<in> {-1, 0, 1}"
    using assms by (auto simp: neighbourOffsets_iff simp del: insert_iff intro!: div_64_shift)
  then have "(- ?ex, - ?ey) = (0, 0) \<or> (- ?ex, - ?ey) \<in> set neighbourOffsets"
    by (auto simp: neighbourOffsets_iff)
  moreover have "keyAt X Y = neighbourCoord (keyAt (X + dx) (Y + dy)) (- ?ex, - ?ey)"
    by (simp add: keyAt_def neighbourCoord_def flip: wi_hom_add)
  ultimately show ?thesis by blast
qed

text \<open>Outside the chunks that exist after the margin, no neighbour of a cell is alive.\<close>

lemma dead_beyond_margin:
  assumes "wf_world w" "tryGetChunk (keyAt X Y) (ensureSimulationMarginUnlocked w) = None"
    "(dx, dy) \<in> set neighbourOffsets"
  shows "\<not> alive (cellAt w (X + dx) (Y + dy))"
proof (cases "tryGetChunk (keyAt (X + dx) (Y + dy)) w")
  case None
  then show ?thesis by (simp add: cellAt_def readOrDead_def)
next
  case (Some ch)
  obtain d where d: "d = (0, 0) \<or> d \<in> set neighbourOffsets"
    "keyAt X Y = neighbourCoord (keyAt (X + dx) (Y + dy)) d"
    using keyAt_from_neighbour [OF assms(3)] by blast
  have "tryGetChunk (keyAt X Y) w = None"
    using margin_fold [OF assms(1), of "chunksToCreate w"] assms(2)
    by (auto simp: ensureSimulationMarginUnlocked_def split: option.splits)
  with d Some have "d \<in> set neighbourOffsets" by (cases d) auto
  then have "\<not> hasLiveCells ch"
    using margin_created [OF Some _ _ assms(1), of d] assms(2) d(2) by auto
  with Some show ?thesis
    by (simp add: cellAt_def readOrDead_def hasLiveCells_iff)
qed

lemma exchangeBorders_facts:
  assumes "wf_world w"
  shows "wf_world (exchangeBorders w)"
    and "cellAt (exchangeBorders w) X Y = cellAt w X Y"
    and "k \<in> set (map fst (chunks (exchangeBorders w))) \<Longrightarrow> bordered (exchangeBorders w) k"
    and "tryGetChunk k (exchangeBorders w) = None \<longleftrightarrow>
      tryGetChunk k (ensureSimulationMarginUnlocked w) = None"
proof -
  let ?w1 = "ensureSimulationMarginUnlocked w"
  have m: "wf_world ?w1" "\<And>X Y. cellAt ?w1 X Y = cellAt w X Y"
    using margin_fold [OF assms] by (auto simp: ensureSimulationMarginUnlocked_def)
  note f = exchange_fold [OF m(1), of "map fst (chunks ?w1)"]
  from f show "wf_world (exchangeBorders w)" by (simp add: exchangeBorders_def Let_def)
  from f m(2) show "cellAt (exchangeBorders w) X Y = cellAt w X Y"
    by (simp add: exchangeBorders_def Let_def)
  from f have keys: "map fst (chunks (exchangeBorders w)) = map fst (chunks ?w1)"
    by (simp add: exchangeBorders_def Let_def)
  with f show "k \<in> set (map fst (chunks (exchangeBorders w))) \<Longrightarrow> bordered (exchangeBorders w) k"
    by (simp add: exchangeBorders_def Let_def)
  from keys show "tryGetChunk k (exchangeBorders w) = None \<longleftrightarrow> tryGetChunk k ?w1 = None"
    by (simp add: tryGetChunk_def map_of_eq_None_iff flip: set_map)
qed

subsection \<open>Tasks on separate chunks\<close>

text \<open>
  The tick enqueues one task per chunk and waits for all of them. A task touches its own
  chunk only, so running them in any order gives the same world.
\<close>

definition runChunkTasks :: "(Chunk \<Rightarrow> Chunk) \<Rightarrow> ChunkCoord list \<Rightarrow> World \<Rightarrow> World" where
  "runChunkTasks f order w = fold (\<lambda>k. modifyChunk k f) order w"

lemma runChunkTasks_chunks:
  assumes "distinct order" "distinct (map fst (chunks w))"
  shows "chunks (runChunkTasks f order w) =
    map (\<lambda>(k, ch). (k, if k \<in> set order then f ch else ch)) (chunks w)"
  using assms
proof (induction order arbitrary: w)
  case Nil
  then show ?case by (simp add: runChunkTasks_def case_prod_beta)
next
  case (Cons k order)
  have e: "AList.map_entry k f m = map (\<lambda>(j, ch). (j, if j = k then f ch else ch)) m"
    if "distinct (map fst m)" for m
    using that
  proof (induction m)
    case Nil
    then show ?case by simp
  next
    case (Cons e m)
    moreover have "map (\<lambda>(j, ch). (j, if j = k then f ch else ch)) m = m" if "k \<notin> fst ` set m"
      using that by (intro map_idI) (auto simp: image_iff)
    ultimately show ?case by (cases e) auto
  qed
  have "chunks (runChunkTasks f (k # order) w) = chunks (runChunkTasks f order (modifyChunk k f w))"
    by (simp add: runChunkTasks_def)
  also have "\<dots> = map (\<lambda>(j, ch). (j, if j \<in> set order then f ch else ch)) (chunks (modifyChunk k f w))"
    using Cons.prems by (intro Cons.IH) (simp_all add: keys_modifyChunk)
  also have "chunks (modifyChunk k f w) = map (\<lambda>(j, ch). (j, if j = k then f ch else ch)) (chunks w)"
    using e [OF Cons.prems(2)] by (simp add: modifyChunk_def)
  finally show ?case using Cons.prems(1) by (auto simp: case_prod_beta)
qed

lemma runChunkTasks_order:
  assumes "wf_world w" "distinct order" "distinct order'" "set order = set order'"
  shows "runChunkTasks f order w = runChunkTasks f order' w"
  using assms by (intro World.equality) (simp_all add: runChunkTasks_chunks wf_world_def)

lemma tryGetChunk_runAll:
  assumes "wf_world w"
  shows "tryGetChunk k (runChunkTasks f (map fst (chunks w)) w) = map_option f (tryGetChunk k w)"
proof -
  have "chunks (runChunkTasks f (map fst (chunks w)) w) = map (\<lambda>(k, ch). (k, f ch)) (chunks w)"
    using assms by (simp add: runChunkTasks_chunks wf_world_def) force
  then show ?thesis by (simp add: tryGetChunk_def map_of_map_snd)
qed

lemma keys_runChunkTasks [simp]:
  "map fst (chunks (runChunkTasks f order w)) = map fst (chunks w)"
proof -
  have "map fst (chunks (fold (\<lambda>k. modifyChunk k f) order w)) = map fst (chunks w)" for w
    by (induction order arbitrary: w) (simp_all add: keys_modifyChunk)
  then show ?thesis by (simp add: runChunkTasks_def)
qed

lemma wf_runAll [wf_intros]:
  assumes "wf_world w" "\<And>ch. wf_chunk ch \<Longrightarrow> wf_chunk (f ch)"
  shows "wf_world (runChunkTasks f (map fst (chunks w)) w)"
proof (rule wf_worldI)
  show "distinct (map fst (chunks (runChunkTasks f (map fst (chunks w)) w)))"
    using assms(1) by (simp add: wf_world_def)
  show "wf_chunk ch" if "tryGetChunk k (runChunkTasks f (map fst (chunks w)) w) = Some ch" for k ch
    using that assms by (auto simp: tryGetChunk_runAll dest: wf_worldD)
qed

subsection \<open>The generation step\<close>

text \<open>The simulation part of \<open>GameServer::onTick\<close>: borders, all steps, then all swaps.\<close>

definition simulateGeneration :: "World \<Rightarrow> World" where
  "simulateGeneration w =
     (let w1 = exchangeBorders w;
          order = map fst (chunks w1);
          w2 = runChunkTasks calculateNext order w1
      in runChunkTasks swapBuffers order w2)"

lemma wf_simulateGeneration [wf_intros]: "wf_world w \<Longrightarrow> wf_world (simulateGeneration w)"
proof -
  assume "wf_world w"
  then have "wf_world (exchangeBorders w)" by (rule exchangeBorders_facts)
  then have "wf_world (runChunkTasks calculateNext (map fst (chunks (exchangeBorders w)))
      (exchangeBorders w))"
    by (rule wf_runAll) (rule wf_calculateNext)
  from wf_runAll [OF this wf_swapBuffers] show ?thesis
    by (simp add: simulateGeneration_def Let_def)
qed

lemma tryGetChunk_simulate:
  assumes "wf_world w"
  shows "tryGetChunk k (simulateGeneration w) =
    map_option (\<lambda>ch. swapBuffers (calculateNext ch)) (tryGetChunk k (exchangeBorders w))"
proof -
  let ?w1 = "exchangeBorders w"
  let ?w2 = "runChunkTasks calculateNext (map fst (chunks ?w1)) ?w1"
  have w1: "wf_world ?w1" using assms by (rule exchangeBorders_facts)
  then have "wf_world ?w2" by (rule wf_runAll) (rule wf_calculateNext)
  from tryGetChunk_runAll [OF this, of k swapBuffers] tryGetChunk_runAll [OF w1]
  show ?thesis by (simp add: simulateGeneration_def Let_def option.map_comp comp_def)
qed

lemma ghostSource_cellAt:
  "ghostSource w (keyAt X Y) (nat (int (nat (X mod 64) + 1) + dx)) (nat (int (nat (Y mod 64) + 1) + dy))
     = cellAt w (X + dx) (Y + dy)"
  if "-1 \<le> dx" "-1 \<le> dy"
proof -
  have p: "sameCoord (64 * sint (word_of_int (g div 64) :: u32)
      + int (nat (int (nat (g mod 64) + 1) + d)) - 1) (g + d)" if "-1 \<le> d" for g d :: int
  proof -
    have "(word_of_int (sint (word_of_int (g div 64) :: u32)) :: u32) = word_of_int (g div 64)"
      by simp
    then have "sint (word_of_int (g div 64) :: u32) mod 2 ^ 32 = (g div 64) mod 2 ^ 32"
      unfolding word_of_int_eq_iff take_bit_eq_mod by simp
    then have "64 * sint (word_of_int (g div 64) :: u32) mod (64 * 2 ^ 32) =
        64 * (g div 64) mod (64 * 2 ^ 32)"
      by (simp only: mult_mod_right [symmetric])
    then have "sameCoord (64 * sint (word_of_int (g div 64) :: u32)) (64 * (g div 64))"
      by (simp add: sameCoord_def)
    from sameCoord_add [OF this, of "g mod 64 + d"] that show ?thesis
      by (simp add: add.assoc)
  qed
  show ?thesis
    unfolding ghostSource_def keyAt_def
    using p [OF that(1), of X] p [OF that(2), of Y] by (intro cellAt_sameCoord) simp_all
qed

theorem simulateGeneration_life:
  assumes "wf_world w"
  shows "cellAt (simulateGeneration w) X Y =
    lifeRule (cellAt w X Y) (map (\<lambda>(dx, dy). cellAt w (X + dx) (Y + dy)) neighbourOffsets)"
proof (cases "tryGetChunk (keyAt X Y) (exchangeBorders w)")
  case None
  then have "tryGetChunk (keyAt X Y) (ensureSimulationMarginUnlocked w) = None"
    using exchangeBorders_facts(4) [OF assms] by blast
  from dead_beyond_margin [OF assms this]
  have "ownersOf (map (\<lambda>(dx, dy). cellAt w (X + dx) (Y + dy)) neighbourOffsets) = []"
    by (auto simp: ownersOf_def filter_empty_conv isOwned_def)
  moreover have "cellAt w X Y = deadCell"
    using None exchangeBorders_facts(2) [OF assms, of X Y] by (simp add: cellAt_def readOrDead_def)
  moreover have "cellAt (simulateGeneration w) X Y = deadCell"
    using None by (simp add: cellAt_def readOrDead_def tryGetChunk_simulate [OF assms])
  ultimately show ?thesis by (simp add: lifeRule_isolated)
next
  case (Some ch)
  let ?x = "nat (X mod 64)" and ?y = "nat (Y mod 64)" and ?w1 = "exchangeBorders w"
  have wf: "wf_chunk ch" using Some exchangeBorders_facts(1) [OF assms] by (rule wf_worldD [rotated])
  have "keyAt X Y \<in> set (map fst (chunks ?w1))"
    using Some by (force simp: tryGetChunk_def dest: map_of_SomeD)
  then have "bordered ?w1 (keyAt X Y)" by (rule exchangeBorders_facts(3) [OF assms])
  then have src: "currentBuffer ch ! index sx sy = ghostSource ?w1 (keyAt X Y) sx sy"
    if "sx < 66" "sy < 66" for sx sy
    using that Some by (simp add: bordered_def getGhostCell_def)
  have at: "currentBuffer ch ! index (nat (int (?x + 1) + dx)) (nat (int (?y + 1) + dy)) =
      cellAt w (X + dx) (Y + dy)" if "-1 \<le> dx" "dx \<le> 1" "-1 \<le> dy" "dy \<le> 1" for dx dy
  proof -
    have "nat (int (?x + 1) + dx) < 66" "nat (int (?y + 1) + dy) < 66"
      using that mod_64_nat [of X] mod_64_nat [of Y] by linarith+
    then show ?thesis
      using src ghostSource_cellAt [OF that(1,3), of ?w1 X Y] exchangeBorders_facts(2) [OF assms]
      by simp
  qed
  have "neighbourCells (currentBuffer ch) (?x + 1) (?y + 1) =
      map (\<lambda>(dx, dy). cellAt w (X + dx) (Y + dy)) neighbourOffsets"
    unfolding neighbourCells_def
    by (intro map_cong refl) (auto simp: neighbourOffsets_def intro: at simp del: of_nat_add)
  moreover have "currentBuffer ch ! index (?x + 1) (?y + 1) = cellAt w X Y"
    using at [of 0 0] by (simp add: nat_add_distrib flip: Suc_eq_plus1)
  moreover have "cellAt (simulateGeneration w) X Y =
      fst (stepCell (currentBuffer ch) (?x, ?y))"
    using Some by (simp add: cellAt_def readOrDead_def tryGetChunk_simulate [OF assms]
        getCell_next [OF wf])
  ultimately show ?thesis by (simp add: stepCell_lifeRule)
qed

end
