(* ===== verification/Server_Queue.thy ===== *)
theory Server_Queue
  imports Interfaces
begin

section \<open>ThreadSafeQueue.hpp\<close>

text \<open>
  The queue between the network thread and the tick. Every method holds the mutex for its
  whole body, so each is one atomic step. \<open>waitAndPop\<close> returns only when its wait
  predicate holds: \<open>Blocked\<close> is the state in which it is still waiting.
\<close>

record 'a ThreadSafeQueue =
  queue :: "'a list"

definition emptyQueue :: "'a ThreadSafeQueue" where
  "emptyQueue = \<lparr>queue = []\<rparr>"

definition push :: "'a \<Rightarrow> 'a ThreadSafeQueue \<Rightarrow> 'a ThreadSafeQueue" where
  "push v q = q\<lparr>queue := queue q @ [v]\<rparr>"

definition tryPop :: "'a ThreadSafeQueue \<Rightarrow> ('a \<times> 'a ThreadSafeQueue) option" where
  \<comment> \<open>\<open>None\<close> is the return value false, with the out parameter untouched\<close>
  "tryPop q = (case queue q of [] \<Rightarrow> None | v # vs \<Rightarrow> Some (v, q\<lparr>queue := vs\<rparr>))"

datatype 'a WaitResult = Blocked | Stopped | Popped 'a "'a ThreadSafeQueue"

definition waitAndPop :: "bool \<Rightarrow> 'a ThreadSafeQueue \<Rightarrow> 'a WaitResult" where
  "waitAndPop shouldStop q =
     (if \<not> (queue q \<noteq> [] \<or> shouldStop) then Blocked
      else case queue q of [] \<Rightarrow> Stopped | v # vs \<Rightarrow> Popped v (q\<lparr>queue := vs\<rparr>))"

definition queueEmpty :: "'a ThreadSafeQueue \<Rightarrow> bool" where
  "queueEmpty q \<longleftrightarrow> queue q = []"

interpretation commands: fifo queue push tryPop
  by unfold_locales (auto simp: push_def tryPop_def)

text \<open>The draining loop of the tick.\<close>

function drainQueue :: "'a ThreadSafeQueue \<Rightarrow> 'a list \<Rightarrow> 'a ThreadSafeQueue \<times> 'a list" where
  "drainQueue q batch = (case tryPop q of
     None \<Rightarrow> (q, batch)
   | Some (v, q') \<Rightarrow> drainQueue q' (batch @ [v]))"
  by pat_completeness auto
termination
  by (relation "measure (\<lambda>(q, batch). length (queue q))")
    (auto simp: tryPop_def split: list.splits)

declare drainQueue.simps [simp del]

lemma drainQueue_all:
  "drainQueue q batch = (emptyQueue, batch @ queue q)"
proof -
  have "\<exists>q'. drainQueue q batch = (q', batch @ queue q) \<and> queue q' = []"
    by (rule commands.drain_rule) (rule drainQueue.simps)
  then show ?thesis by (auto simp: emptyQueue_def)
qed

lemma waitAndPop_cases:
  "waitAndPop stop q = (case tryPop q of
     Some (v, q') \<Rightarrow> Popped v q'
   | None \<Rightarrow> if stop then Stopped else Blocked)"
  by (auto simp: waitAndPop_def tryPop_def split: list.splits)

end
