(* ===== verification/Game_Server.thy ===== *)
theory Game_Server
  imports World_Refinement World_Serializer Server_Queue
begin

section \<open>GameServer: the tick\<close>

text \<open>
  The server's state is the world, the balances, the command queue, the running flag, the
  cached full snapshot and the broadcast counter. The calls it makes on the network manager
  and on the tick scheduler are returned in order. \<open>onTick\<close> is one function: the batch is
  drained, the world steps, the batch is applied, live cells pay, the snapshot is cached,
  and the delta and the statistics are handed to the network.
\<close>

datatype NetworkKind = NoNetwork | BoostNetwork | OtherNetwork

datatype ServerCall =
  SetCommandCallback
| StartNetwork u16 u16
| SetFullSnapshotProvider
| StartScheduler
| StopScheduler
| StopNetwork
| BroadcastWorldUpdate "byte list"
| BroadcastServerStats "byte list"

record GameServer =
  networkManager :: NetworkKind
  world :: World
  resources :: ResourceManager
  commandQueue :: "PlayerCommand ThreadSafeQueue"
  running :: bool
  cachedFullSnapshot :: "byte list"
  broadcastSeq :: u32

definition newGameServer :: "NetworkKind \<Rightarrow> GameServer" where
  "newGameServer nm = \<lparr>networkManager = nm, world = newWorld, resources = newResourceManager,
     commandQueue = emptyQueue, running = False, cachedFullSnapshot = [], broadcastSeq = 0\<rparr>"

subsection \<open>Snapshots\<close>

function rewriteSnapshotLoop :: "u32 \<Rightarrow> nat \<Rightarrow> byte list \<Rightarrow> byte list" where
  "rewriteSnapshotLoop seqNum offset payload =
     (if offset + kUdpHeader \<le> length payload then
        (let cellCount = unat (readLE (drop (offset + kOffCellCount) payload) :: u16);
             packetSize = kUdpHeader + cellCount * kUdpCellEntry
         in if offset + packetSize > length payload then payload
            else rewriteSnapshotLoop seqNum (offset + packetSize)
                   (writeAt (offset + kOffSeqNum) (writeLE seqNum) payload))
      else payload)"
  by pat_completeness auto
termination
  by (relation "measure (\<lambda>(s, offset, payload). length payload - offset)")
    (auto simp: length_writeAt)

declare rewriteSnapshotLoop.simps [simp del]

definition rewriteSnapshotSeqNums :: "u32 \<Rightarrow> byte list \<Rightarrow> byte list" where
  "rewriteSnapshotSeqNums seqNum payload = rewriteSnapshotLoop seqNum 0 payload"

definition refreshFullSnapshotCache :: "GameServer \<Rightarrow> GameServer" where
  "refreshFullSnapshotCache s =
     s\<lparr>cachedFullSnapshot := serializeFull 0 (allChunksWithCoords (world s))\<rparr>"

definition getFullSnapshotForSeq :: "u32 \<Rightarrow> GameServer \<Rightarrow> byte list" where
  "getFullSnapshotForSeq seqNum s = rewriteSnapshotSeqNums seqNum (cachedFullSnapshot s)"

subsection \<open>Statistics\<close>

definition statsEntryBytes :: "PlayerId \<Rightarrow> u64 \<Rightarrow> u64 \<Rightarrow> byte list" where
  "statsEntryBytes p balance liveCells =
     writeAt 16 (writeLE liveCells) (writeAt 8 (writeLE balance)
       (writeAt 0 (writeLE p) (replicate kServerStatsEntry 0)))"

definition serializeServerStats ::
  "u32 \<Rightarrow> ResourceManager \<Rightarrow> (PlayerId \<times> u64) list \<Rightarrow> byte list" where
  "serializeServerStats gen r liveCounts =
     (let sorted = sort (getPlayerIds r);
          playerIds = (if length sorted > 65535 then take 65535 sorted else sorted);
          playerCount = (word_of_nat (length playerIds) :: u16)
      in writeAt 5 (writeLE playerCount) (writeAt 1 (writeLE gen)
           ((replicate kServerStatsHeader 0)[0 := kMsgServerStats]))
         @ concat (map (\<lambda>p. statsEntryBytes p (getBalance r p)
             (case map_of liveCounts p of None \<Rightarrow> 0 | Some n \<Rightarrow> n)) playerIds))"

subsection \<open>Operations\<close>

definition startServer :: "u16 \<Rightarrow> u16 \<Rightarrow> GameServer \<Rightarrow> GameServer \<times> ServerCall list" where
  "startServer tcpPort udpPort s =
     (if running s then (s, [])
      else (refreshFullSnapshotCache (s\<lparr>running := True\<rparr>),
            (if networkManager s \<noteq> NoNetwork
             then [SetCommandCallback, StartNetwork tcpPort udpPort] else [])
            @ (if networkManager s = BoostNetwork then [SetFullSnapshotProvider] else [])
            @ [StartScheduler]))"

definition stopServer :: "GameServer \<Rightarrow> GameServer \<times> ServerCall list" where
  "stopServer s =
     (if \<not> running s then (s, [])
      else (s\<lparr>running := False\<rparr>,
            [StopScheduler] @ (if networkManager s \<noteq> NoNetwork then [StopNetwork] else [])))"

definition onCommandsFromNetwork :: "PlayerCommand list \<Rightarrow> GameServer \<Rightarrow> GameServer" where
  "onCommandsFromNetwork cmds s = s\<lparr>commandQueue := fold push cmds (commandQueue s)\<rparr>"

text \<open>The callback \<open>main\<close> installs for a player's handshake.\<close>

definition onPlayerJoined :: "PlayerId \<Rightarrow> GameServer \<Rightarrow> GameServer" where
  "onPlayerJoined p s = s\<lparr>resources := snd (addPlayer p (resources s))\<rparr>"

definition collectLiveCounts :: "Chunk list \<Rightarrow> (PlayerId \<times> u64) list" where
  "collectLiveCounts cs =
     fold (\<lambda>ch totals. fold (\<lambda>(p, n). add_at p n) (getLiveCountByPlayer ch) totals) cs []"

definition onTick :: "GameServer \<Rightarrow> GameServer \<times> ServerCall list" where
  "onTick s =
     (let seq = broadcastSeq s + 1;
          (q, batch) = drainQueue (commandQueue s) [];
          w1 = simulateGeneration (world s);
          (w2, r1) = (if batch \<noteq> [] then applyCommands batch (w1, resources s)
                      else (w1, resources s));
          totalCounts = collectLiveCounts (allChunks w2);
          r2 = awardFromLiveCounts totalCounts r1;
          s1 = refreshFullSnapshotCache
                 (s\<lparr>broadcastSeq := seq, commandQueue := q, world := w2, resources := r2\<rparr>)
      in if networkManager s = NoNetwork then (s1, [])
         else
           let (update, cleared) = serializeDelta seq (allChunksWithCoords w2);
               statsPayload = serializeServerStats seq r2 totalCounts
           in (s1\<lparr>world := w2\<lparr>chunks := cleared\<rparr>\<rparr>,
               (if update \<noteq> [] then [BroadcastWorldUpdate update] else [])
               @ (if statsPayload \<noteq> [] then [BroadcastServerStats statsPayload] else [])))"

subsection \<open>The cells after a tick\<close>

lemma getCell_clearDirty [simp]: "getCell (clearDirty ch) x y = getCell ch x y"
  by (simp add: getCell_def clearDirty_def)

lemma tryGetChunk_cleared:
  "tryGetChunk k (w\<lparr>chunks := map (\<lambda>(c, ch). (c, clearDirty ch)) (chunks w)\<rparr>) =
     map_option clearDirty (tryGetChunk k w)"
  by (simp add: tryGetChunk_def map_of_map_snd)

lemma cellAt_cleared:
  "cellAt (w\<lparr>chunks := map (\<lambda>(c, ch). (c, clearDirty ch)) (chunks w)\<rparr>) X Y = cellAt w X Y"
  by (simp add: cellAt_def tryGetChunk_cleared readOrDead_def split: option.splits)

lemma wf_cleared:
  assumes "wf_world w"
  shows "wf_world (w\<lparr>chunks := map (\<lambda>(c, ch). (c, clearDirty ch)) (chunks w)\<rparr>)"
proof -
  have "map fst (map (\<lambda>(c, ch). (c, clearDirty ch)) cs) = map fst cs"
    for cs :: "(ChunkCoord \<times> Chunk) list"
    by (induction cs) auto
  with assms show ?thesis
    by (intro wf_worldI)
      (auto simp: wf_world_def tryGetChunk_cleared intro: wf_clearDirty [OF wf_worldD [OF assms]]
        simp del: map_map)
qed

text \<open>The world and balances between the commands and the awards.\<close>

definition afterCommands :: "GameServer \<Rightarrow> World \<times> ResourceManager" where
  "afterCommands s =
     applyCommands (queue (commandQueue s)) (simulateGeneration (world s), resources s)"

lemma applyCommands_Nil [simp]: "applyCommands [] wr = wr"
  by (simp add: applyCommands_def)

lemma applyCommands_Cons [simp]:
  "applyCommands (cmd # cmds) wr = applyCommands cmds (applyCommand cmd wr)"
  by (simp add: applyCommands_def)

lemma onTick_state:
  "fst (onTick s) = s\<lparr>broadcastSeq := broadcastSeq s + 1, commandQueue := emptyQueue,
     world := (if networkManager s = NoNetwork then fst (afterCommands s)
               else (fst (afterCommands s))\<lparr>chunks :=
                 map (\<lambda>(c, ch). (c, clearDirty ch)) (chunks (fst (afterCommands s)))\<rparr>),
     resources := awardFromLiveCounts (collectLiveCounts (allChunks (fst (afterCommands s))))
       (snd (afterCommands s)),
     cachedFullSnapshot := serializeFull 0 (chunks (fst (afterCommands s)))\<rparr>"
  by (simp add: onTick_def drainQueue_all afterCommands_def Let_def case_prod_beta
      serializeDelta_eq allChunksWithCoords_def refreshFullSnapshotCache_def)

lemma onTick_calls:
  "snd (onTick s) =
     (if networkManager s = NoNetwork then []
      else
        let w = fst (afterCommands s); counts = collectLiveCounts (allChunks w);
            seq = broadcastSeq s + 1; update = encodeAll seq kFlagDelta (deltaPackets (chunks w));
            stats = serializeServerStats seq (awardFromLiveCounts counts (snd (afterCommands s))) counts
        in (if update \<noteq> [] then [BroadcastWorldUpdate update] else []) @
           (if stats \<noteq> [] then [BroadcastServerStats stats] else []))"
  by (simp add: onTick_def drainQueue_all afterCommands_def Let_def case_prod_beta
      serializeDelta_eq allChunksWithCoords_def refreshFullSnapshotCache_def)

lemma cellAt_onTick: "cellAt (world (fst (onTick s))) X Y = cellAt (fst (afterCommands s)) X Y"
  by (simp add: onTick_state cellAt_cleared)

definition wf_server :: "GameServer \<Rightarrow> bool" where
  "wf_server s \<longleftrightarrow> wf_world (world s) \<and> wf_resources (resources s)"

lemma wf_afterCommands:
  assumes "wf_server s"
  shows "wf_world (fst (afterCommands s))" "wf_resources (snd (afterCommands s))"
proof -
  have "wf_world (fst (simulateGeneration (world s), resources s)) \<and>
      wf_resources (snd (simulateGeneration (world s), resources s))"
    using assms by (simp add: wf_server_def wf_simulateGeneration)
  from wf_applyCommands [OF this] show "wf_world (fst (afterCommands s))"
    "wf_resources (snd (afterCommands s))"
    by (simp_all add: afterCommands_def)
qed

lemma wf_onTick [wf_intros]: "wf_server s \<Longrightarrow> wf_server (fst (onTick s))"
  using wf_afterCommands [of s]
  by (auto simp: wf_server_def onTick_state wf_cleared wf_awardFromLiveCounts)

lemma wf_newGameServer [wf_intros]: "wf_server (newGameServer nm)"
  by (simp add: wf_server_def newGameServer_def wf_newWorld wf_newResourceManager)

subsection \<open>Live cells pay\<close>

definition liveCellsIn :: "Chunk \<Rightarrow> PlayerId \<Rightarrow> nat" where
  "liveCellsIn ch p =
     card {(x, y). x < 64 \<and> y < 64 \<and> alive (getCell ch x y) \<and> owner (getCell ch x y) = p}"

definition liveCellsOf :: "World \<Rightarrow> PlayerId \<Rightarrow> nat" where
  "liveCellsOf w p = sum_list (map (\<lambda>ch. liveCellsIn ch p) (allChunks w))"

lemma count_list_map: "count_list (map f xs) y = length (filter (\<lambda>x. f x = y) xs)"
  by (induction xs) auto

lemma getLiveCountByPlayer_count:
  "getLiveCountByPlayer ch =
     fold (\<lambda>p. add_at p 1) (map (\<lambda>(x, y). owner (getCell ch x y))
       (filter (\<lambda>(x, y). isOwned (getCell ch x y)) (row_major 64 64))) []"
proof -
  have "fold (\<lambda>(x, y) counts.
           let cell = currentBuffer ch ! index (x + GhostBorder) (y + GhostBorder)
           in if alive cell \<and> owner cell \<noteq> 0 then add_at (owner cell) 1 counts else counts) ps m =
     fold (\<lambda>p. add_at p 1) (map (\<lambda>(x, y). owner (getCell ch x y))
       (filter (\<lambda>(x, y). isOwned (getCell ch x y)) ps)) m" for ps and m :: "(PlayerId \<times> u64) list"
    by (induction ps arbitrary: m) (simp_all add: Let_def getCell_def isOwned_def case_prod_beta)
  then show ?thesis by (simp add: getLiveCountByPlayer_def)
qed

lemma lookup0_getLiveCountByPlayer:
  assumes "p \<noteq> 0"
  shows "lookup0 (getLiveCountByPlayer ch) p = of_nat (liveCellsIn ch p)"
proof -
  let ?ps = "filter (\<lambda>(x, y). isOwned (getCell ch x y) \<and> owner (getCell ch x y) = p) (row_major 64 64)"
  have "length ?ps = card (set ?ps)" by (rule distinct_card [symmetric]) simp
  also have "set ?ps = {(x, y). x < 64 \<and> y < 64 \<and> alive (getCell ch x y) \<and> owner (getCell ch x y) = p}"
    using assms by (auto simp: isOwned_def)
  finally have "length ?ps = liveCellsIn ch p" by (simp add: liveCellsIn_def)
  moreover have "filter (\<lambda>q. owner (getCell ch (fst q) (snd q)) = p)
      (filter (\<lambda>(x, y). isOwned (getCell ch x y)) (row_major 64 64)) = ?ps"
    by (simp add: split_def)
  ultimately show ?thesis
    by (simp add: getLiveCountByPlayer_count lookup0_fold_count count_list_map case_prod_beta)
qed

lemma getLiveCountByPlayer_zero: "lookup0 (getLiveCountByPlayer ch) 0 = 0"
proof -
  have "0 \<notin> set (map (\<lambda>(x, y). owner (getCell ch x y))
      (filter (\<lambda>(x, y). isOwned (getCell ch x y)) (row_major 64 64)))"
    by (auto simp: isOwned_def)
  then show ?thesis
    by (simp add: getLiveCountByPlayer_count lookup0_fold_count count_list_0_iff)
qed

lemma distinct_getLiveCountByPlayer: "distinct (map fst (getLiveCountByPlayer ch))"
  by (simp add: getLiveCountByPlayer_count distinct_fold_count)

lemma lookup0_collect_step:
  "lookup0 (fold (\<lambda>(p, n). add_at p n) (getLiveCountByPlayer ch) m) p =
     lookup0 m p + lookup0 (getLiveCountByPlayer ch) p"
  by (simp add: lookup0_fold_add filter_key_map_of distinct_getLiveCountByPlayer)

lemma lookup0_collectLiveCounts:
  "lookup0 (collectLiveCounts cs) p = sum_list (map (\<lambda>ch. lookup0 (getLiveCountByPlayer ch) p) cs)"
proof -
  have "lookup0 (fold (\<lambda>ch totals. fold (\<lambda>(p, n). add_at p n) (getLiveCountByPlayer ch) totals) cs m) p
      = lookup0 m p + sum_list (map (\<lambda>ch. lookup0 (getLiveCountByPlayer ch) p) cs)" for m
    by (induction cs arbitrary: m) (simp_all add: lookup0_collect_step add.assoc)
  then show ?thesis by (simp add: collectLiveCounts_def)
qed

lemma distinct_collectLiveCounts: "distinct (map fst (collectLiveCounts cs))"
proof -
  have 1: "distinct (map fst m) \<Longrightarrow> distinct (map fst (fold (\<lambda>(p, n). add_at p n) kns m))"
    for kns and m :: "(PlayerId \<times> u64) list"
    by (induction kns arbitrary: m) (auto simp: distinct_add_at)
  have "distinct (map fst m) \<Longrightarrow> distinct (map fst
      (fold (\<lambda>ch totals. fold (\<lambda>(p, n). add_at p n) (getLiveCountByPlayer ch) totals) cs m))" for m
    by (induction cs arbitrary: m) (auto simp: 1)
  then show ?thesis by (simp add: collectLiveCounts_def)
qed

lemma sum_list_of_nat: "sum_list (map (\<lambda>x. of_nat (f x)) xs) = of_nat (sum_list (map f xs))"
  by (induction xs) auto

lemma lookup0_collect_live:
  "p \<noteq> 0 \<Longrightarrow> lookup0 (collectLiveCounts (allChunks w)) p = of_nat (liveCellsOf w p)"
  by (simp add: lookup0_collectLiveCounts lookup0_getLiveCountByPlayer liveCellsOf_def
      sum_list_of_nat)

lemma lookup0_collect_zero: "lookup0 (collectLiveCounts cs) 0 = 0"
  by (induction cs) (simp_all add: lookup0_collectLiveCounts getLiveCountByPlayer_zero)

lemma balance_onTick:
  "p \<noteq> 0 \<Longrightarrow> getBalance (resources (fst (onTick s))) p =
     getBalance (snd (afterCommands s)) p + of_nat (liveCellsOf (fst (afterCommands s)) p)"
  by (simp add: onTick_state getBalance_awardFromLiveCounts distinct_collectLiveCounts
      lookup0_collect_live)

end
