(* ===== verification/Client_Parsers.thy ===== *)
theory Client_Parsers
  imports Wire_Format
begin

section \<open>ClientParsers: UDP world packets and TCP statistics messages\<close>

text \<open>
  The two parsers of the client. A datagram is rejected when it is shorter than its header
  or than the cell table the header announces. The statistics parser works on the stream
  buffer of the connection: it drops bytes until one is the message tag, and consumes a
  message only when all of it has arrived.
\<close>

record UdpCellUpdate =
  localX :: byte
  localY :: byte
  cellAlive :: bool
  cellOwner :: u64

record ParsedUdpWorldPacket =
  pktSeqNum :: u32
  pktFullSnapshot :: bool
  pktChunkX :: u32
  pktChunkY :: u32
  pktCells :: "UdpCellUpdate list"

definition parseCell :: "byte list \<Rightarrow> UdpCellUpdate" where
  "parseCell cursor = \<lparr>localX = cursor ! 0, localY = cursor ! 1,
     cellAlive = (cursor ! 2 \<noteq> 0), cellOwner = readLE (drop 3 cursor)\<rparr>"

fun parseCells :: "nat \<Rightarrow> byte list \<Rightarrow> UdpCellUpdate list" where
  "parseCells 0 cursor = []"
| "parseCells (Suc n) cursor = parseCell cursor # parseCells n (drop kUdpCellEntry cursor)"

definition parseUdpWorldPacket :: "byte list \<Rightarrow> ParsedUdpWorldPacket option" where
  "parseUdpWorldPacket datagram =
     (if length datagram < kUdpHeader then None
      else
        let seqNum = readLE (drop kOffSeqNum datagram);
            flags = datagram ! kOffFlags;
            chunkX = readLE (drop kOffChunkX datagram);
            chunkY = readLE (drop kOffChunkY datagram);
            cellCount = unat (readLE (drop kOffCellCount datagram) :: u16);
            expectedSize = kUdpHeader + cellCount * kUdpCellEntry
        in if expectedSize > length datagram then None
           else Some \<lparr>pktSeqNum = seqNum, pktFullSnapshot = (flags = kFlagFull),
                  pktChunkX = chunkX, pktChunkY = chunkY,
                  pktCells = parseCells cellCount (drop kUdpHeader datagram)\<rparr>)"

record ServerStatsEntry =
  statPlayerId :: u64
  statBalance :: u64
  statLiveCells :: u64

record ParsedServerStatsMessage =
  statsGeneration :: u32
  statsPlayers :: "ServerStatsEntry list"

definition parseStatsEntry :: "byte list \<Rightarrow> ServerStatsEntry" where
  "parseStatsEntry cursor = \<lparr>statPlayerId = readLE cursor, statBalance = readLE (drop 8 cursor),
     statLiveCells = readLE (drop 16 cursor)\<rparr>"

fun parseStatsEntries :: "nat \<Rightarrow> byte list \<Rightarrow> ServerStatsEntry list" where
  "parseStatsEntries 0 cursor = []"
| "parseStatsEntries (Suc n) cursor =
     parseStatsEntry cursor # parseStatsEntries n (drop kServerStatsEntry cursor)"

function tryParseServerStatsMessage ::
  "byte list \<Rightarrow> ParsedServerStatsMessage option \<times> byte list" where
  "tryParseServerStatsMessage streamBuffer =
     (if length streamBuffer < kServerStatsHeader then (None, streamBuffer)
      else if streamBuffer ! 0 \<noteq> kMsgServerStats then
        tryParseServerStatsMessage (drop 1 streamBuffer)
      else
        let generation = readLE (drop 1 streamBuffer);
            playerCount = unat (readLE (drop 5 streamBuffer) :: u16);
            packetSize = kServerStatsHeader + playerCount * kServerStatsEntry
        in if length streamBuffer < packetSize then (None, streamBuffer)
           else (Some \<lparr>statsGeneration = generation,
                    statsPlayers = parseStatsEntries playerCount (drop kServerStatsHeader streamBuffer)\<rparr>,
                 drop packetSize streamBuffer))"
  by pat_completeness auto
termination
  by (relation "measure length") (auto simp: size_consts)

declare tryParseServerStatsMessage.simps [simp del]

subsection \<open>Bounds and resynchronisation\<close>

lemma length_parseCells [simp]: "length (parseCells n p) = n"
  by (induction n arbitrary: p) auto

lemma length_parseStatsEntries [simp]: "length (parseStatsEntries n p) = n"
  by (induction n arbitrary: p) auto

text \<open>Everything a successful parse reads lies inside the datagram.\<close>

lemma parse_within_datagram:
  assumes "parseUdpWorldPacket d = Some p"
  shows "15 + 11 * length (pktCells p) \<le> length d"
  using assms by (auto simp: parseUdpWorldPacket_def Let_def size_consts split: if_splits)

lemma parseUdp_None_iff:
  "parseUdpWorldPacket d = None \<longleftrightarrow>
     length d < 15 \<or> length d < 15 + 11 * unat (readLE (drop 13 d) :: u16)"
  by (auto simp: parseUdpWorldPacket_def Let_def size_consts)

text \<open>The statistics parser only ever removes a prefix, and more than seven bytes remain
  unparsed only when a message has begun and is incomplete.\<close>

lemma tryParse_suffix:
  "\<exists>n. snd (tryParseServerStatsMessage b) = drop n b"
proof (induction b rule: tryParseServerStatsMessage.induct)
  case (1 b)
  consider "length b < 7" | "length b \<ge> 7" "b ! 0 \<noteq> kMsgServerStats"
    | "length b \<ge> 7" "b ! 0 = kMsgServerStats" by fastforce
  then show ?case
  proof cases
    case 1
    then have "snd (tryParseServerStatsMessage b) = drop 0 b"
      by (subst tryParseServerStatsMessage.simps) (simp add: size_consts)
    then show ?thesis ..
  next
    case 2
    with "1.IH" obtain n where "snd (tryParseServerStatsMessage (drop 1 b)) = drop n (drop 1 b)"
      by (auto simp: size_consts)
    with 2 have "snd (tryParseServerStatsMessage b) = drop (n + 1) b"
      by (subst tryParseServerStatsMessage.simps) (simp add: size_consts)
    then show ?thesis ..
  next
    case 3
    let ?n = "7 + unat (readLE (drop 5 b) :: u16) * 24"
    from 3 have "snd (tryParseServerStatsMessage b) = drop (if length b < ?n then 0 else ?n) b"
      by (subst tryParseServerStatsMessage.simps) (simp add: size_consts Let_def)
    then show ?thesis ..
  qed
qed

lemma tryParse_None_rest:
  assumes "fst (tryParseServerStatsMessage b) = None"
  shows "length (snd (tryParseServerStatsMessage b)) < 7 \<or>
    (snd (tryParseServerStatsMessage b) ! 0 = kMsgServerStats \<and>
     length (snd (tryParseServerStatsMessage b)) <
       7 + 24 * unat (readLE (drop 5 (snd (tryParseServerStatsMessage b))) :: u16))"
  using assms
proof (induction b rule: tryParseServerStatsMessage.induct)
  case (1 b)
  note eq = tryParseServerStatsMessage.simps [of b]
  consider "length b < 7" | "length b \<ge> 7" "b ! 0 \<noteq> kMsgServerStats"
    | "length b \<ge> 7" "b ! 0 = kMsgServerStats" by fastforce
  then show ?case
  proof cases
    case 1
    then show ?thesis by (simp add: eq size_consts)
  next
    case 2
    then have "tryParseServerStatsMessage b = tryParseServerStatsMessage (drop 1 b)"
      by (simp add: eq size_consts)
    with "1.IH" "1.prems" 2 show ?thesis by (simp add: size_consts)
  next
    case 3
    with "1.prems" show ?thesis
      by (auto simp: eq size_consts Let_def split: if_splits)
  qed
qed

lemma tryParse_skip_garbage:
  assumes "\<forall>g \<in> set garbage. g \<noteq> kMsgServerStats" "7 \<le> length msg"
  shows "tryParseServerStatsMessage (garbage @ msg) = tryParseServerStatsMessage msg"
  using assms(1)
proof (induction garbage)
  case Nil
  then show ?case by simp
next
  case (Cons g garbage)
  have "tryParseServerStatsMessage ((g # garbage) @ msg) = tryParseServerStatsMessage (garbage @ msg)"
    using Cons.prems assms(2) by (subst tryParseServerStatsMessage.simps) (simp add: size_consts)
  with Cons show ?case by simp
qed

lemma readLE_take:
  "k + LENGTH('a::len) div 8 \<le> n \<Longrightarrow> readLE (drop k (take n d)) = (readLE (drop k d) :: 'a word)"
  by (simp add: readLE_def drop_take min_def)

lemma readLE_take0:
  "LENGTH('a::len) div 8 \<le> n \<Longrightarrow> readLE (take n d) = (readLE d :: 'a word)"
  using readLE_take [of 0 n d] by simp

lemma parseCells_take: "11 * n \<le> k \<Longrightarrow> parseCells n (take k d) = parseCells n d"
proof (induction n arbitrary: k d)
  case 0
  then show ?case by simp
next
  case (Suc n)
  have "parseCell (take k d) = parseCell d"
    using Suc.prems by (simp add: parseCell_def readLE_take)
  with Suc show ?case by (simp add: drop_take size_consts)
qed

text \<open>
  A datagram that the client accepts is long enough for the table of cells its header
  announces, and the parse reads nothing behind the table: cut to that length it parses to
  the same packet. A datagram is rejected only when it is too short for its header or table.
\<close>

theorem parse_reads_only_the_table:
  "(case parseUdpWorldPacket d of
      Some p \<Rightarrow> kUdpHeader + length (pktCells p) * kUdpCellEntry \<le> length d \<and>
        parseUdpWorldPacket (take (kUdpHeader + length (pktCells p) * kUdpCellEntry) d) = Some p
    | None \<Rightarrow> length d < kUdpHeader \<or>
        length d < kUdpHeader + unat (readLE (drop kOffCellCount d) :: u16) * kUdpCellEntry)"
proof (cases "parseUdpWorldPacket d")
  case None
  then show ?thesis by (auto simp: parseUdpWorldPacket_def Let_def split: if_splits)
next
  case (Some p)
  let ?n = "unat (readLE (drop 13 d) :: u16)"
  from Some have len: "15 + 11 * ?n \<le> length d" and p: "pktCells p = parseCells ?n (drop 15 d)"
    by (auto simp: parseUdpWorldPacket_def Let_def size_consts split: if_splits)
  have "parseUdpWorldPacket (take (15 + 11 * ?n) d) = parseUdpWorldPacket d"
    using len
    by (simp add: parseUdpWorldPacket_def Let_def size_consts readLE_take readLE_take0 mult.commute
        parseCells_take drop_take)
  with Some len p show ?thesis by (simp add: size_consts mult.commute)
qed

end
