(* ===== verification/Client_World_Model.thy ===== *)
theory Client_World_Model
  imports Prelude
begin

section \<open>WorldModel: the client's picture of the live cells\<close>

text \<open>
  The hash from global cell position to owner, as an association list in iteration order,
  and the number of the last update. Positions are 64-bit words read as two's complement.
  The signals an operation emits are returned in order.
\<close>

datatype CellKey = CellKey (keyX: u64) (keyY: u64)

record AliveCell =
  cellX :: u64
  cellY :: u64
  cellOwnerId :: u64

record WorldModel =
  aliveCells :: "(CellKey \<times> u64) list"
  generation :: u32

datatype ModelSignal = WorldChanged | StatsChanged u32 nat

definition newWorldModel :: WorldModel where
  "newWorldModel = \<lparr>aliveCells = [], generation = 0\<rparr>"

definition kChunkWidth :: int where "kChunkWidth = 64"
definition kChunkHeight :: int where "kChunkHeight = 64"

definition floorDiv :: "int \<Rightarrow> int \<Rightarrow> int" where
  "floorDiv value divisor =
     (if divisor \<le> 0 then 0
      else if value \<ge> 0 then value sdiv divisor
      else (value - divisor + 1) sdiv divisor)"

definition reset :: "WorldModel \<Rightarrow> WorldModel \<times> ModelSignal list" where
  "reset m = (let m' = m\<lparr>aliveCells := [], generation := 0\<rparr>
     in (m', [WorldChanged, StatsChanged (generation m') (length (aliveCells m'))]))"

definition inChunk :: "u32 \<Rightarrow> u32 \<Rightarrow> CellKey \<Rightarrow> bool" where
  "inChunk chunkX chunkY key \<longleftrightarrow>
     floorDiv (sint (keyX key)) kChunkWidth = sint chunkX \<and>
     floorDiv (sint (keyY key)) kChunkHeight = sint chunkY"

definition putCell ::
  "u64 \<Rightarrow> u64 \<Rightarrow> AliveCell \<Rightarrow> (CellKey \<times> u64) list \<Rightarrow> (CellKey \<times> u64) list" where
  "putCell baseX baseY update cells =
     (let key = CellKey (baseX + cellX update) (baseY + cellY update)
      in if cellOwnerId update = 0 then AList.delete key cells
         else AList.update key (cellOwnerId update) cells)"

definition applyUpdate ::
  "u32 \<Rightarrow> bool \<Rightarrow> u32 \<Rightarrow> u32 \<Rightarrow> AliveCell list \<Rightarrow> WorldModel \<Rightarrow> WorldModel \<times> ModelSignal list"
where
  "applyUpdate seqNum fullSnapshot chunkX chunkY updates m =
     (let kept = (if fullSnapshot
                  then filter (\<lambda>e. \<not> inChunk chunkX chunkY (fst e)) (aliveCells m)
                  else aliveCells m);
          baseX = (scast chunkX :: u64) * word_of_int kChunkWidth;
          baseY = (scast chunkY :: u64) * word_of_int kChunkHeight;
          m' = m\<lparr>aliveCells := fold (putCell baseX baseY) updates kept, generation := seqNum\<rparr>
      in (m', [WorldChanged, StatsChanged (generation m') (length (aliveCells m'))]))"

definition visibleCells :: "int \<Rightarrow> int \<Rightarrow> int \<Rightarrow> int \<Rightarrow> WorldModel \<Rightarrow> AliveCell list" where
  \<comment> \<open>the four bounds are the rectangle's edges after \<open>qFloor\<close> and \<open>qCeil\<close>\<close>
  "visibleCells leftX topY rightX bottomY m =
     concat (map (\<lambda>(key, o').
       let x = sint (keyX key); y = sint (keyY key)
       in if x < leftX \<or> x > rightX \<or> y < topY \<or> y > bottomY then []
          else [\<lparr>cellX = keyX key, cellY = keyY key, cellOwnerId = o'\<rparr>]) (aliveCells m))"

definition statBefore :: "u64 \<times> nat \<Rightarrow> u64 \<times> nat \<Rightarrow> bool" where
  "statBefore lhs rhs \<longleftrightarrow>
     (if snd lhs = snd rhs then fst lhs < fst rhs else snd lhs > snd rhs)"

text \<open>\<open>std::sort\<close> with a strict comparator, as insertion.\<close>

fun insertBy :: "('a \<Rightarrow> 'a \<Rightarrow> bool) \<Rightarrow> 'a \<Rightarrow> 'a list \<Rightarrow> 'a list" where
  "insertBy before x [] = [x]"
| "insertBy before x (y # ys) =
     (if before y x then y # insertBy before x ys else x # y # ys)"

definition sortBy :: "('a \<Rightarrow> 'a \<Rightarrow> bool) \<Rightarrow> 'a list \<Rightarrow> 'a list" where
  "sortBy before xs = foldr (insertBy before) xs []"

definition ownerStats :: "WorldModel \<Rightarrow> (u64 \<times> nat) list" where
  "ownerStats m = sortBy statBefore
     (fold (\<lambda>e counts. add_at (snd e) 1 counts) (aliveCells m) [])"

definition liveCellsOwnedBy :: "u64 \<Rightarrow> WorldModel \<Rightarrow> nat" where
  "liveCellsOwnedBy ownerId m =
     fold (\<lambda>e count. if snd e = ownerId then count + 1 else count) (aliveCells m) 0"

definition ownerAt :: "WorldModel \<Rightarrow> u64 \<Rightarrow> u64 \<Rightarrow> u64" where
  "ownerAt m x y = (case map_of (aliveCells m) (CellKey x y) of None \<Rightarrow> 0 | Some o' \<Rightarrow> o')"

definition liveCellsCount :: "WorldModel \<Rightarrow> nat" where
  "liveCellsCount m = length (aliveCells m)"

subsection \<open>Well-formed models\<close>

definition wf_model :: "WorldModel \<Rightarrow> bool" where
  "wf_model m \<longleftrightarrow> distinct (map fst (aliveCells m)) \<and> 0 \<notin> snd ` set (aliveCells m)"

definition wf_cells :: "(CellKey \<times> u64) list \<Rightarrow> bool" where
  "wf_cells cells \<longleftrightarrow> distinct (map fst cells) \<and> 0 \<notin> snd ` set cells"

lemma wf_model_cells: "wf_model m \<longleftrightarrow> wf_cells (aliveCells m)"
  by (simp add: wf_model_def wf_cells_def)

lemma wf_cells_update: "wf_cells cells \<Longrightarrow> o' \<noteq> 0 \<Longrightarrow> wf_cells (AList.update k o' cells)"
proof -
  have "snd ` set (AList.update k o' cells) \<subseteq> insert o' (snd ` set cells)"
    by (induction cells) auto
  then show "wf_cells cells \<Longrightarrow> o' \<noteq> 0 \<Longrightarrow> wf_cells (AList.update k o' cells)"
    by (auto simp: wf_cells_def distinct_update)
qed

lemma wf_cells_delete: "wf_cells cells \<Longrightarrow> wf_cells (AList.delete k cells)"
  by (auto simp: wf_cells_def AList.delete_eq intro: distinct_map_filter)

lemma wf_cells_filter: "wf_cells cells \<Longrightarrow> wf_cells (filter P cells)"
  by (auto simp: wf_cells_def distinct_map_filter)

lemma wf_cells_putCell: "wf_cells cells \<Longrightarrow> wf_cells (putCell bx by' u cells)"
  by (simp add: putCell_def Let_def wf_cells_update wf_cells_delete)

lemma wf_cells_fold: "wf_cells cells \<Longrightarrow> wf_cells (fold (putCell bx by') us cells)"
  by (induction us arbitrary: cells) (auto simp: wf_cells_putCell)

lemma wf_newWorldModel [wf_intros]: "wf_model newWorldModel"
  by (simp add: wf_model_def newWorldModel_def)

lemma wf_reset [wf_intros]: "wf_model (fst (reset m))"
  by (simp add: wf_model_def reset_def Let_def)

lemma wf_applyUpdate [wf_intros]: "wf_model m \<Longrightarrow> wf_model (fst (applyUpdate s f cx cy us m))"
  by (auto simp: wf_model_cells applyUpdate_def Let_def intro!: wf_cells_fold wf_cells_filter)

subsection \<open>What an update does to the picture\<close>

lemma floorDiv_div: "0 < d \<Longrightarrow> floorDiv v d = v div d"
proof (cases "v \<ge> 0")
  case True
  moreover assume "0 < d"
  ultimately show ?thesis by (simp add: floorDiv_def signed_divide_int_def sgn_if)
next
  case False
  assume d: "0 < d"
  have "(d - 1 - v) div d = - (v div d)"
  proof (rule int_div_pos_eq [where r = "d - 1 - v mod d"])
    have "d * (v div d) + v mod d = v" by simp
    then show "d - 1 - v = d * - (v div d) + (d - 1 - v mod d)" by (simp add: algebra_simps)
  qed (use d pos_mod_bound [of d v] pos_mod_sign [of d v] in linarith)+
  with False d show ?thesis
    by (simp add: floorDiv_def signed_divide_int_def sgn_if algebra_simps)
qed

definition ownerIn :: "(CellKey \<times> u64) list \<Rightarrow> CellKey \<Rightarrow> u64" where
  "ownerIn cells k = (case map_of cells k of None \<Rightarrow> 0 | Some o' \<Rightarrow> o')"

lemma ownerAt_ownerIn: "ownerAt m x y = ownerIn (aliveCells m) (CellKey x y)"
  by (simp add: ownerAt_def ownerIn_def)

lemma ownerIn_putCell:
  "ownerIn (putCell bx by' u cells) k =
     (if k = CellKey (bx + cellX u) (by' + cellY u) then cellOwnerId u else ownerIn cells k)"
  by (auto simp: ownerIn_def putCell_def Let_def update_conv' delete_conv')

lemma ownerIn_filter:
  "ownerIn (filter (\<lambda>e. P (fst e)) cells) k = (if P k then ownerIn cells k else 0)"
  by (induction cells) (auto simp: ownerIn_def)

text \<open>
  After a run of updates that all tell the truth about a picture \<open>F\<close>, every mentioned
  position shows \<open>F\<close> and every other position is as before.
\<close>

lemma ownerIn_fold_putCell:
  assumes "\<forall>u \<in> set us. cellOwnerId u = F (CellKey (bx + cellX u) (by' + cellY u))"
  shows "ownerIn (fold (putCell bx by') us cells) k =
    (if k \<in> (\<lambda>u. CellKey (bx + cellX u) (by' + cellY u)) ` set us then F k else ownerIn cells k)"
  using assms
proof (induction us arbitrary: cells)
  case Nil
  then show ?case by simp
next
  case (Cons u us)
  then show ?case by (auto simp: ownerIn_putCell)
qed

subsection \<open>Statistics\<close>

lemma mset_insertBy: "mset (insertBy b x ys) = add_mset x (mset ys)"
  by (induction b x ys rule: insertBy.induct) auto

lemma mset_sortBy: "mset (sortBy b xs) = mset xs"
  unfolding sortBy_def by (induction xs) (auto simp: mset_insertBy)

lemma set_insertBy: "set (insertBy b x ys) = insert x (set ys)"
  by (metis mset_insertBy set_mset_add_mset_insert set_mset_mset)

lemma sorted_insertBy:
  assumes "\<And>x y z. b x y \<Longrightarrow> b y z \<Longrightarrow> b x z" "\<forall>y \<in> set ys. b x y \<or> b y x"
    "sorted_wrt b ys"
  shows "sorted_wrt b (insertBy b x ys)"
  using assms(2,3)
proof (induction ys)
  case Nil
  then show ?case by simp
next
  case (Cons y ys)
  show ?case
  proof (cases "b y x")
    case True
    with Cons show ?thesis by (simp add: set_insertBy)
  next
    case False
    with Cons.prems have "b x y" by simp
    moreover from this Cons.prems(2) assms(1) have "\<forall>z \<in> set ys. b x z" by fastforce
    ultimately show ?thesis using False Cons.prems(2) by simp
  qed
qed

lemma sorted_sortBy:
  assumes "\<And>x y z. b x y \<Longrightarrow> b y z \<Longrightarrow> b x z"
    "\<And>x y. x \<in> set xs \<Longrightarrow> y \<in> set xs \<Longrightarrow> f x \<noteq> f y \<Longrightarrow> b x y \<or> b y x" "distinct (map f xs)"
  shows "sorted_wrt b (sortBy b xs)"
  using assms(2,3)
proof (induction xs)
  case Nil
  then show ?case by (simp add: sortBy_def)
next
  case (Cons x xs)
  have "set (sortBy b xs) = set xs" by (metis mset_sortBy set_mset_mset)
  then have "\<forall>y \<in> set (sortBy b xs). b x y \<or> b y x"
    using Cons.prems by (metis distinct.simps(2) list.set_intros list.simps(9) rev_image_eqI set_map)
  with sorted_insertBy [where b = b and ys = "sortBy b xs" and x = x, OF assms(1)] Cons show ?case
    by (simp add: sortBy_def)
qed

lemma ownerStats_counts:
  "mset (ownerStats m) = mset (fold (\<lambda>k. add_at k 1) (map snd (aliveCells m)) [])"
  by (simp add: ownerStats_def mset_sortBy fold_map comp_def)

lemma liveCellsOwnedBy_eq: "liveCellsOwnedBy p m = count_list (map snd (aliveCells m)) p"
proof -
  have "fold (\<lambda>e count. if snd e = p then count + 1 else count) es n =
      n + count_list (map snd es) p" for es :: "(CellKey \<times> u64) list" and n
    by (induction es arbitrary: n) auto
  then show ?thesis by (simp add: liveCellsOwnedBy_def)
qed

lemma statBefore_trans: "statBefore x y \<Longrightarrow> statBefore y z \<Longrightarrow> statBefore x z"
  by (auto simp: statBefore_def split: if_splits)

lemma statBefore_total: "fst x \<noteq> fst y \<Longrightarrow> statBefore x y \<or> statBefore y x"
  by (auto simp: statBefore_def)

lemma map_of_ownerStats:
  "(p, n) \<in> set (ownerStats m) \<longleftrightarrow> n = liveCellsOwnedBy p m \<and> 0 < n"
proof -
  let ?ks = "map snd (aliveCells m)"
  let ?t = "fold (\<lambda>k. add_at k (1::nat)) ?ks []"
  have s: "set (ownerStats m) = set ?t" by (metis ownerStats_counts set_mset_mset)
  have d: "distinct (map fst ?t)" by (rule distinct_fold_count) simp
  have "fst ` set ?t = set ?ks" using dom_fold_count [where n = "1::nat" and ks = ?ks and m = "[] :: (u64 \<times> nat) list"] by simp
  moreover have "lookup0 ?t p = count_list ?ks p" using lookup0_fold_count [where k = p and ks = ?ks and m = "[] :: (u64 \<times> nat) list"] by simp
  ultimately have t: "map_of ?t p = (if p \<in> set ?ks then Some (count_list ?ks p) else None)"
    by (cases "map_of ?t p") (force simp: lookup0_def map_of_eq_None_iff dest: map_of_SomeD)+
  have "(p, n) \<in> set (ownerStats m) \<longleftrightarrow> map_of ?t p = Some n"
    using s map_of_eq_Some_iff [OF d, of p n] by blast
  also have "\<dots> \<longleftrightarrow> n = count_list ?ks p \<and> p \<in> set ?ks" unfolding t by auto
  also have "p \<in> set ?ks \<longleftrightarrow> 0 < count_list ?ks p" by (metis count_list_0_iff gr0I not_less0)
  finally show ?thesis by (auto simp: liveCellsOwnedBy_eq)
qed

lemma sorted_ownerStats: "sorted_wrt statBefore (ownerStats m)"
proof -
  let ?t = "fold (\<lambda>k. add_at k (1::nat)) (map snd (aliveCells m)) []"
  have "ownerStats m = sortBy statBefore ?t"
    by (simp add: ownerStats_def fold_map comp_def)
  moreover have "distinct (map fst ?t)" by (rule distinct_fold_count) simp
  ultimately show ?thesis
    using sorted_sortBy [of statBefore ?t fst] statBefore_trans statBefore_total by metis
qed

subsection \<open>Properties of the model\<close>

definition updateKey :: "u32 \<Rightarrow> u32 \<Rightarrow> AliveCell \<Rightarrow> CellKey" where
  "updateKey chunkX chunkY u =
     CellKey ((scast chunkX :: u64) * 64 + cellX u) ((scast chunkY :: u64) * 64 + cellY u)"

text \<open>
  After an update the model shows, at each position, the owner the last entry for it names
  (nobody, if that is 0); at a position no entry names it shows nothing if the update is a
  full snapshot of the position's chunk, and what it showed before otherwise. The generation
  is the update's sequence number, and both signals carry the new state.
\<close>

theorem applyUpdate_shows:
  "(let (m', signals) = applyUpdate seqNum full chunkX chunkY us m
    in ownerAt m' x y =
         (case find (\<lambda>u. updateKey chunkX chunkY u = CellKey x y) (rev us) of
            Some u \<Rightarrow> cellOwnerId u
          | None \<Rightarrow> if full \<and> inChunk chunkX chunkY (CellKey x y) then 0 else ownerAt m x y) \<and>
       generation m' = seqNum \<and> signals = [WorldChanged, StatsChanged seqNum (liveCellsCount m')])"
proof -
  let ?bx = "(scast chunkX :: u64) * 64" and ?by = "(scast chunkY :: u64) * 64"
  have fold: "ownerIn (fold (putCell ?bx ?by) us cells) k =
      (case find (\<lambda>u. updateKey chunkX chunkY u = k) (rev us) of
         Some u \<Rightarrow> cellOwnerId u | None \<Rightarrow> ownerIn cells k)" for cells k
    by (induction us rule: rev_induct) (auto simp: ownerIn_putCell updateKey_def)
  show ?thesis
    using ownerIn_filter [of "\<lambda>k. \<not> inChunk chunkX chunkY k" "aliveCells m" "CellKey x y"]
    by (auto simp: applyUpdate_def Let_def ownerAt_ownerIn fold kChunkWidth_def kChunkHeight_def
        liveCellsCount_def split: option.splits)
qed

text \<open>
  The owner statistics list exactly the players with live cells, each once and with the
  number of cells the model shows for them, most cells first and smaller identifiers first
  among equals.
\<close>

theorem ownerStats_correct:
  "set (ownerStats m) = {(p, n). n = liveCellsOwnedBy p m \<and> 0 < n} \<and>
   sorted_wrt statBefore (ownerStats m) \<and> distinct (map fst (ownerStats m))"
proof -
  have "mset (map fst (ownerStats m)) = mset (map fst (fold (\<lambda>k. add_at k (1::nat)) (map snd (aliveCells m)) []))"
    by (metis ownerStats_counts mset_map)
  then have "distinct (map fst (ownerStats m))"
    using distinct_fold_count [of "[] :: (u64 \<times> nat) list" 1 "map snd (aliveCells m)"]
    by (metis distinct.simps(1) list.simps(8) mset_eq_imp_distinct_iff)
  then show ?thesis using map_of_ownerStats sorted_ownerStats by blast
qed

end
