(* ===== verification/Client_Network.thy ===== *)
theory Client_Network
  imports Client_Parsers Client_World_Model
begin

section \<open>GameNetworkClient: connection, commands and datagrams\<close>

text \<open>
  The slots of the network client as functions on its state, with the signals it emits and
  the calls it makes on Qt's sockets returned in order. Qt is outside the repository: the
  state of the TCP socket is part of the record because the code reads it, and what Qt
  decides (whether a bind succeeds, the state after \<open>disconnectFromHost\<close>, whether \<open>abort\<close>
  emits \<open>disconnected\<close> from a given state) is an argument.
\<close>

datatype TcpState = Unconnected | Connecting | Connected | Closing

datatype ConnectionText =
  ConnectingTo string u16
| ConnectedAs u64 u16
| UdpBindFailed
| ConnectionLost
| NetworkError
| DisconnectedText

datatype SocketError = RemoteHostClosedError | OtherSocketError

datatype ClientEffect =
  ConnectionStateChanged ConnectionText bool
| ServerStatsUpdated u32 "ServerStatsEntry list"
| WorldUpdateReceived u32 bool u32 u32 "AliveCell list"
| TcpWrite "byte list"
| TcpConnectToHost string u16
| TcpDisconnectFromHost
| TcpAbort
| UdpClose

record GameNetworkClient =
  host :: string
  tcpPort :: u16
  udpPort :: u16
  playerId :: u64
  manualDisconnect :: bool
  lastSeqNum :: "u32 option"
  tcpReadBuffer :: "byte list"
  tcpState :: TcpState
  udpBound :: bool
  reconnectActive :: bool

definition newClient :: GameNetworkClient where
  "newClient = \<lparr>host = '''', tcpPort = 0, udpPort = 0, playerId = 0, manualDisconnect = False,
     lastSeqNum = None, tcpReadBuffer = [], tcpState = Unconnected, udpBound = False,
     reconnectActive = False\<rparr>"

definition isConnected :: "GameNetworkClient \<Rightarrow> bool" where
  "isConnected c \<longleftrightarrow> tcpState c = Connected"

subsection \<open>Reconnecting\<close>

definition scheduleReconnect :: "GameNetworkClient \<Rightarrow> GameNetworkClient" where
  "scheduleReconnect c =
     (if manualDisconnect c \<or> reconnectActive c then c else c\<lparr>reconnectActive := True\<rparr>)"

definition cancelReconnect :: "GameNetworkClient \<Rightarrow> GameNetworkClient" where
  "cancelReconnect c = (if reconnectActive c then c\<lparr>reconnectActive := False\<rparr> else c)"

definition onTcpDisconnected :: "GameNetworkClient \<Rightarrow> GameNetworkClient \<times> ClientEffect list" where
  "onTcpDisconnected c =
     (let c1 = c\<lparr>udpBound := False, tcpReadBuffer := []\<rparr>
      in if \<not> manualDisconnect c1
         then (scheduleReconnect c1, [UdpClose, ConnectionStateChanged ConnectionLost False])
         else (c1, [UdpClose]))"

definition abortTcp ::
  "(TcpState \<Rightarrow> bool) \<Rightarrow> GameNetworkClient \<Rightarrow> GameNetworkClient \<times> ClientEffect list" where
  "abortTcp emitsDisconnected c =
     (let c1 = c\<lparr>tcpState := Unconnected\<rparr>;
          (c2, effs) = (if emitsDisconnected (tcpState c) then onTcpDisconnected c1 else (c1, []))
      in (c2, TcpAbort # effs))"

definition connectToHost :: "GameNetworkClient \<Rightarrow> GameNetworkClient \<times> ClientEffect list" where
  "connectToHost c = (c\<lparr>tcpState := Connecting\<rparr>, [TcpConnectToHost (host c) (tcpPort c)])"

definition connectToServer ::
  "(TcpState \<Rightarrow> bool) \<Rightarrow> string \<Rightarrow> u16 \<Rightarrow> u16 \<Rightarrow> u64 \<Rightarrow> GameNetworkClient \<Rightarrow>
   GameNetworkClient \<times> ClientEffect list" where
  "connectToServer emits h tp up p c =
     (let c1 = c\<lparr>host := h, tcpPort := tp, udpPort := up, playerId := p,
                 manualDisconnect := False, lastSeqNum := None, tcpReadBuffer := []\<rparr>;
          (c2, e2) = (if udpBound c1 then (c1\<lparr>udpBound := False\<rparr>, [UdpClose]) else (c1, []));
          (c3, e3) = (if tcpState c2 \<noteq> Unconnected then abortTcp emits c2 else (c2, []));
          (c4, e4) = connectToHost c3
      in (c4, e2 @ e3 @ [ConnectionStateChanged (ConnectingTo h tp) False] @ e4))"

definition disconnectFromServer ::
  "(TcpState \<Rightarrow> bool) \<Rightarrow> TcpState \<Rightarrow> GameNetworkClient \<Rightarrow> GameNetworkClient \<times> ClientEffect list"
where
  "disconnectFromServer emits stateAfter c =
     (let c1 = cancelReconnect (c\<lparr>manualDisconnect := True\<rparr>);
          c2 = c1\<lparr>lastSeqNum := None, tcpReadBuffer := [], udpBound := False, tcpState := stateAfter\<rparr>;
          (c3, e3) = (if tcpState c2 \<noteq> Unconnected then abortTcp emits c2 else (c2, []))
      in (c3, [UdpClose, TcpDisconnectFromHost] @ e3 @ [ConnectionStateChanged DisconnectedText False]))"

definition handshakeBytes :: "u64 \<Rightarrow> byte list" where
  "handshakeBytes p = writeAt 4 (writeLE p) (writeAt 0 (writeLE kMagic) (replicate kHandshakeSize 0))"

definition onTcpConnected ::
  "bool \<Rightarrow> u16 \<Rightarrow> GameNetworkClient \<Rightarrow> GameNetworkClient \<times> ClientEffect list" where
  "onTcpConnected bindOk localPort c =
     (let c1 = cancelReconnect c;
          write = TcpWrite (handshakeBytes (playerId c1))
      in if \<not> bindOk
         then (scheduleReconnect c1, [write, ConnectionStateChanged UdpBindFailed False])
         else (c1\<lparr>udpBound := True\<rparr>,
               [write, ConnectionStateChanged (ConnectedAs (playerId c1) localPort) True]))"

definition onTcpError :: "SocketError \<Rightarrow> GameNetworkClient \<Rightarrow> GameNetworkClient \<times> ClientEffect list" where
  "onTcpError socketError c =
     (if socketError = RemoteHostClosedError then (c, [])
      else (if \<not> manualDisconnect c then scheduleReconnect c else c,
            [ConnectionStateChanged NetworkError False]))"

definition reconnectTick ::
  "(TcpState \<Rightarrow> bool) \<Rightarrow> GameNetworkClient \<Rightarrow> GameNetworkClient \<times> ClientEffect list" where
  "reconnectTick emits c =
     (if isConnected c then (cancelReconnect c, [])
      else
        let (c1, e1) = (if tcpState c \<noteq> Unconnected then abortTcp emits c else (c, []));
            (c2, e2) = connectToHost c1
        in (c2, e1 @ e2))"

subsection \<open>Requests to the server\<close>

definition commandBytes :: "byte \<Rightarrow> u64 \<Rightarrow> u64 \<Rightarrow> u64 \<Rightarrow> byte list" where
  "commandBytes t p x y = [t] @ writeLE p @ writeLE x @ writeLE y"

definition sendCommand ::
  "byte \<Rightarrow> u64 \<Rightarrow> u64 \<Rightarrow> GameNetworkClient \<Rightarrow> ClientEffect list" where
  "sendCommand t x y c =
     (if \<not> isConnected c then [] else [TcpWrite (commandBytes t (playerId c) x y)])"

definition sendPlaceCell :: "u64 \<Rightarrow> u64 \<Rightarrow> GameNetworkClient \<Rightarrow> ClientEffect list" where
  "sendPlaceCell x y c = sendCommand kCmdPlace x y c"

definition sendRemoveCell :: "u64 \<Rightarrow> u64 \<Rightarrow> GameNetworkClient \<Rightarrow> ClientEffect list" where
  "sendRemoveCell x y c = sendCommand kCmdRemove x y c"

definition sendToggleCell :: "u64 \<Rightarrow> u64 \<Rightarrow> GameNetworkClient \<Rightarrow> ClientEffect list" where
  "sendToggleCell x y c = sendCommand kCmdToggle x y c"

definition sendResync :: "GameNetworkClient \<Rightarrow> ClientEffect list" where
  "sendResync c = (if \<not> isConnected c then [] else [TcpWrite [kMsgResyncReq]])"

subsection \<open>Data from the server\<close>

definition toUpdate :: "UdpCellUpdate \<Rightarrow> AliveCell" where
  "toUpdate cell = \<lparr>cellX = ucast (localX cell), cellY = ucast (localY cell),
     cellOwnerId = (if cellAlive cell then cellOwner cell else 0)\<rparr>"

definition applyDatagram ::
  "byte list \<Rightarrow> GameNetworkClient \<Rightarrow> GameNetworkClient \<times> ClientEffect list" where
  "applyDatagram datagram c = (case parseUdpWorldPacket datagram of
     None \<Rightarrow> (c, [])
   | Some p \<Rightarrow>
       (let fullSnapshot = pktFullSnapshot p;
            resync = (case lastSeqNum c of
                Some prev \<Rightarrow> if \<not> fullSnapshot \<and> pktSeqNum p \<noteq> prev + 1 then sendResync c else []
              | None \<Rightarrow> [])
        in (c\<lparr>lastSeqNum := Some (pktSeqNum p)\<rparr>,
            resync @ [WorldUpdateReceived (pktSeqNum p) fullSnapshot (pktChunkX p) (pktChunkY p)
              (map toUpdate (pktCells p))])))"

fun onUdpReadyRead ::
  "byte list list \<Rightarrow> GameNetworkClient \<Rightarrow> GameNetworkClient \<times> ClientEffect list" where
  "onUdpReadyRead [] c = (c, [])"
| "onUdpReadyRead (d # ds) c =
     (let (c1, e1) = applyDatagram d c; (c2, e2) = onUdpReadyRead ds c1 in (c2, e1 @ e2))"

text \<open>A parsed statistics message is shorter than the buffer it came from.\<close>

lemma tryParse_shrinks:
  "tryParseServerStatsMessage b = (Some m, rest) \<Longrightarrow> length rest < length b"
proof (induction b rule: tryParseServerStatsMessage.induct)
  case (1 b)
  note eq = tryParseServerStatsMessage.simps [of b]
  show ?case
  proof (cases "7 \<le> length b \<and> b ! 0 \<noteq> kMsgServerStats")
    case True
    with "1.prems" have "tryParseServerStatsMessage (drop 1 b) = (Some m, rest)"
      by (simp add: eq size_consts)
    with "1.IH" True show ?thesis by (fastforce simp: size_consts)
  next
    case False
    with "1.prems" show ?thesis
      by (auto simp: eq size_consts Let_def split: if_splits)
  qed
qed

function readStats :: "byte list \<Rightarrow> ParsedServerStatsMessage list \<times> byte list" where
  "readStats buffer = (case tryParseServerStatsMessage buffer of
     (None, rest) \<Rightarrow> ([], rest)
   | (Some m, rest) \<Rightarrow> (let (ms, rest') = readStats rest in (m # ms, rest')))"
  by pat_completeness auto
termination by (relation "measure length") (auto dest: tryParse_shrinks [OF sym])

declare readStats.simps [simp del]

definition onTcpReadyRead ::
  "byte list \<Rightarrow> GameNetworkClient \<Rightarrow> GameNetworkClient \<times> ClientEffect list" where
  "onTcpReadyRead received c =
     (let (ms, rest) = readStats (tcpReadBuffer c @ received)
      in (c\<lparr>tcpReadBuffer := rest\<rparr>,
          map (\<lambda>m. ServerStatsUpdated (statsGeneration m) (statsPlayers m)) ms))"

subsection \<open>Statistics arrive in pieces\<close>

text \<open>More bytes after a parsed message, or after what a failed parse left, change nothing.\<close>

lemma tryParse_append:
  "(case tryParseServerStatsMessage a of
      (Some m, rest) \<Rightarrow> tryParseServerStatsMessage (a @ b) = (Some m, rest @ b)
    | (None, rest) \<Rightarrow> tryParseServerStatsMessage (a @ b) = tryParseServerStatsMessage (rest @ b))"
proof (induction a rule: tryParseServerStatsMessage.induct)
  case (1 a)
  consider "length a < 7" | "7 \<le> length a" "a ! 0 \<noteq> kMsgServerStats"
    | "7 \<le> length a" "a ! 0 = kMsgServerStats" by fastforce
  then show ?case
  proof cases
    case 1
    then show ?thesis by (simp add: tryParseServerStatsMessage.simps [of a] size_consts)
  next
    case 2
    then have "a \<noteq> []" by auto
    with 2 have "tryParseServerStatsMessage a = tryParseServerStatsMessage (drop 1 a)"
      "tryParseServerStatsMessage (a @ b) = tryParseServerStatsMessage (drop 1 a @ b)"
      by (simp_all add: tryParseServerStatsMessage.simps [of a]
          tryParseServerStatsMessage.simps [of "a @ b"] size_consts nth_append)
    with "1.IH" 2 show ?thesis by (simp add: size_consts split: prod.splits option.splits)
  next
    case 3
    then have ne: "a \<noteq> []" by auto
    have count: "readLE (drop 5 (a @ b)) = (readLE (drop 5 a) :: u16)"
      "readLE (drop 1 (a @ b)) = (readLE (drop 1 a) :: u32)"
      using 3 by (simp_all add: readLE_def)
    have parsed: "parseStatsEntries n (p @ b) = parseStatsEntries n p" if "24 * n \<le> length p" for n p
      using that
    proof (induction n arbitrary: p)
      case 0
      then show ?case by simp
    next
      case (Suc n)
      then have "parseStatsEntry (p @ b) = parseStatsEntry p"
        by (simp add: parseStatsEntry_def readLE_def)
      with Suc show ?case by (simp add: size_consts)
    qed
    show ?thesis
    proof (cases "length a < 7 + unat (readLE (drop 5 a) :: u16) * 24")
      case True
      with 3 show ?thesis by (simp add: tryParseServerStatsMessage.simps [of a] size_consts)
    next
      case False
      with 3 count parsed [of "unat (readLE (drop 5 a) :: u16)" "drop 7 a"] ne show ?thesis
        by (simp add: tryParseServerStatsMessage.simps [of a]
            tryParseServerStatsMessage.simps [of "a @ b"] size_consts nth_append Let_def)
    qed
  qed
qed

lemma readStats_append:
  "readStats (a @ b) =
     (let (ms, rest) = readStats a; (ms', rest') = readStats (rest @ b) in (ms @ ms', rest'))"
proof (induction a rule: readStats.induct)
  case (1 a)
  obtain om rest where p: "tryParseServerStatsMessage a = (om, rest)" by fastforce
  show ?case
  proof (cases om)
    case None
    with p tryParse_append [of a b] have "readStats (a @ b) = readStats (rest @ b)"
      by (simp add: readStats.simps [of "a @ b"] readStats.simps [of "rest @ b"])
    with p None show ?thesis by (simp add: readStats.simps [of a])
  next
    case (Some m)
    with p tryParse_append [of a b] have
      "readStats (a @ b) = (let (ms, rest') = readStats (rest @ b) in (m # ms, rest'))"
      by (simp add: readStats.simps [of "a @ b"])
    with p Some "1.IH" [OF p [symmetric] Some] show ?thesis
      by (simp add: readStats.simps [of a] Let_def split: prod.splits)
  qed
qed

text \<open>
  C21. However TCP cuts the stream of statistics, the client emits the same updates and keeps
  the same unparsed rest: reading two pieces one after the other is reading them at once.
\<close>

theorem onTcpReadyRead_pieces:
  "onTcpReadyRead (a @ b) c =
     (let (c1, e1) = onTcpReadyRead a c; (c2, e2) = onTcpReadyRead b c1 in (c2, e1 @ e2))"
  using readStats_append [of "tcpReadBuffer c @ a" b]
  by (simp add: onTcpReadyRead_def Let_def split: prod.splits)

subsection \<open>The connection as a state machine\<close>

text \<open>
  The steps are the slots, guarded by what Qt reports when: \<open>connected\<close> while connecting,
  \<open>disconnected\<close> on an open connection, an error in either state, the timer while it is
  active. A refused connection leaves the socket unconnected.
\<close>

inductive client_step :: "(TcpState \<Rightarrow> bool) \<Rightarrow> GameNetworkClient \<Rightarrow> GameNetworkClient \<Rightarrow> bool"
  for emits where
  connected: "tcpState c = Connecting \<Longrightarrow>
    client_step emits c (fst (onTcpConnected bindOk port (c\<lparr>tcpState := Connected\<rparr>)))"
| disconnected: "tcpState c = Connected \<or> tcpState c = Closing \<Longrightarrow>
    client_step emits c (fst (onTcpDisconnected (c\<lparr>tcpState := Unconnected\<rparr>)))"
| refused: "tcpState c = Connecting \<Longrightarrow> e \<noteq> RemoteHostClosedError \<Longrightarrow>
    client_step emits c (fst (onTcpError e (c\<lparr>tcpState := Unconnected\<rparr>)))"
| error: "tcpState c = Connected \<or> tcpState c = Closing \<Longrightarrow>
    client_step emits c (fst (onTcpError e c))"
| tick: "reconnectActive c \<Longrightarrow> client_step emits c (fst (reconnectTick emits c))"
| udp: "udpBound c \<Longrightarrow> client_step emits c (fst (onUdpReadyRead ds c))"
| tcp: "tcpState c = Connected \<Longrightarrow> client_step emits c (fst (onTcpReadyRead bs c))"
| connect: "client_step emits c (fst (connectToServer emits h tp up p c))"
| disconnect: "client_step emits c (fst (disconnectFromServer emits after c))"

inductive_cases client_stepE: "client_step emits c c'"

inductive client_reachable :: "(TcpState \<Rightarrow> bool) \<Rightarrow> GameNetworkClient \<Rightarrow> bool"
  for emits where
  start: "client_reachable emits (fst (connectToServer emits h tp up p newClient))"
| step: "client_reachable emits c \<Longrightarrow> client_step emits c c' \<Longrightarrow> client_reachable emits c'"

definition client_inv :: "GameNetworkClient \<Rightarrow> bool" where
  "client_inv c \<longleftrightarrow>
     (manualDisconnect c \<longrightarrow> \<not> reconnectActive c) \<and>
     (tcpState c = Unconnected \<longrightarrow> reconnectActive c \<or> manualDisconnect c) \<and>
     (tcpState c = Connected \<or> (\<not> udpBound c \<and> tcpReadBuffer c = []))"

lemma schedule_simps [simp]:
  "tcpState (scheduleReconnect c) = tcpState c" "udpBound (scheduleReconnect c) = udpBound c"
  "tcpReadBuffer (scheduleReconnect c) = tcpReadBuffer c"
  "manualDisconnect (scheduleReconnect c) = manualDisconnect c"
  "reconnectActive (scheduleReconnect c) \<longleftrightarrow> reconnectActive c \<or> \<not> manualDisconnect c"
  "tcpState (cancelReconnect c) = tcpState c" "udpBound (cancelReconnect c) = udpBound c"
  "tcpReadBuffer (cancelReconnect c) = tcpReadBuffer c"
  "manualDisconnect (cancelReconnect c) = manualDisconnect c"
  "\<not> reconnectActive (cancelReconnect c)"
  by (simp_all add: scheduleReconnect_def cancelReconnect_def)

lemma onUdpReadyRead_frame: "\<exists>n. fst (onUdpReadyRead ds c) = c\<lparr>lastSeqNum := n\<rparr>"
proof (induction ds c rule: onUdpReadyRead.induct)
  case (1 c)
  have "fst (onUdpReadyRead [] c) = c\<lparr>lastSeqNum := lastSeqNum c\<rparr>" by simp
  then show ?case ..
next
  case (2 d ds c)
  obtain c1 e1 where d: "applyDatagram d c = (c1, e1)" by fastforce
  then obtain n where "c1 = c\<lparr>lastSeqNum := n\<rparr>"
    by (cases c) (auto simp: applyDatagram_def Let_def split: option.splits)
  moreover obtain n' where "fst (onUdpReadyRead ds c1) = c1\<lparr>lastSeqNum := n'\<rparr>"
    using "2.IH" [OF d [symmetric] refl] by blast
  ultimately have "fst (onUdpReadyRead (d # ds) c) = c\<lparr>lastSeqNum := n'\<rparr>"
    using d by (simp add: Let_def case_prod_beta)
  then show ?case ..
qed

lemma client_inv_connect: "client_inv (fst (connectToServer emits h tp up p c))"
  by (auto simp: connectToServer_def abortTcp_def onTcpDisconnected_def connectToHost_def
      client_inv_def Let_def)

lemma client_step_inv:
  assumes "client_step emits c c'" "client_inv c"
  shows "client_inv c'"
  using assms(1)
proof cases
  case (udp ds)
  have "client_inv (c\<lparr>lastSeqNum := n\<rparr>)" for n using assms(2) by (simp add: client_inv_def)
  then show ?thesis using udp onUdpReadyRead_frame by metis
next
  case (connect h tp up p)
  then show ?thesis by (simp add: client_inv_connect)
qed (use assms(2) in \<open>auto simp: client_inv_def onTcpConnected_def onTcpDisconnected_def
      onTcpError_def reconnectTick_def abortTcp_def connectToHost_def disconnectFromServer_def
      onTcpReadyRead_def isConnected_def Let_def split: prod.splits\<close>)

text \<open>
  C22. After the first connect, in every state the slots can reach: a manual disconnect leaves
  no reconnect timer running; without one, an unconnected client always has the timer
  running, so it never silently gives up; and outside an open TCP connection the UDP socket is
  unbound and no byte of an old connection waits to be parsed.
\<close>

theorem client_reachable_inv: "client_reachable emits c \<Longrightarrow> client_inv c"
proof (induction rule: client_reachable.induct)
  case (start h tp up p)
  show ?case by (rule client_inv_connect)
next
  case (step c c')
  then show ?case by (blast intro: client_step_inv)
qed

theorem client_reachable_inv_witness:
  "client_inv (fst (onTcpDisconnected (fst (onTcpConnected True 40000
     (fst (connectToServer (\<lambda>_. True) ''localhost'' 5000 5001 7 newClient)\<lparr>tcpState := Connected\<rparr>))
     \<lparr>tcpState := Unconnected\<rparr>)))"
proof (rule client_reachable_inv [where emits = "\<lambda>_. True"])
  let ?e = "\<lambda>_ :: TcpState. True"
  let ?c0 = "fst (connectToServer ?e ''localhost'' 5000 5001 7 newClient)"
  let ?c1 = "fst (onTcpConnected True 40000 (?c0\<lparr>tcpState := Connected\<rparr>))"
  have "tcpState ?c0 = Connecting" by (simp add: connectToServer_def connectToHost_def Let_def case_prod_beta)
  with client_reachable.start have "client_reachable ?e ?c1"
    by (blast intro: client_reachable.step client_step.connected)
  moreover have "tcpState ?c1 = Connected" by (simp add: onTcpConnected_def Let_def)
  ultimately show "client_reachable ?e (fst (onTcpDisconnected (?c1\<lparr>tcpState := Unconnected\<rparr>)))"
    by (blast intro: client_reachable.step client_step.disconnected)
qed

text \<open>
  When binding the UDP socket fails, the scheduled reconnect does not help: the next tick of
  the timer finds TCP connected and cancels the timer, and the client stays connected without
  a UDP socket, that is, without updates.
\<close>

theorem udp_bind_failure_stays:
  assumes "tcpState c = Connecting" "\<not> manualDisconnect c"
  shows "\<exists>c1 c2. client_step emits c c1 \<and> reconnectActive c1 \<and> client_step emits c1 c2 \<and>
    tcpState c2 = Connected \<and> udpBound c2 = udpBound c \<and> \<not> reconnectActive c2"
proof -
  let ?c1 = "fst (onTcpConnected False 0 (c\<lparr>tcpState := Connected\<rparr>))"
  have "client_step emits c ?c1" using assms(1) by (rule client_step.connected)
  moreover have a: "reconnectActive ?c1" using assms(2) by (simp add: onTcpConnected_def Let_def)
  then have "client_step emits ?c1 (fst (reconnectTick emits ?c1))" by (rule client_step.tick)
  ultimately show ?thesis
    using a by (intro exI conjI) (assumption, assumption, assumption,
      simp_all add: onTcpConnected_def reconnectTick_def isConnected_def Let_def)
qed

theorem udp_bind_failure_stays_witness:
  "\<exists>c1 c2. client_step (\<lambda>_. True) (newClient\<lparr>tcpState := Connecting\<rparr>) c1 \<and> reconnectActive c1 \<and>
    client_step (\<lambda>_. True) c1 c2 \<and> tcpState c2 = Connected \<and> udpBound c2 = False \<and> \<not> reconnectActive c2"
  using udp_bind_failure_stays [of "newClient\<lparr>tcpState := Connecting\<rparr>" "\<lambda>_. True"]
  by (simp add: newClient_def)

end
