(* ===== verification/Round_Trips.thy ===== *)
theory Round_Trips
  imports Boost_Network Game_Server Client_Network
begin

section \<open>What one side writes, the other side reads\<close>

text \<open>
  The server and the client share no code, only a byte layout. Here each message of the
  protocol is written by the model of its sender and read by the model of its receiver:
  world packets, snapshots with rewritten sequence numbers, statistics, the handshake and
  the commands.
\<close>

subsection \<open>World packets\<close>

definition entryUpdate :: "Entry \<Rightarrow> UdpCellUpdate" where
  "entryUpdate e = \<lparr>localX = entryX e, localY = entryY e, cellAlive = (entryAlive e \<noteq> 0),
     cellOwner = entryOwner e\<rparr>"

lemma parseCell_encodeEntry: "parseCell (encodeEntry e @ rest) = entryUpdate e"
  by (simp add: parseCell_def encodeEntry_layout entryUpdate_def eval_nat_numeral)

lemma parseCells_encode:
  "parseCells (length es) (concat (map encodeEntry es) @ rest) = map entryUpdate es"
  by (induction es) (simp_all add: parseCell_encodeEntry entries.length_enc)

lemma parse_encodePacket:
  assumes "length es \<le> 125"
  shows "parseUdpWorldPacket (encodePacket s f c es @ rest) =
    Some \<lparr>pktSeqNum = s, pktFullSnapshot = (f = kFlagFull), pktChunkX = coordX c, pktChunkY = coordY c,
      pktCells = map entryUpdate es\<rparr>"
proof -
  let ?d = "encodePacket s f c es @ rest"
  let ?p = "packetHeader s f c (word_of_nat (length es)) @ concat (map encodeEntry es) @ rest"
  have d: "?d = ?p" by (simp add: encodePacket_def)
  have "drop 15 ?p = concat (map encodeEntry es) @ rest" by simp
  then show ?thesis
    using count_field [OF assms] length_encodePacket [of s f c es]
    unfolding parseUdpWorldPacket_def d consts_simps packet_fields Let_def
    by (simp add: d packet_fields(1) [where f = f, folded d] parseCells_encode entries.length_encs
        del: drop_append)
qed

text \<open>
  C18. A packet of the serializer, with up to 125 entries, is read back by the client's parser:
  sequence number, kind, chunk and every cell.
\<close>

theorem packet_round_trip:
  assumes "length es \<le> kMaxCellsPerPacket"
  shows "parseUdpWorldPacket (encodePacket s f c es) =
    Some \<lparr>pktSeqNum = s, pktFullSnapshot = (f = kFlagFull), pktChunkX = coordX c, pktChunkY = coordY c,
      pktCells = map (\<lambda>e. \<lparr>localX = entryX e, localY = entryY e, cellAlive = (entryAlive e \<noteq> 0),
        cellOwner = entryOwner e\<rparr>) es\<rparr>"
  using parse_encodePacket [of es s f c "[]"] assms by (simp add: entryUpdate_def [abs_def])

theorem packet_round_trip_witness:
  "parseUdpWorldPacket (encodePacket 3 1 (coord 5 (-1))
      [\<lparr>entryX = 1, entryY = 2, entryAlive = 1, entryOwner = 7\<rparr>]) =
    Some \<lparr>pktSeqNum = 3, pktFullSnapshot = True, pktChunkX = 5, pktChunkY = -1,
      pktCells = [\<lparr>localX = 1, localY = 2, cellAlive = True, cellOwner = 7\<rparr>]\<rparr>"
  using packet_round_trip [of "[\<lparr>entryX = 1, entryY = 2, entryAlive = 1, entryOwner = 7\<rparr>]" 3 1
      "coord 5 (-1)"]
  by (simp add: kFlagFull_def)

lemma sendPayloadTo_whole:
  assumes "smallPackets ps"
  shows "\<exists>ds. sendPayloadTo (encodeAll s f ps) = Some ds \<and> concat ds = encodeAll s f ps \<and>
    (\<forall>d \<in> set ds. length d \<le> 1400 \<and> parseUdpWorldPacket d \<noteq> None)"
proof -
  let ?ds = "map (\<lambda>(c, es). encodePacket s f c es) ps"
  have "concat ?ds = encodeAll s f ps" by (simp add: encodeAll_def)
  moreover have "length (encodePacket s f c es) \<le> 1400 \<and> parseUdpWorldPacket (encodePacket s f c es) \<noteq> None"
    if "(c, es) \<in> set ps" for c es
  proof -
    have "length es \<le> 125" using assms that by (auto simp: smallPackets_def)
    then show ?thesis using parse_encodePacket [of es s f c "[]"] by simp
  qed
  ultimately show ?thesis using sendPayloadTo_encodeAll [OF assms] by auto
qed

text \<open>
  The payloads of the serializer are cut into datagrams without reading past their end and
  without losing a byte: the datagrams of a delta, and of a full snapshot, together are the
  payload, none is larger than the limit, and the client's parser accepts each.
\<close>

theorem serializer_payloads_cut_exactly:
  assumes "payload = fst (serializeDelta s cs) \<or> payload = serializeFull s cs"
  shows "\<exists>ds. sendPayloadTo payload = Some ds \<and> concat ds = payload \<and>
    (\<forall>d \<in> set ds. length d \<le> kMaxUdpPayload \<and> parseUdpWorldPacket d \<noteq> None)"
proof -
  from assms obtain f ps where "payload = encodeAll s f ps" "smallPackets ps"
    using serializeDelta_eq serializeFull_eq smallPackets_delta smallPackets_full by (metis fst_conv)
  then show ?thesis using sendPayloadTo_whole by simp
qed

theorem serializer_payloads_cut_exactly_witness:
  "\<exists>ds. sendPayloadTo (serializeFull 3 [(coord 0 0, newChunk)]) = Some ds \<and>
    concat ds = serializeFull 3 [(coord 0 0, newChunk)]"
  using serializer_payloads_cut_exactly [of "serializeFull 3 [(coord 0 0, newChunk)]" 3 "[(coord 0 0, newChunk)]"]
  by blast

subsection \<open>Snapshots with rewritten sequence numbers\<close>

lemma writeAt_append: "writeAt (length a + k) bs (a @ b) = a @ writeAt k bs b"
  by (simp add: writeAt_def)

lemma writeAt_packet:
  "writeAt 0 (writeLE t) (encodePacket s f c es @ rest) = encodePacket t f c es @ rest"
  by (simp add: writeAt_def encodePacket_def packetHeader_layout)

lemma rewriteSnapshotLoop_encodeAll:
  "smallPackets ps \<Longrightarrow>
     rewriteSnapshotLoop t (length a) (a @ encodeAll s f ps) = a @ encodeAll t f ps"
proof (induction ps arbitrary: a)
  case Nil
  then show ?case by (simp add: rewriteSnapshotLoop.simps)
next
  case (Cons p ps)
  obtain c es where p: "p = (c, es)" by fastforce
  let ?d = "a @ encodePacket s f c es @ encodeAll s f ps"
  have count: "unat (readLE (drop (length a + 13) ?d) :: u16) = length es"
    using packet_count [of es s f c "encodeAll s f ps"] Cons.prems p by simp
  have w: "writeAt (length a) (writeLE t) ?d = a @ encodePacket t f c es @ encodeAll s f ps"
    using writeAt_append [of a 0] by (simp add: writeAt_packet)
  have IH: "rewriteSnapshotLoop t (length a + (15 + length es * 11))
      (a @ encodePacket t f c es @ encodeAll s f ps) =
      a @ encodePacket t f c es @ encodeAll t f ps"
    using Cons.IH [of "a @ encodePacket t f c es"] Cons.prems p by (simp add: mult.commute)
  show ?case
    using IH by (subst rewriteSnapshotLoop.simps) (simp add: p count w Let_def mult.commute del: drop_append)
qed

lemma getFullSnapshotForSeq_serialize:
  assumes "cachedFullSnapshot s = serializeFull q cs"
  shows "getFullSnapshotForSeq t s = serializeFull t cs"
  using rewriteSnapshotLoop_encodeAll [OF smallPackets_full, of t "[]" q kFlagFull cs] assms
  by (simp add: getFullSnapshotForSeq_def rewriteSnapshotSeqNums_def serializeFull_eq)

lemma getFullSnapshotForSeq_onTick:
  "getFullSnapshotForSeq t (fst (onTick s)) = serializeFull t (chunks (world (fst (onTick s))))"
proof -
  have "serializeFull t (map (\<lambda>(c, ch). (c, clearDirty ch)) cs) = serializeFull t cs" for t cs
  proof -
    have "fullEntries (clearDirty ch) = fullEntries ch" for ch
      by (simp add: fullEntries_def)
    then have "fullPackets (map (\<lambda>(c, ch). (c, clearDirty ch)) cs) = fullPackets cs"
      by (simp add: fullPackets_def comp_def split_def)
    then show ?thesis by (simp add: serializeFull_eq)
  qed
  moreover have "getFullSnapshotForSeq t (fst (onTick s)) =
      serializeFull t (chunks (fst (afterCommands s)))"
    by (rule getFullSnapshotForSeq_serialize [where q = 0]) (simp add: onTick_state)
  ultimately show ?thesis by (simp add: onTick_state)
qed

text \<open>
  The snapshot a client is sent for sequence number \<open>t\<close> is exactly the serialization of
  the world after the last tick under \<open>t\<close>: rewriting the cached bytes changes the sequence
  numbers and nothing else.
\<close>

theorem snapshot_after_tick:
  "getFullSnapshotForSeq t (fst (onTick s)) = serializeFull t (chunks (world (fst (onTick s))))"
  by (rule getFullSnapshotForSeq_onTick)

subsection \<open>Statistics\<close>

lemma writeAt_replicate: 
  "length bs = k \<Longrightarrow> writeAt (length a) bs (a @ replicate (k + j) x) = a @ bs @ replicate j x"
  by (simp add: writeAt_def)

lemma statsEntryBytes_layout:
  "statsEntryBytes p b n = writeLE p @ writeLE b @ writeLE n"
  by (simp add: statsEntryBytes_def writeAt_def kServerStatsEntry_def)

lemma statsHeader_layout:
  "writeAt 5 (writeLE (n :: u16)) (writeAt 1 (writeLE (gen :: u32))
     ((replicate kServerStatsHeader 0)[0 := t])) = [t] @ writeLE gen @ writeLE n"
  by (simp add: writeAt_def kServerStatsHeader_def eval_nat_numeral)

definition statsOf :: "ResourceManager \<Rightarrow> (PlayerId \<times> u64) list \<Rightarrow> PlayerId \<Rightarrow> ServerStatsEntry" where
  "statsOf r liveCounts p = \<lparr>statPlayerId = p, statBalance = getBalance r p,
     statLiveCells = lookup0 liveCounts p\<rparr>"

lemma parseStatsEntries_encode:
  "parseStatsEntries (length ps) (concat (map (\<lambda>p. statsEntryBytes p (getBalance r p)
       (case map_of lc p of None \<Rightarrow> 0 | Some n \<Rightarrow> n)) ps) @ rest) = map (statsOf r lc) ps"
  by (induction ps)
    (simp_all add: parseStatsEntry_def statsEntryBytes_layout statsOf_def lookup0_def kServerStatsEntry_def)

lemma length_statsEntries:
  "length (concat (map (\<lambda>p. statsEntryBytes p (f p) (g p)) ps)) = 24 * length ps"
  by (induction ps) (simp_all add: statsEntryBytes_layout)

lemma parse_serializeServerStats:
  "tryParseServerStatsMessage (serializeServerStats gen r lc @ rest) =
     (Some \<lparr>statsGeneration = gen,
        statsPlayers = map (statsOf r lc) (take 65535 (sort (getPlayerIds r)))\<rparr>, rest)"
proof -
  let ?ps = "take 65535 (sort (getPlayerIds r))"
  let ?body = "concat (map (\<lambda>p. statsEntryBytes p (getBalance r p)
       (case map_of lc p of None \<Rightarrow> 0 | Some n \<Rightarrow> n)) ?ps)"
  have ps: "(if length xs > 65535 then take 65535 xs else xs) = take 65535 xs" for xs :: "u64 list"
    by simp
  have ser: "serializeServerStats gen r lc =
      [kMsgServerStats] @ writeLE gen @ writeLE (word_of_nat (length ?ps) :: u16) @ ?body"
    unfolding serializeServerStats_def Let_def statsHeader_layout ps by simp
  have n: "unat (word_of_nat (length ?ps) :: u16) = length ?ps"
    by (simp add: unat_of_nat)
  let ?b = "serializeServerStats gen r lc @ rest"
  have f: "?b ! 0 = kMsgServerStats" "readLE (drop 1 ?b) = gen"
    "unat (readLE (drop 5 ?b) :: u16) = length ?ps" "drop 7 ?b = ?body @ rest"
    "length ?b = 7 + length ?ps * 24 + length rest"
    unfolding ser by (simp_all add: n length_statsEntries del: length_take)
  have "drop (7 + length ?ps * 24) ?b = drop (length ?ps * 24) (drop 7 ?b)" by (simp only: drop_drop add.commute)
  also have "\<dots> = rest" unfolding f(4) by (simp add: length_statsEntries del: length_take)
  finally have d: "drop (7 + length ?ps * 24) ?b = rest" .
  show ?thesis
    unfolding tryParseServerStatsMessage.simps [of ?b] Let_def f(1-3) kServerStatsHeader_def
      kServerStatsEntry_def f(4) d parseStatsEntries_encode
    using f(5) by (simp del: length_take)
qed

text \<open>
  The client finds the start of a statistics message: bytes before it that are not the
  message's tag are dropped, and the message is read as if they had not been there.
\<close>

theorem stats_after_garbage:
  assumes "\<forall>g \<in> set garbage. g \<noteq> kMsgServerStats"
  shows "tryParseServerStatsMessage (garbage @ serializeServerStats gen r lc @ rest) =
    (Some \<lparr>statsGeneration = gen, statsPlayers = map (\<lambda>p. \<lparr>statPlayerId = p,
        statBalance = getBalance r p, statLiveCells = lookup0 lc p\<rparr>)
        (take 65535 (sort (getPlayerIds r)))\<rparr>, rest)"
proof -
  have "7 \<le> length (serializeServerStats gen r lc)"
    unfolding serializeServerStats_def Let_def statsHeader_layout by simp
  then show ?thesis
    using tryParse_skip_garbage [OF assms, of "serializeServerStats gen r lc @ rest"]
    by (simp add: parse_serializeServerStats statsOf_def [abs_def])
qed

theorem stats_after_garbage_witness:
  "tryParseServerStatsMessage ([1, 2] @ serializeServerStats 9 \<lparr>balances = [(7, 10)]\<rparr> [(7, 3)] @ [5]) =
    (Some \<lparr>statsGeneration = 9, statsPlayers = [\<lparr>statPlayerId = 7, statBalance = 10, statLiveCells = 3\<rparr>]\<rparr>, [5])"
  using stats_after_garbage [of "[1, 2]" 9 "\<lparr>balances = [(7, 10)]\<rparr>" "[(7, 3)]" "[5]"]
  by (simp add: kMsgServerStats_def getPlayerIds_def getBalance_def lookup0_def)

lemma liveCellsOf_cleared:
  "liveCellsOf (w\<lparr>chunks := map (\<lambda>(c, ch). (c, clearDirty ch)) (chunks w)\<rparr>) p = liveCellsOf w p"
  by (simp add: liveCellsOf_def allChunks_def liveCellsIn_def comp_def case_prod_beta)

lemma liveCellsOf_onTick: "liveCellsOf (world (fst (onTick s))) p = liveCellsOf (fst (afterCommands s)) p"
  by (simp add: onTick_state liveCellsOf_cleared)

lemma onTick_statsPayload:
  assumes "networkManager s \<noteq> NoNetwork"
  shows "\<exists>payload. BroadcastServerStats payload \<in> set (snd (onTick s)) \<and>
    tryParseServerStatsMessage (payload @ rest) =
      (Some \<lparr>statsGeneration = broadcastSeq (fst (onTick s)),
         statsPlayers = map (\<lambda>p. \<lparr>statPlayerId = p,
             statBalance = getBalance (resources (fst (onTick s))) p,
             statLiveCells = (if p = 0 then 0 else of_nat (liveCellsOf (world (fst (onTick s))) p))\<rparr>)
           (take 65535 (sort (getPlayerIds (resources (fst (onTick s))))))\<rparr>, rest)"
proof -
  let ?r = "resources (fst (onTick s))" and ?lc = "collectLiveCounts (allChunks (fst (afterCommands s)))"
  let ?payload = "serializeServerStats (broadcastSeq s + 1) ?r ?lc"
  have lc: "lookup0 ?lc p = (if p = 0 then 0 else of_nat (liveCellsOf (world (fst (onTick s))) p))" for p
    by (simp add: lookup0_collect_zero lookup0_collect_live liveCellsOf_onTick)
  have parse: "tryParseServerStatsMessage (?payload @ r) = (Some \<lparr>statsGeneration = broadcastSeq s + 1,
      statsPlayers = map (statsOf ?r ?lc) (take 65535 (sort (getPlayerIds ?r)))\<rparr>, r)" for r
    by (rule parse_serializeServerStats)
  have "tryParseServerStatsMessage [] = (None, [])"
    by (simp add: tryParseServerStatsMessage.simps kServerStatsHeader_def)
  with parse [of "[]"] have "?payload \<noteq> []" by auto
  with assms have "BroadcastServerStats ?payload \<in> set (snd (onTick s))"
    by (simp add: onTick_calls onTick_state Let_def)
  with parse [of rest] show ?thesis
    by (auto simp: statsOf_def [abs_def] lc onTick_state)
qed

text \<open>
  The statistics a tick broadcasts, followed by anything, are read back by the client as
  one message: the tick's number and, for the players in ascending order (at most 65535),
  their balances after the tick and their live cells in the world.
\<close>

theorem stats_after_tick:
  assumes "networkManager s \<noteq> NoNetwork"
  shows "\<exists>payload. BroadcastServerStats payload \<in> set (snd (onTick s)) \<and>
    tryParseServerStatsMessage (payload @ rest) =
      (Some \<lparr>statsGeneration = broadcastSeq (fst (onTick s)),
         statsPlayers = map (\<lambda>p. \<lparr>statPlayerId = p,
             statBalance = getBalance (resources (fst (onTick s))) p,
             statLiveCells = (if p = 0 then 0 else of_nat (liveCellsOf (world (fst (onTick s))) p))\<rparr>)
           (take 65535 (sort (getPlayerIds (resources (fst (onTick s))))))\<rparr>, rest)"
  by (rule onTick_statsPayload [OF assms])

theorem stats_after_tick_witness:
  "\<exists>payload. BroadcastServerStats payload \<in> set (snd (onTick (newGameServer BoostNetwork))) \<and>
    fst (tryParseServerStatsMessage (payload @ [])) = Some \<lparr>statsGeneration = 1, statsPlayers = []\<rparr>"
proof -
  have "getPlayerIds (resources (fst (onTick (newGameServer BoostNetwork)))) = []"
    by (simp add: onTick_state newGameServer_def afterCommands_def emptyQueue_def newWorld_def
        simulateGeneration_def exchangeBorders_def ensureSimulationMarginUnlocked_def
        chunksToCreate_def runChunkTasks_def collectLiveCounts_def allChunks_def
        awardFromLiveCounts_def newResourceManager_def getPlayerIds_def Let_def)
  then show ?thesis
    using stats_after_tick [of "newGameServer BoostNetwork" "[]"]
    by (auto simp: onTick_state newGameServer_def)
qed

subsection \<open>Handshake and commands\<close>

lemma handshakeBytes_layout: "handshakeBytes p = writeLE kMagic @ writeLE p"
  by (simp add: handshakeBytes_def writeAt_def kHandshakeSize_def)

text \<open>
  The handshake a client writes when its connection is up registers it: the server reads
  the client's player, maps it to the session and the session's endpoint, marks it for a full
  snapshot and goes on to read its messages.
\<close>

theorem handshake_round_trip:
  assumes "map_of (sessionObjs n) sid = Some ss" "peer ss = Some ep"
    and "TcpWrite bs \<in> set (snd (onTcpConnected bindOk port c))"
  shows "length bs = kHandshakeSize \<and>
    (let (n', effs) = onHandshake False bs sid n
     in map_of (sessions n') (playerId c) = Some sid \<and>
        map_of (udpEndpoints n') (playerId c) = Some ep \<and>
        wantsFull n' (playerId c) = Some True \<and> AwaitType sid \<in> set effs)"
proof -
  have "bs = handshakeBytes (playerId c)"
    using assms(3) by (auto simp: onTcpConnected_def cancelReconnect_def Let_def split: if_splits)
  then have b: "readLE bs = kMagic" "readLE (drop 4 bs) = playerId c" "length bs = 12"
    by (simp_all add: handshakeBytes_layout)
  show ?thesis
    using assms(1,2)
    by (simp add: onHandshake_def b wantsFull_def modifySession_def map_of_map_entry update_conv'
        kHandshakeSize_def Let_def)
qed

theorem handshake_round_trip_witness:
  "\<exists>n'. map_of (sessions n') (8 :: u64) = Some (0::nat) \<and> map_of (udpEndpoints n') 8 = Some (1::nat) \<and>
    n' = fst (onHandshake False (handshakeBytes 8) 0 (manager sampleRun))"
proof -
  have "TcpWrite (handshakeBytes 8) \<in> set (snd (onTcpConnected True 9 (newClient\<lparr>playerId := 8\<rparr>)))"
    by (simp add: onTcpConnected_def newClient_def cancelReconnect_def)
  from handshake_round_trip [OF _ _ this, of "manager sampleRun" 0 "sampleSession 1" 1]
  show ?thesis by (simp add: sampleRun_eq sampleSession_def case_prod_beta)
qed

lemma commandBytes_fields:
  "hd (commandBytes t p x y) = t" "length (tl (commandBytes t p x y)) = kCommandSize - 1"
  "readLE (tl (commandBytes t p x y)) = p" "readLE (drop 8 (tl (commandBytes t p x y))) = x"
  "readLE (drop 16 (tl (commandBytes t p x y))) = y"
  by (simp_all add: commandBytes_def kCommandSize_def)

text \<open>
  A command a connected client sends is received as itself: the server reads its type, then
  its body, and hands on one command with the client's player, the requested kind and the
  requested 64-bit coordinates.
\<close>

theorem command_round_trip:
  assumes "(send, ty) \<in> {(sendPlaceCell, PlaceCell), (sendRemoveCell, RemoveCell), (sendToggleCell, ToggleCell)}"
    and "isConnected c" "playerOf n sid = playerId c" "commandCallbackSet n"
  shows "\<exists>bs. send x y c = [TcpWrite bs] \<and>
    onMessageType False (hd bs) sid n = (n, [AwaitBody sid (hd bs)]) \<and>
    length (tl bs) = kCommandSize - 1 \<and>
    onCommandBody False (hd bs) (tl bs) sid n =
      (n, [DeliverCommands [\<lparr>cmdPlayerId = playerId c, cmdType = ty, cmdX = x, cmdY = y\<rparr>], AwaitType sid])"
proof -
  let ?t = "case ty of PlaceCell \<Rightarrow> kCmdPlace | RemoveCell \<Rightarrow> kCmdRemove | ToggleCell \<Rightarrow> kCmdToggle"
  have "?t \<in> {kCmdPlace, kCmdRemove, kCmdToggle}" "commandTypeOf ?t = ty"
    by (cases ty; simp add: commandTypeOf_def kCmdPlace_def kCmdRemove_def kCmdToggle_def)+
  moreover have "send x y c = sendCommand ?t x y c"
    using assms(1) by (auto simp: sendPlaceCell_def sendRemoveCell_def sendToggleCell_def)
  ultimately obtain t where t: "t \<in> {kCmdPlace, kCmdRemove, kCmdToggle}" "commandTypeOf t = ty"
    "send x y c = sendCommand t x y c" by blast
  let ?bs = "commandBytes t (playerId c) x y"
  have "send x y c = [TcpWrite ?bs]" using t(3) assms(2) by (simp add: sendCommand_def)
  moreover have "onMessageType False (hd ?bs) sid n = (n, [AwaitBody sid (hd ?bs)])"
    unfolding commandBytes_fields using t(1)
    by (auto simp: onMessageType_def kCmdPlace_def kCmdRemove_def kCmdToggle_def kMsgResyncReq_def)
  moreover have "onCommandBody False (hd ?bs) (tl ?bs) sid n =
      (n, [DeliverCommands [\<lparr>cmdPlayerId = playerId c, cmdType = ty, cmdX = x, cmdY = y\<rparr>], AwaitType sid])"
    using t(2) assms(3,4) by (simp add: onCommandBody_def commandBytes_fields Let_def)
  ultimately show ?thesis using commandBytes_fields(2) by blast
qed

theorem command_round_trip_witness:
  "\<exists>bs. sendRemoveCell 3 (-4) (newClient\<lparr>playerId := 7, tcpState := Connected\<rparr>) = [TcpWrite bs] \<and>
    onCommandBody False (hd bs) (tl bs) 1 (manager sampleRun) =
      (manager sampleRun, [DeliverCommands [\<lparr>cmdPlayerId = 7, cmdType = RemoveCell, cmdX = 3, cmdY = -4\<rparr>],
         AwaitType 1])"
  using command_round_trip [of sendRemoveCell RemoveCell "newClient\<lparr>playerId := 7, tcpState := Connected\<rparr>"
      "manager sampleRun" 1 3 "-4"]
  by (auto simp: isConnected_def playerOf_def sampleRun_eq sampleSession_def)

text \<open>
  A command in the name of another player than the session's is dropped: nothing is handed
  on, the manager is unchanged, and the session goes on reading.
\<close>

theorem spoofed_command_dropped:
  assumes "p \<noteq> playerOf n sid"
  shows "onCommandBody False t (tl (commandBytes t p x y)) sid n = (n, [AwaitType sid])"
  using assms by (simp add: onCommandBody_def commandBytes_fields Let_def)

theorem spoofed_command_dropped_witness:
  "onCommandBody False 0 (tl (commandBytes 0 8 1 1)) 1 (manager sampleRun) = (manager sampleRun, [AwaitType 1])"
  using spoofed_command_dropped [of 8 "manager sampleRun" 1 0 1 1]
  by (simp add: playerOf_def sampleRun_eq sampleSession_def)

subsection \<open>Sequence numbers\<close>

lemma resync_same_seq:
  assumes "isConnected cl" "smallPackets ps" "lastSeqNum cl = Some s"
  shows "filter (\<lambda>e. e = TcpWrite [kMsgResyncReq])
      (snd (onUdpReadyRead (map (\<lambda>(c, es). encodePacket s kFlagDelta c es) ps) cl)) =
    replicate (length ps) (TcpWrite [kMsgResyncReq])"
  using assms
proof (induction ps arbitrary: cl)
  case Nil
  then show ?case by simp
next
  case (Cons p ps)
  obtain c es where p: "p = (c, es)" by fastforce
  have "kFlagDelta \<noteq> kFlagFull" by (simp add: kFlagDelta_def kFlagFull_def)
  then have "applyDatagram (encodePacket s kFlagDelta c es) cl = (cl\<lparr>lastSeqNum := Some s\<rparr>,
      [TcpWrite [kMsgResyncReq], WorldUpdateReceived s False (coordX c) (coordY c) (map toUpdate (map entryUpdate es))])"
    using parse_encodePacket [of es s kFlagDelta c "[]"] Cons.prems p
    by (simp add: applyDatagram_def sendResync_def Let_def)
  moreover have "isConnected (cl\<lparr>lastSeqNum := Some s\<rparr>)" using Cons.prems(1) by (simp add: isConnected_def)
  ultimately show ?case
    using Cons.IH [of "cl\<lparr>lastSeqNum := Some s\<rparr>"] Cons.prems(2) p by (simp add: Let_def case_prod_beta)
qed

text \<open>
  C36. Deltas of several packets look like losses to the client: all packets of a tick carry the
  tick's number, and a connected client that is in step (it has seen the previous tick) asks
  for a resync at each of them but the first, although nothing was lost.
\<close>

theorem multi_packet_delta_resyncs:
  assumes "isConnected cl" "smallPackets ps" "lastSeqNum cl = Some s"
  shows "filter (\<lambda>e. e = TcpWrite [kMsgResyncReq])
      (snd (onUdpReadyRead (map (\<lambda>(c, es). encodePacket (s + 1) kFlagDelta c es) ps) cl)) =
    replicate (length ps - 1) (TcpWrite [kMsgResyncReq])"
proof (cases ps)
  case Nil
  then show ?thesis by simp
next
  case (Cons p ps')
  obtain c es where p: "p = (c, es)" by fastforce
  have "applyDatagram (encodePacket (s + 1) kFlagDelta c es) cl = (cl\<lparr>lastSeqNum := Some (s + 1)\<rparr>,
      [WorldUpdateReceived (s + 1) False (coordX c) (coordY c) (map toUpdate (map entryUpdate es))])"
    using parse_encodePacket [of es "s + 1" kFlagDelta c "[]"] assms p Cons
    by (simp add: applyDatagram_def Let_def kFlagDelta_def kFlagFull_def)
  moreover have "isConnected (cl\<lparr>lastSeqNum := Some (s + 1)\<rparr>)" using assms(1) by (simp add: isConnected_def)
  ultimately show ?thesis
    using resync_same_seq [of "cl\<lparr>lastSeqNum := Some (s + 1)\<rparr>" ps' "s + 1"] assms(2) p Cons
    by (simp add: Let_def case_prod_beta)
qed

theorem multi_packet_delta_resyncs_witness:
  "let e = \<lparr>entryX = 1, entryY = 2, entryAlive = 1, entryOwner = 7\<rparr> in filter (\<lambda>e. e = TcpWrite [kMsgResyncReq])
      (snd (onUdpReadyRead [encodePacket 6 kFlagDelta (coord 0 0) [e], encodePacket 6 kFlagDelta (coord 1 0) [e]]
        (newClient\<lparr>tcpState := Connected, lastSeqNum := Some 5\<rparr>))) = [TcpWrite [kMsgResyncReq]]"
proof -
  let ?e = "\<lparr>entryX = 1, entryY = 2, entryAlive = 1, entryOwner = 7\<rparr>"
  show ?thesis
  using multi_packet_delta_resyncs [of "newClient\<lparr>tcpState := Connected, lastSeqNum := Some 5\<rparr>"
      "[(coord 0 0, [?e]), (coord 1 0, [?e])]" 5]
    by (simp add: isConnected_def smallPackets_def Let_def)
qed

end
