(* ===== verification/Game_Spec.thy ===== *)
theory Game_Spec
  imports Game_Server
begin

section \<open>What the server promises: a game on one grid\<close>

text \<open>
  The abstract game has no chunks, buffers, borders or tasks: a grid of cells, one rule, and
  commands that each change one cell and one balance. The theorems say that the server's tick
  is this game's tick, and what each command does, when it is refused included.
\<close>

type_synonym Grid = "int \<Rightarrow> int \<Rightarrow> CellState"

definition lifeStep :: "Grid \<Rightarrow> Grid" where
  "lifeStep g = (\<lambda>X Y. lifeRule (g X Y) (map (\<lambda>(dx, dy). g (X + dx) (Y + dy)) neighbourOffsets))"

definition specCommand :: "PlayerCommand \<Rightarrow> Grid \<times> ResourceManager \<Rightarrow> Grid \<times> ResourceManager" where
  "specCommand cmd gr = (case gr of (g, r) \<Rightarrow>
     (let X = sint (cmdX cmd); Y = sint (cmdY cmd);
          (cell', r') = commandEffect (cmdType cmd) (cmdPlayerId cmd) (g X Y) r
      in (\<lambda>X' Y'. if sameCoord X' X \<and> sameCoord Y' Y then cell' else g X' Y', r')))"

definition specTick :: "PlayerCommand list \<Rightarrow> Grid \<times> ResourceManager \<Rightarrow> Grid \<times> ResourceManager" where
  "specTick cmds gr = fold specCommand cmds (lifeStep (fst gr), snd gr)"

text \<open>The positions the chunk coordinates reach, each once, and a player's live cells there.\<close>

definition inRange :: "int \<Rightarrow> bool" where
  "inRange X \<longleftrightarrow> - (2 ^ 37) \<le> X \<and> X < 2 ^ 37"

definition gridLive :: "Grid \<Rightarrow> PlayerId \<Rightarrow> nat" where
  "gridLive g p = card {(X, Y). inRange X \<and> inRange Y \<and> alive (g X Y) \<and> owner (g X Y) = p}"

subsection \<open>Counting by chunk is counting on the grid\<close>

lemma chunk_bounds: "- (2 ^ 31) \<le> sint (c :: u32) \<and> sint c < 2 ^ 31"
  using sint_ge [of c] sint_less [of c] by simp

lemma inRange_block:
  assumes "0 \<le> l" "l < 64"
  shows "inRange (64 * sint (c :: u32) + l)"
proof -
  have "- 2147483648 \<le> sint c" "sint c < 2147483648" using chunk_bounds [of c] by simp_all
  moreover have "(2::int) ^ 37 = 137438953472" by simp
  ultimately show ?thesis using assms unfolding inRange_def by linarith
qed

lemma sint_chunk:
  assumes "inRange X"
  shows "sint (word_of_int (X div 64) :: u32) = X div 64"
proof -
  have "- 137438953472 \<le> X" "X < 137438953472" using assms unfolding inRange_def by simp_all
  then have "- 2147483648 \<le> X div 64" "X div 64 < 2147483648" by presburger+
  then have "signed_take_bit (LENGTH(32) - 1) (X div 64) = X div 64"
    by (intro signed_take_bit_int_eq_self) simp_all
  then show ?thesis by (simp only: sint_sbintrunc')
qed

lemma keyAt_block:
  assumes "0 \<le> lx" "lx < 64" "0 \<le> ly" "ly < 64"
  shows "keyAt (64 * sint (coordX k) + lx) (64 * sint (coordY k) + ly) = (k :: ChunkCoord)"
  using assms by (simp add: keyAt_def)

lemma liveCellsOf_grid:
  assumes "wf_world w"
  shows "liveCellsOf w p = gridLive (cellAt w) p"
proof -
  let ?S = "\<lambda>ch. {(x, y). x < 64 \<and> y < 64 \<and> alive (getCell ch x y) \<and> owner (getCell ch x y) = p}"
  let ?G = "{(X, Y). inRange X \<and> inRange Y \<and> alive (cellAt w X Y) \<and> owner (cellAt w X Y) = p}"
  let ?P = "SIGMA e : set (chunks w). ?S (snd e)"
  let ?f = "\<lambda>(e, x, y). (64 * sint (coordX (fst e)) + int x, 64 * sint (coordY (fst e)) + int y)"
  let ?g = "\<lambda>(X, Y). ((keyAt X Y, the (tryGetChunk (keyAt X Y) w)), nat (X mod 64), nat (Y mod 64))"
  have d: "distinct (chunks w)" "distinct (map fst (chunks w))"
    using assms by (auto simp: wf_world_def distinct_map)
  have get: "tryGetChunk k w = Some ch" if "(k, ch) \<in> set (chunks w)" for k ch
    using that d(2) by (simp add: tryGetChunk_def)
  have block: "keyAt (64 * sint (coordX k) + int x) (64 * sint (coordY k) + int y) = k"
    "(64 * sint (coordX k) + int x) mod 64 = int x"
    if "x < 64" "y < 64" for k :: ChunkCoord and x y
    using that by (simp_all add: keyAt_def)
  have "bij_betw ?f ?P ?G"
  proof (rule bij_betw_byWitness [where f' = ?g])
    show "\<forall>a \<in> ?P. ?g (?f a) = a"
      by (auto simp: block get)
    show "\<forall>a \<in> ?G. ?f (?g a) = a"
      by (auto simp: keyAt_def sint_chunk)
    show "?f ` ?P \<subseteq> ?G"
    proof (rule image_subsetI)
      fix a assume "a \<in> ?P"
      then obtain k ch x y where a: "a = ((k, ch), x, y)" "(k, ch) \<in> set (chunks w)" "x < 64" "y < 64"
        "alive (getCell ch x y)" "owner (getCell ch x y) = p"
        by (cases a) auto
      then have "cellAt w (64 * sint (coordX k) + int x) (64 * sint (coordY k) + int y) = getCell ch x y"
        by (simp add: cellAt_def block get readOrDead_def)
      with a show "?f a \<in> ?G" by (simp add: inRange_block)
    qed
    show "?g ` ?G \<subseteq> ?P"
      by (auto simp: cellAt_def readOrDead_def tryGetChunk_def dest: map_of_SomeD split: option.splits)
  qed
  then have "card ?G = card ?P" by (simp add: bij_betw_same_card)
  also have "finite (?S ch)" for ch
    by (rule finite_subset [of _ "{0..<64} \<times> {0..<64}"]) auto
  then have "card ?P = (\<Sum>e \<in> set (chunks w). card (?S (snd e)))" by (intro card_SigmaI) auto
  also have "\<dots> = sum_list (map (\<lambda>e. card (?S (snd e))) (chunks w))"
    using d(1) by (simp add: sum_list_distinct_conv_sum_set)
  also have "\<dots> = liveCellsOf w p"
    by (simp add: liveCellsOf_def allChunks_def liveCellsIn_def comp_def)
  finally show ?thesis by (simp add: gridLive_def)
qed

subsection \<open>The tick\<close>

lemma specCommand_applyCommand:
  assumes "wf_world w"
  shows "specCommand cmd (cellAt w, r) =
    (cellAt (fst (applyCommand cmd (w, r))), snd (applyCommand cmd (w, r)))"
proof -
  have "cellAt (fst (applyCommand cmd (w, r))) = (\<lambda>X Y.
      if sameCoord X (sint (cmdX cmd)) \<and> sameCoord Y (sint (cmdY cmd))
      then fst (commandEffect (cmdType cmd) (cmdPlayerId cmd) (cellAt w (sint (cmdX cmd)) (sint (cmdY cmd))) r)
      else cellAt w X Y)"
    by (intro ext cellAt_applyCommand assms)
  then show ?thesis by (auto simp: specCommand_def snd_applyCommand Let_def case_prod_beta fun_eq_iff)
qed

interpretation spec: refinement "\<lambda>wr. wf_world (fst wr)" applyCommand
  "\<lambda>wr. (cellAt (fst wr), snd wr)" specCommand
  by unfold_locales
    (auto simp: wf_applyCommand specCommand_applyCommand split: prod.splits)

lemma specCommands:
  "wf_world (fst wr) \<Longrightarrow> fold specCommand cmds (cellAt (fst wr), snd wr) =
     (cellAt (fst (applyCommands cmds wr)), snd (applyCommands cmds wr))"
  by (simp add: applyCommands_def flip: spec.abst_run)

lemma specTick_afterCommands:
  assumes "wf_server s"
  shows "specTick (queue (commandQueue s)) (cellAt (world s), resources s) =
    (cellAt (fst (afterCommands s)), snd (afterCommands s))"
proof -
  have w: "wf_world (world s)" using assms by (simp add: wf_server_def)
  have "lifeStep (cellAt (world s)) = cellAt (simulateGeneration (world s))"
    unfolding lifeStep_def by (intro ext) (simp add: simulateGeneration_life [OF w])
  then show ?thesis
    using specCommands [of "(simulateGeneration (world s), resources s)" "queue (commandQueue s)"]
      wf_simulateGeneration [OF w]
    by (simp add: specTick_def afterCommands_def)
qed

text \<open>
  A tick of the server is a tick of the abstract game: the cells after it are those of the
  game's rule applied to the whole grid at once, then the queued commands in order; every
  player's balance is the game's plus one for each of the player's live cells (modulo
  \<open>2 ^ 64\<close>); the command queue is empty and the tick counter one higher.
\<close>

theorem onTick_refines_game:
  assumes "wf_server s"
  shows "(let (grid, balances) = specTick (queue (commandQueue s)) (cellAt (world s), resources s)
    in cellAt (world (fst (onTick s))) = grid \<and>
       (\<forall>p. p \<noteq> 0 \<longrightarrow> getBalance (resources (fst (onTick s))) p = getBalance balances p + of_nat (gridLive grid p)) \<and>
       queue (commandQueue (fst (onTick s))) = [] \<and>
       broadcastSeq (fst (onTick s)) = broadcastSeq s + 1)"
proof -
  have "cellAt (world (fst (onTick s))) = cellAt (fst (afterCommands s))"
    by (intro ext) (rule cellAt_onTick)
  moreover have "getBalance (resources (fst (onTick s))) p =
      getBalance (snd (afterCommands s)) p + of_nat (gridLive (cellAt (fst (afterCommands s))) p)"
    if "p \<noteq> 0" for p
    using balance_onTick [OF that] liveCellsOf_grid [OF wf_afterCommands(1) [OF assms]] by simp
  moreover have "queue (commandQueue (fst (onTick s))) = []" "broadcastSeq (fst (onTick s)) = broadcastSeq s + 1"
    by (simp_all add: onTick_state emptyQueue_def)
  ultimately show ?thesis by (simp add: specTick_afterCommands [OF assms])
qed

lemma cellAt_newWorld: "cellAt newWorld X Y = deadCell"
  by (simp add: cellAt_def newWorld_def tryGetChunk_def readOrDead_def)

lemma lifeStep_dead: "lifeStep (\<lambda>X Y. deadCell) = (\<lambda>X Y. deadCell)"
  by (simp add: lifeStep_def lifeRule_isolated ownersOf_def isOwned_def case_prod_beta)

definition placeSample :: PlayerCommand where
  "placeSample = \<lparr>cmdPlayerId = 7, cmdType = PlaceCell, cmdX = 3, cmdY = -4\<rparr>"

theorem onTick_refines_game_witness:
  "cellAt (world (fst (onTick (onCommandsFromNetwork [placeSample] (onPlayerJoined 7 (newGameServer BoostNetwork))))))
     3 (-4) = \<lparr>alive = True, owner = 7\<rparr>"
proof -
  let ?s = "onCommandsFromNetwork [placeSample] (onPlayerJoined 7 (newGameServer BoostNetwork))"
  have s: "world ?s = newWorld" "resources ?s = \<lparr>balances = [(7, 10)]\<rparr>" "queue (commandQueue ?s) = [placeSample]"
    by (simp_all add: onCommandsFromNetwork_def onPlayerJoined_def newGameServer_def addPlayer_def
        newResourceManager_def kStartBalance_def push_def emptyQueue_def)
  have "wf_server ?s"
    unfolding wf_server_def s by (simp add: wf_newWorld wf_resources_def)
  from onTick_refines_game [OF this]
  have "cellAt (world (fst (onTick ?s))) = fst (specTick [placeSample] (cellAt newWorld, \<lparr>balances = [(7, 10)]\<rparr>))"
    unfolding s by (simp add: case_prod_beta Let_def)
  moreover have "cellAt newWorld = (\<lambda>X Y. deadCell)" by (intro ext) (rule cellAt_newWorld)
  ultimately show ?thesis
    by (simp add: specTick_def lifeStep_dead specCommand_def placeSample_def trySpend_def kPlaceCost_def
        sameCoord_def Let_def case_prod_beta)
qed

subsection \<open>What each command does\<close>

text \<open>Every other cell keeps its state and every other player the balance.\<close>

definition onlyChanges :: "PlayerCommand \<Rightarrow> World \<times> ResourceManager \<Rightarrow> World \<times> ResourceManager \<Rightarrow> bool" where
  "onlyChanges cmd wr wr' \<longleftrightarrow>
     (\<forall>X Y. \<not> (sameCoord X (sint (cmdX cmd)) \<and> sameCoord Y (sint (cmdY cmd))) \<longrightarrow>
        cellAt (fst wr') X Y = cellAt (fst wr) X Y) \<and>
     (\<forall>q. q \<noteq> cmdPlayerId cmd \<longrightarrow> getBalance (snd wr') q = getBalance (snd wr) q)"

abbreviation targetCell :: "PlayerCommand \<Rightarrow> World \<Rightarrow> CellState" where
  "targetCell cmd w \<equiv> cellAt w (sint (cmdX cmd)) (sint (cmdY cmd))"

lemma commandEffect_other:
  "q \<noteq> p \<Longrightarrow> getBalance (snd (commandEffect t p cell r)) q = getBalance r q"
  by (cases t) (auto simp: case_prod_beta Let_def accounts.spend_other accounts.award_other)

lemma onlyChanges_applyCommand:
  "wf_world w \<Longrightarrow> onlyChanges cmd (w, r) (applyCommand cmd (w, r))"
  by (auto simp: onlyChanges_def cellAt_applyCommand snd_applyCommand commandEffect_other)

lemma target_applyCommand:
  "wf_world w \<Longrightarrow> targetCell cmd (fst (applyCommand cmd (w, r))) =
     fst (commandEffect (cmdType cmd) (cmdPlayerId cmd) (targetCell cmd w) r)"
  by (simp add: cellAt_applyCommand sameCoord_def)

text \<open>
  C15. Placing a cell: it succeeds exactly on a cell without owner, for a known player with at
  least the price; then the cell is alive and the player's, and the price is gone from the
  balance without underflow; otherwise cell and balance are as before. Nothing else changes.
\<close>

theorem place_command:
  assumes "wf_world w" "cmdType cmd = PlaceCell"
  shows "(let p = cmdPlayerId cmd; wr = applyCommand cmd (w, r) in
    (if owner (targetCell cmd w) = 0 \<and> knownPlayer r p \<and> kPlaceCost \<le> getBalance r p
     then targetCell cmd (fst wr) = \<lparr>alive = True, owner = p\<rparr> \<and>
       unat (getBalance (snd wr) p) + unat kPlaceCost = unat (getBalance r p)
     else targetCell cmd (fst wr) = targetCell cmd w \<and> snd wr = r) \<and> onlyChanges cmd (w, r) wr)"
proof -
  define p where "p = cmdPlayerId cmd"
  show ?thesis
    unfolding Let_def target_applyCommand [OF assms(1)] snd_applyCommand assms(2) p_def [symmetric]
    using onlyChanges_applyCommand [OF assms(1)] accounts.spend_no_underflow [of p kPlaceCost r]
      accounts.spend_iff [of p kPlaceCost r] accounts.spend_refused [of r p kPlaceCost]
    by (auto simp: case_prod_beta Let_def)
qed

theorem place_command_witness:
  "getBalance (snd (applyCommand placeSample (newWorld, snd (addPlayer 7 newResourceManager)))) 7 = 8"
proof -
  let ?r = "snd (addPlayer 7 newResourceManager)"
  let ?b = "getBalance (snd (applyCommand placeSample (newWorld, ?r))) 7"
  have known: "knownPlayer ?r 7" "getBalance ?r 7 = 10"
    by (simp_all add: addPlayer_def newResourceManager_def knownPlayer_def getPlayerIds_def
        getBalance_def kStartBalance_def)
  have "cmdType placeSample = PlaceCell" "cmdPlayerId placeSample = 7" by (simp_all add: placeSample_def)
  then have "unat ?b + unat kPlaceCost = unat (10 :: u64)"
    using place_command [OF wf_newWorld, of placeSample ?r] known
    by (simp add: cellAt_newWorld kPlaceCost_def word_le_nat_alt Let_def)
  then have "unat ?b = unat (8 :: u64)" by (simp add: kPlaceCost_def)
  then show ?thesis by (simp only: word_unat_eq_iff)
qed

text \<open>
  Removing a cell: it succeeds exactly on a cell the player owns, for a known player; then
  the cell is dead and without owner and the award is added to the balance (modulo \<open>2 ^ 64\<close>);
  otherwise cell and balance are as before. Nothing else changes.
\<close>

theorem remove_command:
  assumes "wf_world w" "cmdType cmd = RemoveCell"
  shows "(let p = cmdPlayerId cmd; wr = applyCommand cmd (w, r) in
    (if owner (targetCell cmd w) = p \<and> knownPlayer r p
     then targetCell cmd (fst wr) = deadCell \<and> getBalance (snd wr) p = getBalance r p + kRemoveAward
     else targetCell cmd (fst wr) = targetCell cmd w \<and> snd wr = r) \<and> onlyChanges cmd (w, r) wr)"
proof -
  define p where "p = cmdPlayerId cmd"
  show ?thesis
    unfolding Let_def target_applyCommand [OF assms(1)] snd_applyCommand assms(2) p_def [symmetric]
    using onlyChanges_applyCommand [OF assms(1)] accounts.award_ok [of r p kRemoveAward]
      accounts.award_refused [of r p kRemoveAward]
    by (auto simp: case_prod_beta Let_def deadCell_def)
qed

theorem remove_command_witness:
  "snd (applyCommand (placeSample\<lparr>cmdType := RemoveCell\<rparr>) (newWorld, snd (addPlayer 7 newResourceManager))) =
     snd (addPlayer 7 newResourceManager)"
  using remove_command [OF wf_newWorld, of "placeSample\<lparr>cmdType := RemoveCell\<rparr>" "snd (addPlayer 7 newResourceManager)"]
  by (simp add: cellAt_newWorld placeSample_def Let_def)

text \<open>
  Toggling a cell: on a cell without owner or of the player, a live cell is removed for the
  award and a dead one placed for the price, with the conditions of those commands; on
  anybody else's cell, or when refused, cell and balance are as before. Nothing else changes.
\<close>

theorem toggle_command:
  assumes "wf_world w" "cmdType cmd = ToggleCell"
  shows "(let p = cmdPlayerId cmd; wr = applyCommand cmd (w, r) in
    (if owner (targetCell cmd w) \<in> {0, p} \<and> knownPlayer r p \<and>
       (alive (targetCell cmd w) \<or> kPlaceCost \<le> getBalance r p)
     then (if alive (targetCell cmd w)
       then targetCell cmd (fst wr) = deadCell \<and> getBalance (snd wr) p = getBalance r p + kRemoveAward
       else targetCell cmd (fst wr) = \<lparr>alive = True, owner = p\<rparr> \<and>
         unat (getBalance (snd wr) p) + unat kPlaceCost = unat (getBalance r p))
     else targetCell cmd (fst wr) = targetCell cmd w \<and> snd wr = r) \<and> onlyChanges cmd (w, r) wr)"
proof -
  define p where "p = cmdPlayerId cmd"
  show ?thesis
    unfolding Let_def target_applyCommand [OF assms(1)] snd_applyCommand assms(2) p_def [symmetric]
    using onlyChanges_applyCommand [OF assms(1)] accounts.award_ok [of r p kRemoveAward]
      accounts.award_refused [of r p kRemoveAward] accounts.spend_no_underflow [of p kPlaceCost r]
      accounts.spend_iff [of p kPlaceCost r] accounts.spend_refused [of r p kPlaceCost]
    by (cases "alive (targetCell cmd w)") (auto simp: case_prod_beta Let_def deadCell_def)
qed

theorem toggle_command_witness:
  "cellAt (fst (applyCommand (placeSample\<lparr>cmdType := ToggleCell\<rparr>) (newWorld, snd (addPlayer 7 newResourceManager))))
     3 (-4) = \<lparr>alive = True, owner = 7\<rparr>"
  using toggle_command [OF wf_newWorld, of "placeSample\<lparr>cmdType := ToggleCell\<rparr>" "snd (addPlayer 7 newResourceManager)"]
  by (simp add: cellAt_newWorld placeSample_def addPlayer_def newResourceManager_def knownPlayer_def
      getPlayerIds_def getBalance_def kStartBalance_def kPlaceCost_def word_le_nat_alt Let_def)

subsection \<open>Corners of the rules\<close>

text \<open>
  Coordinates of commands are only told apart modulo \<open>2 ^ 38\<close>: two commands of one player
  and kind whose 64-bit coordinates differ by multiples of it have the same effect, since
  the chunk coordinate is cut to 32 bits.
\<close>

theorem command_coordinates_wrap:
  assumes "sameCoord (sint (cmdX c1)) (sint (cmdX c2))" "sameCoord (sint (cmdY c1)) (sint (cmdY c2))"
    "cmdType c1 = cmdType c2" "cmdPlayerId c1 = cmdPlayerId c2"
  shows "applyCommand c1 (w, r) = applyCommand c2 (w, r)"
proof -
  have "keyAt (sint (cmdX c1)) (sint (cmdY c1)) = keyAt (sint (cmdX c2)) (sint (cmdY c2)) \<and>
      nat (sint (cmdX c1) mod 64) = nat (sint (cmdX c2) mod 64) \<and>
      nat (sint (cmdY c1) mod 64) = nat (sint (cmdY c2) mod 64)"
    using assms(1,2) by (simp only: keyAt_eq_iff simp_thms)
  moreover have "targetCell c1 w = targetCell c2 w" using assms(1,2) by (rule cellAt_sameCoord)
  ultimately show ?thesis using assms(3,4) by (simp add: applyCommand_unfold Let_def)
qed

theorem command_coordinates_wrap_witness:
  "applyCommand (placeSample\<lparr>cmdX := 3 + 2 ^ 38\<rparr>) (newWorld, newResourceManager) =
     applyCommand placeSample (newWorld, newResourceManager)"
  by (rule command_coordinates_wrap) (simp_all add: placeSample_def sameCoord_def)

text \<open>
  Identifier 0, which stands for "no owner", is not refused as a player: once known, player 0
  collects the removal award for every cell nobody owns, live or dead, without limit.
\<close>

theorem player_zero_collects:
  assumes "wf_world w" "cmdType cmd = RemoveCell" "cmdPlayerId cmd = 0"
    "owner (targetCell cmd w) = 0" "knownPlayer r 0"
  shows "getBalance (snd (applyCommand cmd (w, r))) 0 = getBalance r 0 + kRemoveAward \<and>
    owner (targetCell cmd (fst (applyCommand cmd (w, r)))) = 0"
  using accounts.award_ok [OF assms(5), of kRemoveAward] assms(2-4)
  by (simp add: target_applyCommand [OF assms(1)] snd_applyCommand case_prod_beta Let_def)

theorem player_zero_collects_witness:
  "getBalance (snd (applyCommand (placeSample\<lparr>cmdPlayerId := 0, cmdType := RemoveCell\<rparr>)
     (newWorld, snd (addPlayer 0 newResourceManager)))) 0 = 11"
  using player_zero_collects [OF wf_newWorld, of "placeSample\<lparr>cmdPlayerId := 0, cmdType := RemoveCell\<rparr>"
      "snd (addPlayer 0 newResourceManager)"]
  by (simp add: cellAt_newWorld placeSample_def addPlayer_def newResourceManager_def knownPlayer_def
      getPlayerIds_def getBalance_def kStartBalance_def kRemoveAward_def)

text \<open>
  A player who reconnects starts over: the handshake's callback sets the balance to the start
  balance, whatever it was, and leaves the other balances and the world alone.
\<close>

theorem rejoin_resets_balance:
  "getBalance (resources (onPlayerJoined p s)) q = (if q = p then 10 else getBalance (resources s) q) \<and>
   world (onPlayerJoined p s) = world s"
  by (simp add: onPlayerJoined_def getBalance_addPlayer kStartBalance_def)

subsection \<open>One chunk\<close>

text \<open>
  C16. The generation step of a chunk: after \<open>calculateNext\<close> and \<open>swapBuffers\<close> every inner cell
  holds what the rule makes of its old state and its eight neighbours in the storage with the
  ghost ring, and the dirty list has grown by exactly the positions that changed, row by row.
\<close>

theorem chunk_generation:
  assumes "wf_chunk c"
  shows "(\<forall>x < 64. \<forall>y < 64. getCell (swapBuffers (calculateNext c)) x y =
      lifeRule (getCell c x y) (map (\<lambda>(dx, dy).
        getGhostCell c (nat (int (x + 1) + dx)) (nat (int (y + 1) + dy))) neighbourOffsets)) \<and>
    dirtyCells (swapBuffers (calculateNext c)) = dirtyCells c @
      map (\<lambda>(x, y). (word_of_nat x, word_of_nat y))
        (filter (\<lambda>(x, y). getCell (swapBuffers (calculateNext c)) x y \<noteq> getCell c x y) (row_major 64 64))"
proof
  have g: "getCell c x y = currentBuffer c ! index (x + 1) (y + 1)" for x y
    by (simp add: getCell_def)
  have n: "neighbourCells (currentBuffer c) (x + 1) (y + 1) = map (\<lambda>(dx, dy).
        getGhostCell c (nat (int (x + 1) + dx)) (nat (int (y + 1) + dy))) neighbourOffsets" for x y
    by (simp only: neighbourCells_def getGhostCell_def)
  show "\<forall>x < 64. \<forall>y < 64. getCell (swapBuffers (calculateNext c)) x y =
      lifeRule (getCell c x y) (map (\<lambda>(dx, dy).
        getGhostCell c (nat (int (x + 1) + dx)) (nat (int (y + 1) + dy))) neighbourOffsets)"
  proof (intro allI impI)
    fix x y :: nat assume "x < 64" "y < 64"
    then have "getCell (swapBuffers (calculateNext c)) x y = fst (stepCell (currentBuffer c) (x, y))"
      by (rule getCell_next [OF assms])
    then show "getCell (swapBuffers (calculateNext c)) x y = lifeRule (getCell c x y) (map (\<lambda>(dx, dy).
        getGhostCell c (nat (int (x + 1) + dx)) (nat (int (y + 1) + dy))) neighbourOffsets)"
      by (simp only: stepCell_lifeRule g n)
  qed
  have "filter (\<lambda>p. snd (stepCell (currentBuffer c) p)) (row_major 64 64) =
      filter (\<lambda>(x, y). getCell (swapBuffers (calculateNext c)) x y \<noteq> getCell c x y) (row_major 64 64)"
    by (intro filter_cong refl)
      (auto simp only: getCell_next [OF assms] stepCell_changed g set_row_major mem_Sigma_iff
        atLeastLessThan_iff split: prod.splits)
  then show "dirtyCells (swapBuffers (calculateNext c)) = dirtyCells c @
      map (\<lambda>(x, y). (word_of_nat x, word_of_nat y))
        (filter (\<lambda>(x, y). getCell (swapBuffers (calculateNext c)) x y \<noteq> getCell c x y) (row_major 64 64))"
    by (simp add: calculateNext_eq)
qed

theorem chunk_generation_witness:
  "getCell (swapBuffers (calculateNext newChunk)) 5 63 = deadCell"
proof -
  have "getGhostCell newChunk sx sy = deadCell" if "sx < 66" "sy < 66" for sx sy
    using that index_bound [of sx sy] by (simp add: getGhostCell_def newChunk_def)
  then have "ownersOf (map (\<lambda>(dx, dy). getGhostCell newChunk (nat (int (5 + 1) + dx)) (nat (int (63 + 1) + dy)))
      neighbourOffsets) = []"
    by (simp add: neighbourOffsets_def ownersOf_def isOwned_def)
  then show ?thesis
    using chunk_generation [OF wf_newChunk] lifeRule_isolated [of _ deadCell] by simp
qed

text \<open>
  C17. The neighbour count: the loop over the eight neighbours with its ordered tally returns how
  many are alive and owned, and, when there are any, an owner among them that has the most
  of them and, among those with as many, the largest identifier.
\<close>

theorem neighbour_majority:
  "(let os = ownersOf (neighbourCells current sx sy); (n, k) = neighborAliveCount current sx sy
    in n = length os \<and> (os \<noteq> [] \<longrightarrow> k \<in> set os \<and>
      (\<forall>j \<in> set os. count_list os j \<le> count_list os k \<and>
        (count_list os j = count_list os k \<longrightarrow> j \<le> k))))"
proof -
  have best: "majorityOwner os \<in> set os \<and> (\<forall>j \<in> set os. count_list os j \<le> count_list os (majorityOwner os) \<and>
      (count_list os j = count_list os (majorityOwner os) \<longrightarrow> j \<le> majorityOwner os))" if "os \<noteq> []" for os
  proof -
    let ?B = "set (filter (\<lambda>k. \<forall>k' \<in> set os. count_list os k' \<le> count_list os k) os)"
    have m: "majorityOwner os = Max ?B" using that by (simp add: majorityOwner_def)
    have "?B \<noteq> {}"
    proof -
      have "Max (count_list os ` set os) \<in> count_list os ` set os" using that by (intro Max_in) auto
      then obtain k where "k \<in> set os" "count_list os k = Max (count_list os ` set os)" by force
      then have "k \<in> ?B" by auto
      then show ?thesis by (metis empty_iff)
    qed
    then have in_B: "majorityOwner os \<in> ?B" unfolding m by (intro Max_in) auto
    have "j \<le> majorityOwner os" if "j \<in> set os" "count_list os j = count_list os (majorityOwner os)" for j
      unfolding m by (rule Max_ge) (use that in_B m in auto)
    with in_B show ?thesis by auto
  qed
  then show ?thesis by (simp add: neighborAliveCount_eq Let_def)
qed

theorem neighbour_majority_witness:
  "fst (neighborAliveCount (replicate 4356 \<lparr>alive = True, owner = 7\<rparr>) 5 5) = 8"
proof -
  have "neighbourCells (replicate 4356 \<lparr>alive = True, owner = 7\<rparr>) 5 5 = replicate 8 \<lparr>alive = True, owner = 7\<rparr>"
    by (simp add: neighbourCells_def neighbourOffsets_def index_eq eval_nat_numeral)
  then show ?thesis
    using neighbour_majority [of "replicate 4356 \<lparr>alive = True, owner = 7\<rparr>" 5 5]
    by (simp add: ownersOf_def isOwned_def case_prod_beta Let_def)
qed

end
