(* ===== verification/Dirty_Tracking.thy ===== *)
theory Dirty_Tracking
  imports Game_Spec
begin

section \<open>Every change of a cell is on its chunk's dirty list\<close>

text \<open>
  The serializer sends only the cells on the dirty lists, so a delta is complete when every
  operation that changes a cell lists its position, and sound when every listed position is
  inside the chunk. Both are shown for the operations of a chunk, then for the world, then for
  the whole tick.
\<close>

declare One_nat_def [simp del] \<comment> \<open>positions are written \<open>x + 1\<close>\<close>

definition okDirty :: "Chunk \<Rightarrow> bool" where
  "okDirty ch \<longleftrightarrow> (\<forall>(x, y) \<in> set (dirtyCells ch). unat x < 64 \<and> unat y < 64)"

definition trackedChunk :: "Chunk \<Rightarrow> Chunk \<Rightarrow> bool" where
  "trackedChunk ch ch' \<longleftrightarrow> set (dirtyCells ch) \<subseteq> set (dirtyCells ch') \<and> (okDirty ch \<longrightarrow> okDirty ch') \<and>
     (\<forall>x < 64. \<forall>y < 64. getCell ch' x y \<noteq> getCell ch x y \<longrightarrow>
       (word_of_nat x, word_of_nat y) \<in> set (dirtyCells ch'))"

lemma trackedChunk_refl [simp]: "trackedChunk ch ch"
  by (simp add: trackedChunk_def)

lemma trackedChunk_trans:
  assumes ab: "trackedChunk a b" and bc: "trackedChunk b c"
  shows "trackedChunk a c"
  unfolding trackedChunk_def
proof (intro conjI allI impI)
  from ab bc show "set (dirtyCells a) \<subseteq> set (dirtyCells c)" "okDirty a \<Longrightarrow> okDirty c"
    by (auto simp: trackedChunk_def)
  fix x y :: nat assume xy: "x < 64" "y < 64" and "getCell c x y \<noteq> getCell a x y"
  then consider "getCell c x y \<noteq> getCell b x y" | "getCell b x y \<noteq> getCell a x y" by force
  then show "(word_of_nat x, word_of_nat y) \<in> set (dirtyCells c)"
    by cases (use ab bc xy in \<open>auto simp: trackedChunk_def\<close>)
qed

lemma trackedChunk_same:
  assumes "dirtyCells ch' = dirtyCells ch" "\<And>x y. x < 64 \<Longrightarrow> y < 64 \<Longrightarrow> getCell ch' x y = getCell ch x y"
  shows "trackedChunk ch ch'"
  using assms by (simp add: trackedChunk_def okDirty_def)

lemma unat_byte: "x < 64 \<Longrightarrow> unat (word_of_nat x :: byte) = x"
  by (simp add: unat_of_nat)

lemma trackedChunk_setCell:
  assumes "wf_chunk ch" "x < 64" "y < 64"
  shows "trackedChunk ch (setCell ch x y s)"
  using assms by (auto simp: trackedChunk_def okDirty_def cells.get_put unat_byte split: if_splits)

lemma trackedChunk_ghosts:
  assumes "wf_chunk ch"
  shows "trackedChunk ch (fold (\<lambda>((sx, sy), v) ch. setGhostCell ch sx sy v) (ghostWrites w k) ch)"
proof (rule trackedChunk_same)
  have "dirtyCells (fold (\<lambda>((sx, sy), v) ch. setGhostCell ch sx sy v) ws c) = dirtyCells c" for ws c
    by (induction ws arbitrary: c) auto
  then show "dirtyCells (fold (\<lambda>((sx, sy), v) ch. setGhostCell ch sx sy v) (ghostWrites w k) ch) =
      dirtyCells ch" .
qed (simp add: ghost_fold_getCell assms)

lemma trackedChunk_step:
  assumes "wf_chunk ch"
  shows "trackedChunk ch (swapBuffers (calculateNext ch))"
proof -
  have d: "dirtyCells (swapBuffers (calculateNext ch)) = dirtyCells ch @ map (\<lambda>(x, y). (word_of_nat x, word_of_nat y))
      (filter (\<lambda>p. snd (stepCell (currentBuffer ch) p)) (row_major 64 64))"
    by (simp add: calculateNext_eq)
  have g: "getCell ch x y = currentBuffer ch ! index (x + 1) (y + 1)" for x y
    by (simp add: getCell_def)
  show ?thesis
    unfolding trackedChunk_def okDirty_def d
    using assms by (force simp: getCell_next g stepCell_changed unat_byte)
qed

subsection \<open>The world\<close>

definition chunkOr :: "ChunkCoord \<Rightarrow> World \<Rightarrow> Chunk" where
  "chunkOr k w = (case tryGetChunk k w of None \<Rightarrow> newChunk | Some ch \<Rightarrow> ch)"

definition tracks :: "World \<Rightarrow> World \<Rightarrow> bool" where
  "tracks w w' \<longleftrightarrow> (\<forall>k. trackedChunk (chunkOr k w) (chunkOr k w'))"

lemma tracks_refl [simp]: "tracks w w"
  by (simp add: tracks_def)

lemma tracks_trans: "tracks a b \<Longrightarrow> tracks b c \<Longrightarrow> tracks a c"
  unfolding tracks_def by (blast intro: trackedChunk_trans)

lemma wf_chunkOr: "wf_world w \<Longrightarrow> wf_chunk (chunkOr k w)"
  by (auto simp: chunkOr_def wf_newChunk dest: wf_worldD split: option.splits)

lemma chunkOr_getOrCreate [simp]: "chunkOr k (snd (getOrCreateChunkUnlocked c w)) = chunkOr k w"
  by (simp add: chunkOr_def tryGetChunk_getOrCreate getOrCreateChunk_fst)

lemma tracks_getOrCreate: "tracks w (snd (getOrCreateChunkUnlocked c w))"
  by (simp add: tracks_def)

lemma tracks_modifyChunk:
  assumes "\<And>ch. tryGetChunk c w = Some ch \<Longrightarrow> trackedChunk ch (f ch)"
  shows "tracks w (modifyChunk c f w)"
  using assms by (auto simp: tracks_def chunkOr_def tryGetChunk_modifyChunk split: option.splits)

lemma tracks_applyCommand:
  assumes "wf_world w"
  shows "tracks w (fst (applyCommand cmd (w, r)))"
proof -
  let ?k = "keyAt (sint (cmdX cmd)) (sint (cmdY cmd))"
  let ?w1 = "snd (getOrCreateChunkUnlocked ?k w)"
  have "wf_world ?w1" using assms by (rule wf_getOrCreate)
  then have "tracks ?w1 (modifyChunk ?k (\<lambda>ch. setCell ch (nat (sint (cmdX cmd) mod 64))
      (nat (sint (cmdY cmd) mod 64)) s) ?w1)" for s
    by (intro tracks_modifyChunk trackedChunk_setCell) (auto dest: wf_worldD)
  then show ?thesis
    using tracks_trans [OF tracks_getOrCreate [of w ?k]]
    by (simp add: applyCommand_unfold Let_def case_prod_beta)
qed

lemma tracks_applyCommands:
  "wf_world (fst wr) \<Longrightarrow> tracks (fst wr) (fst (applyCommands cmds wr))"
proof (induction cmds arbitrary: wr)
  case Nil
  then show ?case by simp
next
  case (Cons cmd cmds)
  then have "tracks (fst wr) (fst (applyCommand cmd wr))" "wf_world (fst (applyCommand cmd wr))"
    using tracks_applyCommand [of "fst wr" cmd "snd wr"] wf_applyCommand [of "fst wr" cmd "snd wr"]
    by simp_all
  with Cons.IH [of "applyCommand cmd wr"] show ?case by (auto intro: tracks_trans)
qed

lemma tracks_margin: "tracks w (ensureSimulationMarginUnlocked w)"
proof -
  have "tracks w (fold (\<lambda>c w. snd (getOrCreateChunkUnlocked c w)) cs w)" for cs
    by (induction cs arbitrary: w) (auto intro: tracks_trans tracks_getOrCreate)
  then show ?thesis by (simp add: ensureSimulationMarginUnlocked_def)
qed

lemma tracks_exchangeBorders:
  assumes "wf_world w"
  shows "tracks w (exchangeBorders w)"
proof -
  have step: "tracks w (exchangeChunk c w)" if "wf_world w" for c w
    unfolding exchangeChunk_def
    by (intro tracks_modifyChunk trackedChunk_ghosts wf_worldD [OF that])
  have "tracks w (fold exchangeChunk ks w)" if "wf_world w" for ks w
    using that
    by (induction ks arbitrary: w) (auto intro: tracks_trans step wf_exchangeChunk)
  moreover have "wf_world (ensureSimulationMarginUnlocked w)"
    using margin_fold [OF assms] by (simp add: ensureSimulationMarginUnlocked_def)
  ultimately show ?thesis
    using tracks_trans [OF tracks_margin] by (simp add: exchangeBorders_def Let_def)
qed

lemma tracks_simulateGeneration:
  assumes "wf_world w"
  shows "tracks w (simulateGeneration w)"
proof -
  have "trackedChunk (chunkOr k (exchangeBorders w)) (chunkOr k (simulateGeneration w))" for k
    using wf_worldD [OF exchangeBorders_facts(1) [OF assms], of k]
    by (cases "tryGetChunk k (exchangeBorders w)")
      (simp_all add: chunkOr_def tryGetChunk_simulate [OF assms] trackedChunk_step)
  then have "tracks (exchangeBorders w) (simulateGeneration w)" by (simp add: tracks_def)
  with tracks_exchangeBorders [OF assms] show ?thesis by (rule tracks_trans)
qed

lemma tracks_tick:
  assumes "wf_world (world s)"
  shows "tracks (world s) (fst (afterCommands s))"
  using tracks_trans [OF tracks_simulateGeneration [OF assms]]
    tracks_applyCommands [of "(simulateGeneration (world s), resources s)" "queue (commandQueue s)"]
    wf_simulateGeneration [OF assms]
  by (simp add: afterCommands_def)

lemma cellAt_chunkOr:
  "cellAt w X Y = getCell (chunkOr (keyAt X Y) w) (nat (X mod 64)) (nat (Y mod 64))"
  by (simp add: cellAt_def chunkOr_def readOrDead_def split: option.splits)

text \<open>The dirty lists of a world stay inside the chunks.\<close>

definition okDirtyWorld :: "World \<Rightarrow> bool" where
  "okDirtyWorld w \<longleftrightarrow> (\<forall>k. okDirty (chunkOr k w))"

lemma okDirtyWorld_tracks: "tracks w w' \<Longrightarrow> okDirtyWorld w \<Longrightarrow> okDirtyWorld w'"
  by (auto simp: tracks_def trackedChunk_def okDirtyWorld_def)

lemma okDirtyWorld_new: "okDirtyWorld newWorld"
  by (simp add: okDirtyWorld_def chunkOr_def newWorld_def tryGetChunk_def okDirty_def newChunk_def)

lemma okDirtyWorld_cleared:
  "okDirtyWorld (w\<lparr>chunks := map (\<lambda>(c, ch). (c, clearDirty ch)) (chunks w)\<rparr>)"
proof -
  have "okDirty (clearDirty ch)" for ch by (simp add: okDirty_def clearDirty_def)
  moreover have "okDirty newChunk" by (simp add: okDirty_def newChunk_def)
  ultimately show ?thesis
    by (auto simp: okDirtyWorld_def chunkOr_def tryGetChunk_cleared split: option.splits)
qed

lemma okDirtyWorld_onTick:
  "wf_world (world s) \<Longrightarrow> okDirtyWorld (world s) \<Longrightarrow> okDirtyWorld (world (fst (onTick s)))"
  using okDirtyWorld_tracks [OF tracks_tick] by (simp add: onTick_state okDirtyWorld_cleared)

text \<open>A cell that differs after the commands is on the dirty list of its chunk.\<close>

lemma changed_is_dirty:
  assumes "wf_world (world s)" "cellAt (fst (afterCommands s)) X Y \<noteq> cellAt (world s) X Y"
  shows "\<exists>ch. tryGetChunk (keyAt X Y) (fst (afterCommands s)) = Some ch \<and>
    (word_of_nat (nat (X mod 64)), word_of_nat (nat (Y mod 64))) \<in> set (dirtyCells ch)"
proof -
  have "trackedChunk (chunkOr (keyAt X Y) (world s)) (chunkOr (keyAt X Y) (fst (afterCommands s)))"
    using tracks_tick [OF assms(1)] by (simp add: tracks_def)
  with assms(2) have "(word_of_nat (nat (X mod 64)), word_of_nat (nat (Y mod 64))) \<in>
      set (dirtyCells (chunkOr (keyAt X Y) (fst (afterCommands s))))"
    using mod_64_nat [of X] mod_64_nat [of Y] unfolding trackedChunk_def cellAt_chunkOr by blast
  then show ?thesis
    by (auto simp: chunkOr_def newChunk_def split: option.splits)
qed

subsection \<open>The server's invariant\<close>

text \<open>The server's life: players join, commands arrive, ticks pass, in any order.\<close>

inductive server_reachable :: "GameServer \<Rightarrow> bool" where
  init: "server_reachable (newGameServer nm)"
| start: "server_reachable s \<Longrightarrow> server_reachable (fst (startServer tcpPort udpPort s))"
| stop: "server_reachable s \<Longrightarrow> server_reachable (fst (stopServer s))"
| join: "server_reachable s \<Longrightarrow> server_reachable (onPlayerJoined p s)"
| commands: "server_reachable s \<Longrightarrow> \<forall>c \<in> set cmds. cmdPlayerId c \<noteq> 0 \<Longrightarrow>
    server_reachable (onCommandsFromNetwork cmds s)"
| tick: "server_reachable s \<Longrightarrow> server_reachable (fst (onTick s))"

definition server_inv :: "GameServer \<Rightarrow> bool" where
  "server_inv s \<longleftrightarrow> wf_server s \<and> okDirtyWorld (world s) \<and> (\<forall>X Y. okCell (cellAt (world s) X Y)) \<and>
     (\<forall>c \<in> set (queue (commandQueue s)). cmdPlayerId c \<noteq> 0)"

lemma okCell_applyCommands:
  assumes "wf_world (fst wr)" "\<forall>X Y. okCell (cellAt (fst wr) X Y)" "\<forall>c \<in> set cmds. cmdPlayerId c \<noteq> 0"
  shows "\<forall>X Y. okCell (cellAt (fst (applyCommands cmds wr)) X Y)"
  using assms
proof (induction cmds arbitrary: wr)
  case Nil
  then show ?case by simp
next
  case (Cons cmd cmds)
  obtain w r where wr: "wr = (w, r)" by fastforce
  have "\<forall>X Y. okCell (cellAt (fst (applyCommand cmd wr)) X Y)"
    using Cons.prems by (auto simp: wr cellAt_applyCommand intro: okCell_commandEffect)
  moreover have "wf_world (fst (applyCommand cmd wr))" using Cons.prems(1) by (simp add: wr wf_applyCommand)
  ultimately show ?case using Cons.IH [of "applyCommand cmd wr"] Cons.prems(3) by simp
qed

lemma server_inv_tick:
  assumes "server_inv s"
  shows "server_inv (fst (onTick s))"
proof -
  have wf: "wf_server s" "wf_world (world s)" using assms by (auto simp: server_inv_def wf_server_def)
  have "\<forall>X Y. okCell (cellAt (simulateGeneration (world s)) X Y)"
    using assms by (simp add: simulateGeneration_life [OF wf(2)] okCell_lifeRule server_inv_def)
  then have "\<forall>X Y. okCell (cellAt (fst (afterCommands s)) X Y)"
    using assms okCell_applyCommands [of "(simulateGeneration (world s), resources s)" "queue (commandQueue s)"]
      wf_simulateGeneration [OF wf(2)]
    by (simp add: afterCommands_def server_inv_def)
  moreover have "queue (commandQueue (fst (onTick s))) = []" by (simp add: onTick_state emptyQueue_def)
  ultimately show ?thesis
    using assms wf_onTick [OF wf(1)] okDirtyWorld_onTick [OF wf(2)] by (simp add: server_inv_def cellAt_onTick)
qed

lemma server_reachable_server_inv: "server_reachable s \<Longrightarrow> server_inv s"
proof (induction rule: server_reachable.induct)
  case (init nm)
  show ?case
    using wf_newGameServer [of nm] cellAt_newWorld okDirtyWorld_new
    by (simp add: server_inv_def newGameServer_def okCell_def emptyQueue_def)
next
  case (start s tcpPort udpPort)
  then show ?case by (simp add: server_inv_def wf_server_def startServer_def refreshFullSnapshotCache_def)
next
  case (stop s)
  then show ?case by (simp add: server_inv_def wf_server_def stopServer_def)
next
  case (join s p)
  then show ?case by (simp add: server_inv_def wf_server_def onPlayerJoined_def wf_addPlayer)
next
  case (commands s cmds)
  then show ?case
    by (auto simp: server_inv_def wf_server_def onCommandsFromNetwork_def commands.contents_pushes)
next
  case (tick s)
  then show ?case by (blast intro: server_inv_tick)
qed

text \<open>
  C28. In every reachable state of the server (no player being number 0): chunk coordinates are
  unique and every chunk has its two full buffers; accounts are unique; the dirty lists stay
  inside the chunks; and a cell has an owner exactly when it is alive.
\<close>

theorem server_reachable_inv:
  assumes "server_reachable s"
  shows "wf_server s \<and> okDirtyWorld (world s) \<and>
    (\<forall>X Y. alive (cellAt (world s) X Y) \<longleftrightarrow> owner (cellAt (world s) X Y) \<noteq> 0)"
  using server_reachable_server_inv [OF assms] by (simp add: server_inv_def okCell_def)

theorem server_reachable_inv_witness:
  "alive (cellAt (world (fst (onTick (onCommandsFromNetwork [placeSample] (newGameServer NoNetwork))))) 3 (-4)) \<longleftrightarrow>
     owner (cellAt (world (fst (onTick (onCommandsFromNetwork [placeSample] (newGameServer NoNetwork))))) 3 (-4)) \<noteq> 0"
proof -
  have "server_reachable (fst (onTick (onCommandsFromNetwork [placeSample] (newGameServer NoNetwork))))"
    by (intro server_reachable.intros) (simp add: placeSample_def)
  from server_reachable_inv [OF this] show ?thesis by blast
qed

text \<open>
  The dirty lists miss nothing: every position whose cell differs after a tick's generation
  and commands from what it was before is on the dirty list of its chunk when the delta is
  serialized.
\<close>

theorem tick_changes_are_dirty:
  assumes "wf_server s" "cellAt (world (fst (onTick s))) X Y \<noteq> cellAt (world s) X Y"
  shows "\<exists>ch. tryGetChunk (keyAt X Y) (fst (afterCommands s)) = Some ch \<and>
    (word_of_nat (nat (X mod 64)), word_of_nat (nat (Y mod 64))) \<in> set (dirtyCells ch)"
  using changed_is_dirty [of s X Y] assms by (simp add: wf_server_def cellAt_onTick)

theorem tick_changes_are_dirty_witness:
  "\<exists>ch. tryGetChunk (coord 0 (-1))
      (fst (afterCommands (onCommandsFromNetwork [placeSample] (onPlayerJoined 7 (newGameServer NoNetwork))))) = Some ch \<and>
    (3, 60) \<in> set (dirtyCells ch)"
proof -
  let ?s = "onCommandsFromNetwork [placeSample] (onPlayerJoined 7 (newGameServer NoNetwork))"
  have s: "world ?s = newWorld" "resources ?s = \<lparr>balances = [(7, 10)]\<rparr>" "queue (commandQueue ?s) = [placeSample]"
    by (simp_all add: onCommandsFromNetwork_def onPlayerJoined_def newGameServer_def addPlayer_def
        newResourceManager_def kStartBalance_def push_def emptyQueue_def)
  have wf: "wf_server ?s" unfolding wf_server_def s by (simp add: wf_newWorld wf_resources_def)
  have "(\<lambda>X Y. deadCell) = cellAt newWorld" by (intro ext) (simp add: cellAt_newWorld)
  then have "cellAt (fst (afterCommands ?s)) = fst (specTick [placeSample] (\<lambda>X Y. deadCell, \<lparr>balances = [(7, 10)]\<rparr>))"
    using specTick_afterCommands [OF wf] unfolding s by simp
  then have "alive (cellAt (world (fst (onTick ?s))) 3 (-4))"
    by (simp add: cellAt_onTick specTick_def lifeStep_dead specCommand_def placeSample_def trySpend_def
        kPlaceCost_def sameCoord_def Let_def case_prod_beta)
  moreover have "\<not> alive (cellAt (world ?s) 3 (-4))" unfolding s by (simp add: cellAt_newWorld)
  ultimately have "cellAt (world (fst (onTick ?s))) 3 (-4) \<noteq> cellAt (world ?s) 3 (-4)" by metis
  from tick_changes_are_dirty [OF wf this] show ?thesis by (simp add: keyAt_def)
qed

end
