(* ===== verification/Mirror.thy ===== *)
theory Mirror
  imports Round_Trips Dirty_Tracking
begin

section \<open>The client's picture mirrors the server's world\<close>

text \<open>
  Server and client composed: the tick's delta goes through the network manager's splitting
  into datagrams, the client's parser and the window's slot into the world model. The
  mirror relation says that the model shows, at every position in the range of the chunk
  coordinates, the owner of the live cell there and nothing at dead cells.
\<close>

text \<open>The slot of \<open>GameWindow\<close> that feeds the world model, run over what the client emits.\<close>

fun onWorldUpdate :: "ClientEffect \<Rightarrow> WorldModel \<Rightarrow> WorldModel" where
  "onWorldUpdate (WorldUpdateReceived seqNum fullSnapshot chunkX chunkY cells) m =
     fst (applyUpdate seqNum fullSnapshot chunkX chunkY cells m)"
| "onWorldUpdate _ m = m"

definition deliver :: "ClientEffect list \<Rightarrow> WorldModel \<Rightarrow> WorldModel" where
  "deliver effs m = fold onWorldUpdate effs m"

definition shown :: "CellState \<Rightarrow> u64" where
  "shown cell = (if alive cell then owner cell else 0)"

definition mirrors :: "WorldModel \<Rightarrow> World \<Rightarrow> bool" where
  "mirrors m w \<longleftrightarrow> (\<forall>X Y. inRange X \<and> inRange Y \<longrightarrow>
     ownerAt m (word_of_int X) (word_of_int Y) = shown (cellAt w X Y))"

subsection \<open>Positions on the wire and in the model\<close>

definition posOf :: "u32 \<Rightarrow> byte \<Rightarrow> u64" where
  "posOf c l = (scast c :: u64) * word_of_int kChunkWidth + ucast l"

lemma posOf_int: "posOf c l = word_of_int (64 * sint c + uint l)"
proof -
  have "(scast c :: u64) = word_of_int (sint c)" by (rule scast_eq)
  moreover have "(ucast l :: u64) = word_of_int (uint l)" by (rule ucast_eq)
  ultimately have "posOf c l = word_of_int (sint c) * word_of_int 64 + word_of_int (uint l)"
    by (simp only: posOf_def kChunkWidth_def)
  also have "\<dots> = word_of_int (sint c * 64 + uint l)" by (simp only: wi_hom_mult wi_hom_add)
  finally show ?thesis by (simp only: mult.commute)
qed

lemma byte_64: "unat (l :: byte) < 64 \<Longrightarrow> 0 \<le> uint l \<and> uint l < 64"
  unfolding uint_nat by (intro conjI; linarith)

lemma inRange_pos: "unat l < 64 \<Longrightarrow> inRange (64 * sint (c :: u32) + uint (l :: byte))"
  using byte_64 [of l] by (blast intro: inRange_block)

lemma sint_inRange:
  assumes "inRange X"
  shows "sint (word_of_int X :: u64) = X"
proof -
  have "signed_take_bit (LENGTH(64) - 1) X = X"
    using assms by (intro signed_take_bit_int_eq_self) (simp_all add: inRange_def)
  then show ?thesis by (simp only: sint_sbintrunc')
qed

lemma sint_posOf: "unat l < 64 \<Longrightarrow> sint (posOf c l) = 64 * sint c + uint l"
  unfolding posOf_int by (rule sint_inRange) (rule inRange_pos)

lemma posOf_chunk:
  assumes "unat l < 64"
  shows "sint (posOf c l) div 64 = sint c" "nat (sint (posOf c l) mod 64) = unat l"
proof -
  have "(64 * a + b) div 64 = a \<and> (64 * a + b) mod 64 = b" if "0 \<le> b \<and> b < 64" for a b :: int
    using that by auto
  from this [OF byte_64 [OF assms], of "sint c"]
  show "sint (posOf c l) div 64 = sint c" "nat (sint (posOf c l) mod 64) = unat l"
    unfolding sint_posOf [OF assms] by (simp_all only: uint_nat nat_int)
qed

lemma posOf_of:
  assumes "inRange X"
  shows "posOf (word_of_int (X div 64)) (word_of_nat (nat (X mod 64))) = word_of_int X"
proof -
  have "sint (word_of_int (X div 64) :: u32) = X div 64" using assms by (rule sint_chunk)
  moreover have "uint (word_of_nat (nat (X mod 64)) :: byte) = X mod 64"
    using unat_byte [of "nat (X mod 64)"] unfolding uint_nat by simp
  moreover have "64 * (X div 64) + X mod 64 = X" by simp
  ultimately show ?thesis unfolding posOf_int by metis
qed

definition keyOf :: "ChunkCoord \<Rightarrow> byte \<Rightarrow> byte \<Rightarrow> CellKey" where
  "keyOf c x y = CellKey (posOf (coordX c) x) (posOf (coordY c) y)"

text \<open>What the model should show at a key for a world.\<close>

definition shownAt :: "World \<Rightarrow> CellKey \<Rightarrow> u64" where
  "shownAt w key = shown (cellAt w (sint (keyX key)) (sint (keyY key)))"

lemma shownAt_keyOf:
  assumes "unat x < 64" "unat y < 64"
  shows "shownAt w (keyOf c x y) = shown (getCell (chunkOr c w) (unat x) (unat y))"
proof -
  have "keyAt (sint (posOf (coordX c) x)) (sint (posOf (coordY c) y)) = c"
    using assms by (simp add: keyAt_def posOf_chunk)
  then show ?thesis
    using assms by (simp add: shownAt_def keyOf_def cellAt_chunkOr posOf_chunk)
qed

lemma key_cover:
  assumes "inRange X" "inRange Y"
  shows "CellKey (word_of_int X) (word_of_int Y) =
    keyOf (keyAt X Y) (word_of_nat (nat (X mod 64))) (word_of_nat (nat (Y mod 64)))"
  by (simp add: keyOf_def keyAt_def posOf_of assms del: of_nat_nat)

lemma mirrors_iff:
  "mirrors m w \<longleftrightarrow> (\<forall>c x y. unat x < 64 \<and> unat y < 64 \<longrightarrow>
     ownerIn (aliveCells m) (keyOf c x y) = shownAt w (keyOf c x y))" (is "_ \<longleftrightarrow> ?R")
proof
  assume m: "mirrors m w"
  show ?R
  proof (intro allI impI)
    fix c :: ChunkCoord and x y :: byte assume xy: "unat x < 64 \<and> unat y < 64"
    let ?X = "64 * sint (coordX c) + uint x" and ?Y = "64 * sint (coordY c) + uint y"
    have "ownerAt m (word_of_int ?X) (word_of_int ?Y) = shown (cellAt w ?X ?Y)"
      using m xy inRange_pos unfolding mirrors_def by blast
    then show "ownerIn (aliveCells m) (keyOf c x y) = shownAt w (keyOf c x y)"
      using xy unfolding ownerAt_ownerIn shownAt_def keyOf_def CellKey.sel
      by (simp only: sint_posOf posOf_int [symmetric])
  qed
next
  assume R: ?R
  show "mirrors m w"
    unfolding mirrors_def
  proof (intro allI impI)
    fix X Y assume XY: "inRange X \<and> inRange Y"
    then have k: "CellKey (word_of_int X) (word_of_int Y) =
        keyOf (keyAt X Y) (word_of_nat (nat (X mod 64))) (word_of_nat (nat (Y mod 64)))"
      by (simp only: key_cover)
    have b: "unat (word_of_nat (nat (X mod 64)) :: byte) < 64" "unat (word_of_nat (nat (Y mod 64)) :: byte) < 64"
      using unat_byte [of "nat (X mod 64)"] unat_byte [of "nat (Y mod 64)"] mod_64_nat by metis+
    have "ownerIn (aliveCells m) (CellKey (word_of_int X) (word_of_int Y)) =
        shownAt w (CellKey (word_of_int X) (word_of_int Y))"
      unfolding k using R b by blast
    then show "ownerAt m (word_of_int X) (word_of_int Y) = shown (cellAt w X Y)"
      using XY by (simp add: ownerAt_ownerIn shownAt_def sint_inRange)
  qed
qed

subsection \<open>Applying packets that tell the truth\<close>

definition entryKey :: "ChunkCoord \<Rightarrow> Entry \<Rightarrow> CellKey" where
  "entryKey c e = keyOf c (entryX e) (entryY e)"

definition tells :: "World \<Rightarrow> ChunkCoord \<Rightarrow> Entry \<Rightarrow> bool" where
  "tells w c e \<longleftrightarrow> unat (entryX e) < 64 \<and> unat (entryY e) < 64 \<and>
     (if entryAlive e \<noteq> 0 then entryOwner e else 0) = shownAt w (entryKey c e)"

definition applyPacket :: "u32 \<Rightarrow> byte \<Rightarrow> ChunkCoord \<times> Entry list \<Rightarrow> WorldModel \<Rightarrow> WorldModel" where
  "applyPacket s f p m = fst (applyUpdate s (f = kFlagFull) (coordX (fst p)) (coordY (fst p))
     (map (toUpdate \<circ> entryUpdate) (snd p)) m)"

lemma deliver_simps [simp]:
  "deliver [] m = m" "deliver (e # es) m = deliver es (onWorldUpdate e m)"
  "deliver (es @ es') m = deliver es' (deliver es m)"
  by (simp_all add: deliver_def)

lemma deliver_applyDatagram:
  assumes "length es \<le> 125"
  shows "deliver (snd (applyDatagram (encodePacket s f c es) cl)) m = applyPacket s f (c, es) m"
proof -
  have "deliver (sendResync cl) m = m" by (simp add: sendResync_def)
  then show ?thesis
    using parse_encodePacket [OF assms, of s f c "[]"]
    by (simp add: applyDatagram_def Let_def applyPacket_def split: option.splits)
qed

lemma deliver_onUdpReadyRead:
  assumes "smallPackets ps"
  shows "deliver (snd (onUdpReadyRead (map (\<lambda>(c, es). encodePacket s f c es) ps) cl)) m =
    fold (applyPacket s f) ps m"
  using assms
proof (induction ps arbitrary: cl m)
  case Nil
  then show ?case by simp
next
  case (Cons p ps)
  obtain c es where "p = (c, es)" by fastforce
  with Cons show ?case
    by (simp add: Let_def case_prod_beta deliver_applyDatagram)
qed

lemma toUpdate_key:
  "CellKey ((scast (coordX c) :: u64) * word_of_int kChunkWidth + cellX (toUpdate (entryUpdate e)))
     ((scast (coordY c) :: u64) * word_of_int kChunkHeight + cellY (toUpdate (entryUpdate e))) = entryKey c e"
  by (simp add: toUpdate_def entryUpdate_def entryKey_def keyOf_def posOf_def kChunkWidth_def kChunkHeight_def)

lemma applyPacket_ownerIn:
  assumes "\<forall>e \<in> set es. tells w c e"
  shows "ownerIn (aliveCells (applyPacket s f (c, es) m)) key =
    (if key \<in> entryKey c ` set es then shownAt w key
     else if f = kFlagFull \<and> inChunk (coordX c) (coordY c) key then 0
     else ownerIn (aliveCells m) key)"
proof -
  let ?kept = "if f = kFlagFull then filter (\<lambda>e. \<not> inChunk (coordX c) (coordY c) (fst e)) (aliveCells m)
    else aliveCells m"
  let ?us = "map (toUpdate \<circ> entryUpdate) es"
  let ?bx = "(scast (coordX c) :: u64) * word_of_int kChunkWidth"
  let ?by = "(scast (coordY c) :: u64) * word_of_int kChunkHeight"
  have "\<forall>u \<in> set ?us. cellOwnerId u = shownAt w (CellKey (?bx + cellX u) (?by + cellY u))"
    using assms by (auto simp: toUpdate_key tells_def) (auto simp: toUpdate_def entryUpdate_def)
  from ownerIn_fold_putCell [OF this]
  have "ownerIn (fold (putCell ?bx ?by) ?us ?kept) key =
      (if key \<in> (\<lambda>u. CellKey (?bx + cellX u) (?by + cellY u)) ` set ?us then shownAt w key
       else ownerIn ?kept key)" .
  moreover have "(\<lambda>u. CellKey (?bx + cellX u) (?by + cellY u)) ` set ?us = entryKey c ` set es"
    by (simp add: image_image toUpdate_key)
  moreover have "aliveCells (applyPacket s f (c, es) m) = fold (putCell ?bx ?by) ?us ?kept"
    by (simp add: applyPacket_def applyUpdate_def Let_def)
  ultimately show ?thesis
    using ownerIn_filter [of "\<lambda>k. \<not> inChunk (coordX c) (coordY c) k" "aliveCells m" key]
    by simp
qed

lemma deltas_ownerIn:
  assumes "\<forall>(c, es) \<in> set ps. \<forall>e \<in> set es. tells w c e"
  shows "ownerIn (aliveCells (fold (applyPacket s kFlagDelta) ps m)) key =
    (if \<exists>(c, es) \<in> set ps. key \<in> entryKey c ` set es then shownAt w key else ownerIn (aliveCells m) key)"
  using assms
proof (induction ps arbitrary: m)
  case Nil
  then show ?case by simp
next
  case (Cons p ps)
  obtain c es where p: "p = (c, es)" by fastforce
  have "kFlagDelta \<noteq> kFlagFull" by (simp add: kFlagDelta_def kFlagFull_def)
  with Cons p applyPacket_ownerIn [of es w c s kFlagDelta m key] show ?case by auto
qed

subsection \<open>A tick\<close>

definition tickUpdate :: "GameServer \<Rightarrow> byte list" where
  \<comment> \<open>the payload of the tick's call of \<open>broadcastWorldUpdate\<close>, empty when it makes none\<close>
  "tickUpdate s = (case snd (onTick s) of BroadcastWorldUpdate u # _ \<Rightarrow> u | _ \<Rightarrow> [])"

lemma tickUpdate_eq:
  "networkManager s \<noteq> NoNetwork \<Longrightarrow> tickUpdate s =
     encodeAll (broadcastSeq s + 1) kFlagDelta (deltaPackets (chunks (fst (afterCommands s))))"
  by (simp add: tickUpdate_def onTick_calls Let_def)

lemma deltaPackets_keys:
  "(\<exists>(c, es) \<in> set (deltaPackets cs). key \<in> entryKey c ` set es) \<longleftrightarrow>
     (\<exists>(c, ch) \<in> set cs. key \<in> entryKey c ` set (dirtyEntries ch))"
proof -
  have "(\<exists>es \<in> set (groups 125 xs). key \<in> entryKey c ` set es) \<longleftrightarrow> key \<in> entryKey c ` set xs" for c xs
  proof -
    have "set xs = (\<Union>es \<in> set (groups 125 xs). set es)"
      using concat_groups [of 125 xs] by (metis set_concat zero_neq_numeral)
    then show ?thesis by auto
  qed
  then show ?thesis by (fastforce simp: deltaPackets_def)
qed

lemma chunk_of_entry:
  "wf_world w \<Longrightarrow> (c, ch) \<in> set (chunks w) \<Longrightarrow> tryGetChunk c w = Some ch \<and> chunkOr c w = ch"
  by (simp add: wf_world_def tryGetChunk_def chunkOr_def)

lemma delta_tells:
  assumes "wf_world w" "okDirtyWorld w"
  shows "\<forall>(c, es) \<in> set (deltaPackets (chunks w)). \<forall>e \<in> set es. tells w c e"
proof clarify
  fix c es e assume "(c, es) \<in> set (deltaPackets (chunks w))" "e \<in> set es"
  then obtain ch where ch: "(c, ch) \<in> set (chunks w)" and es: "es \<in> set (groups 125 (dirtyEntries ch))"
    by (auto simp: deltaPackets_def)
  have "set es \<subseteq> set (dirtyEntries ch)"
    using es concat_groups [of 125 "dirtyEntries ch"] by (metis UN_upper set_concat zero_neq_numeral)
  with \<open>e \<in> set es\<close> obtain x y where d: "(x, y) \<in> set (dirtyCells ch)"
    and e: "e = \<lparr>entryX = x, entryY = y,
      entryAlive = (if alive (getCell ch (unat x) (unat y)) then 1 else 0),
      entryOwner = owner (getCell ch (unat x) (unat y))\<rparr>"
    by (auto simp: dirtyEntries_def Let_def)
  note c = chunk_of_entry [OF assms(1) ch]
  with assms(2) have "okDirty ch" by (metis okDirtyWorld_def)
  with d have "unat x < 64" "unat y < 64" by (auto simp: okDirty_def)
  with c show "tells w c e"
    by (simp add: tells_def e entryKey_def shownAt_keyOf shown_def)
qed

lemma dirty_entry_key:
  assumes "(x, y) \<in> set (dirtyCells ch)"
  shows "keyOf c x y \<in> entryKey c ` set (dirtyEntries ch)"
  using assms by (force simp: dirtyEntries_def entryKey_def Let_def)

lemma tick_mirrors:
  assumes wf: "wf_server s" and nm: "networkManager s \<noteq> NoNetwork"
    and ok: "okDirtyWorld (world s)" and m: "mirrors m (world s)"
  shows "\<exists>ds. sendPayloadTo (tickUpdate s) = Some ds \<and>
    mirrors (deliver (snd (onUdpReadyRead ds cl)) m) (world (fst (onTick s)))"
proof -
  let ?w = "fst (afterCommands s)" and ?ps = "deltaPackets (chunks (fst (afterCommands s)))"
  let ?m = "fold (applyPacket (broadcastSeq s + 1) kFlagDelta) ?ps m"
  have ww: "wf_world (world s)" "wf_world ?w" using wf wf_afterCommands [OF wf] by (auto simp: wf_server_def)
  have ok': "okDirtyWorld ?w" by (rule okDirtyWorld_tracks [OF tracks_tick [OF ww(1)] ok])
  have "mirrors ?m ?w"
    unfolding mirrors_iff
  proof (intro allI impI)
    fix c :: ChunkCoord and x y :: byte assume xy: "unat x < 64 \<and> unat y < 64"
    let ?key = "keyOf c x y"
    have e: "ownerIn (aliveCells ?m) ?key = (if \<exists>(c, es) \<in> set ?ps. ?key \<in> entryKey c ` set es
        then shownAt ?w ?key else ownerIn (aliveCells m) ?key)"
      by (rule deltas_ownerIn [OF delta_tells [OF ww(2) ok']])
    show "ownerIn (aliveCells ?m) ?key = shownAt ?w ?key"
    proof (cases "\<exists>(c, es) \<in> set ?ps. ?key \<in> entryKey c ` set es")
      case True
      with e show ?thesis by simp
    next
      case False
      have "getCell (chunkOr c ?w) (unat x) (unat y) = getCell (chunkOr c (world s)) (unat x) (unat y)"
      proof (rule ccontr)
        assume ne: "getCell (chunkOr c ?w) (unat x) (unat y) \<noteq> getCell (chunkOr c (world s)) (unat x) (unat y)"
        have "trackedChunk (chunkOr c (world s)) (chunkOr c ?w)"
          using tracks_tick [OF ww(1)] by (simp add: tracks_def)
        with ne xy have "(word_of_nat (unat x), word_of_nat (unat y)) \<in> set (dirtyCells (chunkOr c ?w))"
          unfolding trackedChunk_def by blast
        then have d: "(x, y) \<in> set (dirtyCells (chunkOr c ?w))" by simp
        then obtain ch where "tryGetChunk c ?w = Some ch" "(x, y) \<in> set (dirtyCells ch)"
          by (auto simp: chunkOr_def newChunk_def split: option.splits)
        then have "(c, ch) \<in> set (chunks ?w)" "?key \<in> entryKey c ` set (dirtyEntries ch)"
          by (auto simp: tryGetChunk_def dest: map_of_SomeD intro: dirty_entry_key)
        then show False using False unfolding deltaPackets_keys by blast
      qed
      then have "shownAt ?w ?key = shownAt (world s) ?key" using xy by (simp add: shownAt_keyOf)
      moreover have "ownerIn (aliveCells m) ?key = shownAt (world s) ?key"
        using m xy unfolding mirrors_iff by blast
      ultimately show ?thesis using e False by simp
    qed
  qed
  then have "mirrors ?m (world (fst (onTick s)))"
    unfolding mirrors_def by (simp add: cellAt_onTick)
  moreover have "sendPayloadTo (tickUpdate s) =
      Some (map (\<lambda>(c, es). encodePacket (broadcastSeq s + 1) kFlagDelta c es) ?ps)"
    by (simp add: tickUpdate_eq [OF nm] sendPayloadTo_encodeAll smallPackets_delta)
  ultimately show ?thesis
    by (simp add: deliver_onUdpReadyRead [OF smallPackets_delta])
qed

subsection \<open>A session\<close>

text \<open>
  A run from the start: before each tick some players join and some commands arrive, in any
  order of rounds; the tick's update is split into datagrams, and all reach the client.
\<close>

fun runSession ::
  "(PlayerId list \<times> PlayerCommand list) list \<Rightarrow> GameServer \<times> GameNetworkClient \<times> WorldModel \<Rightarrow>
   (GameServer \<times> GameNetworkClient \<times> WorldModel) option" where
  "runSession [] st = Some st"
| "runSession ((joins, cmds) # rounds) (s, cl, m) =
     (let s1 = onCommandsFromNetwork cmds (fold onPlayerJoined joins s)
      in case sendPayloadTo (tickUpdate s1) of
           None \<Rightarrow> None
         | Some ds \<Rightarrow> (let (cl', effs) = onUdpReadyRead ds cl
                       in runSession rounds (fst (onTick s1), cl', deliver effs m)))"

definition sessionInv :: "GameServer \<Rightarrow> WorldModel \<Rightarrow> bool" where
  "sessionInv s m \<longleftrightarrow> wf_server s \<and> networkManager s \<noteq> NoNetwork \<and> okDirtyWorld (world s) \<and>
     mirrors m (world s)"

lemma onPlayerJoined_fold:
  "wf_server s \<Longrightarrow> wf_server (fold onPlayerJoined ps s) \<and>
    networkManager (fold onPlayerJoined ps s) = networkManager s \<and> world (fold onPlayerJoined ps s) = world s"
proof (induction ps arbitrary: s)
  case Nil
  then show ?case by simp
next
  case (Cons p ps)
  have "wf_server (onPlayerJoined p s)"
    using Cons.prems by (simp add: wf_server_def onPlayerJoined_def wf_addPlayer)
  from Cons.IH [OF this] show ?case by (simp add: onPlayerJoined_def)
qed

lemma sessionInv_inputs:
  "sessionInv s m \<Longrightarrow> sessionInv (onCommandsFromNetwork cmds (fold onPlayerJoined joins s)) m"
  using onPlayerJoined_fold [of s joins]
  by (simp add: sessionInv_def onCommandsFromNetwork_def wf_server_def)

lemma sessionInv_tick:
  assumes "sessionInv s m"
  shows "\<exists>ds. sendPayloadTo (tickUpdate s) = Some ds \<and>
    sessionInv (fst (onTick s)) (deliver (snd (onUdpReadyRead ds cl)) m)"
proof -
  from assms obtain ds where ds: "sendPayloadTo (tickUpdate s) = Some ds"
    "mirrors (deliver (snd (onUdpReadyRead ds cl)) m) (world (fst (onTick s)))"
    using tick_mirrors [of s m cl] by (auto simp: sessionInv_def)
  moreover have "networkManager (fst (onTick s)) = networkManager s" by (simp add: onTick_state)
  ultimately show ?thesis
    using assms okDirtyWorld_onTick [of s] wf_onTick [of s]
    by (auto simp: sessionInv_def wf_server_def)
qed

lemma runSession_inv:
  "sessionInv s m \<Longrightarrow> \<exists>s' cl' m'. runSession rounds (s, cl, m) = Some (s', cl', m') \<and> sessionInv s' m'"
proof (induction rounds arbitrary: s cl m)
  case Nil
  then show ?case by simp
next
  case (Cons r rounds)
  obtain joins cmds where r: "r = (joins, cmds)" by fastforce
  let ?s = "onCommandsFromNetwork cmds (fold onPlayerJoined joins s)"
  from sessionInv_tick [OF sessionInv_inputs [OF Cons.prems], of cmds joins cl]
  obtain ds where ds: "sendPayloadTo (tickUpdate ?s) = Some ds"
    and inv: "sessionInv (fst (onTick ?s)) (deliver (snd (onUdpReadyRead ds cl)) m)" by blast
  from Cons.IH [OF inv] r ds show ?case
    by (simp add: Let_def case_prod_beta)
qed

lemma sessionInv_start: "sessionInv (newGameServer BoostNetwork) newWorldModel"
proof -
  have "mirrors newWorldModel newWorld"
    by (simp add: mirrors_def newWorldModel_def ownerAt_def shown_def cellAt_newWorld)
  then show ?thesis
    by (simp add: sessionInv_def wf_newGameServer okDirtyWorld_new newGameServer_def
        wf_server_def wf_newWorld wf_newResourceManager)
qed

text \<open>
  A client that has received every datagram since the server started shows the server's
  world: after any rounds of joining players and commands of any kind, each followed by a tick,
  the update splits into datagrams without reading past its end, and at every position in the
  range of the chunk coordinates the client's model shows the owner of the live cell there,
  and nothing where the cell is dead.
\<close>

theorem session_mirrors:
  "\<exists>s cl m. runSession rounds (newGameServer BoostNetwork, newClient, newWorldModel) = Some (s, cl, m) \<and>
     mirrors m (world s)"
  using runSession_inv [OF sessionInv_start, of rounds newClient] by (auto simp: sessionInv_def)

end
