(* ===== verification/Snapshot.thy ===== *)
theory Snapshot
  imports Mirror
begin

section \<open>What a full snapshot does to the client's picture\<close>

text \<open>
  A snapshot packet clears its chunk in the client before it inserts its cells. For a chunk
  that fits one packet this rebuilds the chunk; for a chunk that needs several, every packet
  erases what the ones before it inserted; and a chunk without live cells has no packet at
  all, so whatever the client shows there stays.
\<close>

lemma inChunk_keyOf:
  assumes "unat x < 64" "unat y < 64"
  shows "inChunk (coordX c) (coordY c) (keyOf c' x y) \<longleftrightarrow> c' = (c :: ChunkCoord)"
proof -
  have "sint a = sint b \<longleftrightarrow> a = b" for a b :: u32
  proof
    assume "sint a = sint b"
    then have "(word_of_int (sint a) :: u32) = word_of_int (sint b)" by (rule arg_cong)
    then show "a = b" by (simp only: of_int_sint scast_id)
  qed simp
  then show ?thesis
    using assms
    by (cases c; cases c')
      (simp add: inChunk_def keyOf_def floorDiv_div kChunkWidth_def kChunkHeight_def posOf_chunk)
qed

lemma keyOf_inj:
  assumes "unat x < 64" "unat y < 64" "unat x' < 64" "unat y' < 64"
  shows "keyOf c x y = keyOf c' x' y' \<longleftrightarrow> c = c' \<and> x = x' \<and> y = y'"
proof
  assume e: "keyOf c x y = keyOf c' x' y'"
  then have "c = c'" using inChunk_keyOf assms by metis
  moreover have "posOf (coordX c) x = posOf (coordX c') x'" "posOf (coordY c) y = posOf (coordY c') y'"
    using e by (simp_all add: keyOf_def)
  then have "unat x = unat x'" "unat y = unat y'"
    using posOf_chunk(2) assms by metis+
  then have "x = x'" "y = y'" by (metis word_unat_eq_iff)+
  ultimately show "c = c' \<and> x = x' \<and> y = y'" by simp
qed simp

lemma fulls_ownerIn:
  assumes "\<forall>(c, es) \<in> set ps. \<forall>e \<in> set es. tells w c e" "unat x < 64" "unat y < 64"
  shows "ownerIn (aliveCells (fold (applyPacket s kFlagFull) ps m)) (keyOf c x y) =
    (let own = filter (\<lambda>p. fst p = c) ps
     in if own = [] then ownerIn (aliveCells m) (keyOf c x y)
        else if keyOf c x y \<in> entryKey c ` set (snd (last own)) then shownAt w (keyOf c x y) else 0)"
  using assms(1)
proof (induction ps rule: rev_induct)
  case Nil
  then show ?case by simp
next
  case (snoc p ps)
  obtain c' es where p: "p = (c', es)" by fastforce
  have es: "\<forall>e \<in> set es. tells w c' e" using snoc.prems p by auto
  have "keyOf c x y \<notin> entryKey c' ` set es" if "c' \<noteq> c"
    using es that keyOf_inj assms(2,3) by (auto simp: entryKey_def tells_def)
  then show ?case
    using snoc p applyPacket_ownerIn [OF es, of s kFlagFull "fold (applyPacket s kFlagFull) ps m" "keyOf c x y"]
      inChunk_keyOf [OF assms(2,3), of c' c]
    by (auto simp: Let_def)
qed

lemma fullPackets_of_chunk:
  assumes "distinct (map fst cs)"
  shows "filter (\<lambda>p. fst p = c) (fullPackets cs) =
    (case map_of cs c of None \<Rightarrow> [] | Some ch \<Rightarrow> map (Pair c) (groups 125 (fullEntries ch)))"
  using assms
proof (induction cs)
  case Nil
  then show ?case by (simp add: fullPackets_def)
next
  case (Cons e cs)
  obtain k ch where e: "e = (k, ch)" by fastforce
  have "filter (\<lambda>p. fst p = c) (map (Pair k) gs) = (if k = c then map (Pair c) gs else [])" for gs
    by (induction gs) auto
  moreover have "map_of cs c = None" if "k = c" using Cons.prems e that by (simp add: map_of_eq_None_iff)
  ultimately show ?case using Cons e by (auto simp: fullPackets_def)
qed

lemma mem_fullEntries:
  "e \<in> set (fullEntries ch) \<longleftrightarrow> (\<exists>x < 64. \<exists>y < 64. alive (getCell ch x y) \<and>
     e = \<lparr>entryX = word_of_nat x, entryY = word_of_nat y, entryAlive = 1, entryOwner = owner (getCell ch x y)\<rparr>)"
proof -
  have "e \<in> set (fullEntries ch) \<longleftrightarrow> (\<exists>(x, y) \<in> {0..<64} \<times> {0..<64}. alive (getCell ch x y) \<and>
     e = \<lparr>entryX = word_of_nat x, entryY = word_of_nat y, entryAlive = 1, entryOwner = owner (getCell ch x y)\<rparr>)"
    unfolding fullEntries_def Let_def set_concat set_map set_row_major by (auto split: if_splits)
  then show ?thesis by force
qed

lemma full_tells:
  assumes "wf_world w"
  shows "\<forall>(c, es) \<in> set (fullPackets (chunks w)). \<forall>e \<in> set es. tells w c e"
proof clarify
  fix c es e assume "(c, es) \<in> set (fullPackets (chunks w))" "e \<in> set es"
  then obtain ch where ch: "(c, ch) \<in> set (chunks w)" and es: "es \<in> set (groups 125 (fullEntries ch))"
    by (auto simp: fullPackets_def)
  have "set es \<subseteq> set (fullEntries ch)"
    using es concat_groups [of 125 "fullEntries ch"] by (metis UN_upper set_concat zero_neq_numeral)
  with \<open>e \<in> set es\<close> have "e \<in> set (fullEntries ch)" by blast
  then obtain x y where "x < 64" "y < 64" "alive (getCell ch x y)"
    "e = \<lparr>entryX = word_of_nat x, entryY = word_of_nat y, entryAlive = 1, entryOwner = owner (getCell ch x y)\<rparr>"
    unfolding mem_fullEntries by blast
  then show "tells w c e"
    using chunk_of_entry [OF assms ch]
    by (simp add: tells_def entryKey_def shownAt_keyOf unat_byte shown_def)
qed

text \<open>The model after the datagrams of a snapshot payload.\<close>

definition afterSnapshot :: "u32 \<Rightarrow> World \<Rightarrow> GameNetworkClient \<Rightarrow> WorldModel \<Rightarrow> WorldModel option" where
  "afterSnapshot s w cl m =
     map_option (\<lambda>ds. deliver (snd (onUdpReadyRead ds cl)) m) (sendPayloadTo (serializeFull s (chunks w)))"

lemma afterSnapshot_eq:
  "afterSnapshot s w cl m = Some (fold (applyPacket s kFlagFull) (fullPackets (chunks w)) m)"
  by (simp add: afterSnapshot_def serializeFull_eq sendPayloadTo_encodeAll smallPackets_full
      deliver_onUdpReadyRead)

lemma snapshot_ownerIn:
  assumes "wf_world w" "unat x < 64" "unat y < 64"
  shows "ownerIn (aliveCells (fold (applyPacket s kFlagFull) (fullPackets (chunks w)) m)) (keyOf c x y) =
    (if fullEntries (chunkOr c w) = [] then ownerIn (aliveCells m) (keyOf c x y)
     else if keyOf c x y \<in> entryKey c ` set (last (groups 125 (fullEntries (chunkOr c w))))
     then shownAt w (keyOf c x y) else 0)"
proof -
  have new: "fullEntries newChunk = []"
  proof -
    have "e \<notin> set (fullEntries newChunk)" for e by (auto simp: mem_fullEntries)
    then show ?thesis by (cases "fullEntries newChunk") auto
  qed
  have "distinct (map fst (chunks w))" using assms(1) by (simp add: wf_world_def)
  note own = fullPackets_of_chunk [OF this, of c]
  show ?thesis
    unfolding fulls_ownerIn [OF full_tells [OF assms(1)] assms(2,3)] own
    using groups_nonempty [of 125] new
    by (auto simp: chunkOr_def tryGetChunk_def last_map Let_def split: option.splits)
qed

lemma fullEntries_filter:
  "fullEntries ch = map (\<lambda>(x, y). \<lparr>entryX = word_of_nat x, entryY = word_of_nat y, entryAlive = 1,
     entryOwner = owner (getCell ch x y)\<rparr>) (filter (\<lambda>(x, y). alive (getCell ch x y)) (row_major 64 64))"
proof -
  have "concat (map (\<lambda>(cx, cy). let state = getCell ch cx cy
     in if alive state
        then [\<lparr>entryX = word_of_nat cx, entryY = word_of_nat cy, entryAlive = 1, entryOwner = owner state\<rparr>]
        else []) ps) =
    map (\<lambda>(x, y). \<lparr>entryX = word_of_nat x, entryY = word_of_nat y, entryAlive = 1,
     entryOwner = owner (getCell ch x y)\<rparr>) (filter (\<lambda>(x, y). alive (getCell ch x y)) ps)" for ps
    by (induction ps) (auto simp: Let_def)
  then show ?thesis by (simp add: fullEntries_def)
qed

lemma distinct_positions: "distinct (map (\<lambda>e. (entryX e, entryY e)) (fullEntries ch))"
proof -
  let ?ps = "filter (\<lambda>(x, y). alive (getCell ch x y)) (row_major 64 64)"
  have "inj_on (\<lambda>(x, y). (word_of_nat x :: byte, word_of_nat y :: byte)) (set ?ps)"
    by (rule inj_onI) (auto dest!: arg_cong [where f = unat] simp: unat_byte)
  then have "distinct (map (\<lambda>(x, y). (word_of_nat x :: byte, word_of_nat y :: byte)) ?ps)"
    by (simp add: distinct_map)
  moreover have "map (\<lambda>e. (entryX e, entryY e)) (fullEntries ch) =
      map (\<lambda>(x, y). (word_of_nat x, word_of_nat y)) ?ps"
    by (simp add: fullEntries_filter comp_def case_prod_beta)
  ultimately show ?thesis by simp
qed

lemma last_group_subset:
  assumes "length xs > 125"
  shows "set (last (groups 125 xs)) \<subseteq> set (drop 125 xs)"
proof -
  have "groups 125 xs = take 125 xs # groups 125 (drop 125 xs)"
    using assms by (subst groups.simps) auto
  moreover have ne: "groups 125 (drop 125 xs) \<noteq> []" using assms by (intro groups_nonempty) auto
  ultimately have "last (groups 125 xs) \<in> set (groups 125 (drop 125 xs))" by simp
  then show ?thesis
    using concat_groups [of 125 "drop 125 xs"] by (metis UN_upper set_concat zero_neq_numeral)
qed

lemma key_inRange:
  assumes "unat x < 64" "unat y < 64"
  shows "\<exists>X Y. inRange X \<and> inRange Y \<and> keyOf c x y = CellKey (word_of_int X) (word_of_int Y) \<and>
    shownAt w (keyOf c x y) = shown (cellAt w X Y)"
  using inRange_pos [OF assms(1)] inRange_pos [OF assms(2)] assms
  by (intro exI [of _ "64 * sint (coordX c) + uint x"] exI [of _ "64 * sint (coordY c) + uint y"])
    (simp only: keyOf_def posOf_int [symmetric] shownAt_def CellKey.sel sint_posOf simp_thms)

text \<open>A chunk for the witnesses: the rows above \<open>n\<close> are full of live cells of player 7.\<close>

definition liveRows :: "nat \<Rightarrow> Chunk" where
  "liveRows n = newChunk\<lparr>buffers :=
     [map (\<lambda>i. if i div 66 \<le> n then \<lparr>alive = True, owner = 7\<rparr> else deadCell) [0..<4356],
      replicate 4356 deadCell]\<rparr>"

lemma wf_liveRows: "wf_chunk (liveRows n)"
  by (simp add: wf_chunk_def liveRows_def newChunk_def)

lemma getCell_liveRows:
  assumes "x < 64" "y < 64"
  shows "getCell (liveRows n) x y = (if y < n then \<lparr>alive = True, owner = 7\<rparr> else deadCell)"
proof -
  have "((y + 1) * 66 + (x + 1)) div 66 = y + 1" using assms by simp
  then have "index (x + 1) (y + 1) div 66 = y + 1" by (simp only: index_eq)
  then show ?thesis
    using assms index_bound [of "x + 1" "y + 1"] by (simp add: getCell_def liveRows_def newChunk_def)
qed

lemma filter_row_major: "filter (\<lambda>(x, y). y < n) (row_major w h) = row_major w (min n h)"
proof (induction h)
  case 0
  then show ?case by (simp add: row_major_def)
next
  case (Suc h)
  have "row_major w (Suc h) = row_major w h @ map (\<lambda>x. (x, h)) [0..<w]" for h by (simp add: row_major_def)
  note step = this
  consider "n \<le> h" | "n = Suc h" | "Suc h < n" by linarith
  then show ?case
  proof cases
    case 1
    moreover from 1 have "filter (\<lambda>(x, y). y < n) (map (\<lambda>x. (x, h)) [0..<w]) = []" by (simp add: filter_empty_conv)
    ultimately show ?thesis using Suc by (simp add: step min_def)
  qed (use Suc step in \<open>auto simp: min_def\<close>)
qed

lemma length_liveRows: "n \<le> 64 \<Longrightarrow> length (fullEntries (liveRows n)) = 64 * n"
proof -
  have "filter (\<lambda>(x, y). alive (getCell (liveRows n) x y)) (row_major 64 64) =
      filter (\<lambda>(x, y). y < n) (row_major 64 64)"
    by (intro filter_cong refl) (auto simp: getCell_liveRows split: if_splits)
  moreover have "length (row_major w h) = w * h" for w h
    by (induction h) (simp_all add: row_major_def)
  moreover assume "n \<le> 64"
  ultimately show ?thesis by (simp add: fullEntries_filter filter_row_major)
qed

lemma shown_entry:
  assumes "unat x < 64" "unat y < 64" "shownAt w (keyOf c x y) \<noteq> 0"
  shows "keyOf c x y \<in> entryKey c ` set (fullEntries (chunkOr c w))"
proof -
  have "alive (getCell (chunkOr c w) (unat x) (unat y))"
    using assms(3) unfolding shownAt_keyOf [OF assms(1,2)] by (simp add: shown_def split: if_splits)
  then have "\<lparr>entryX = x, entryY = y, entryAlive = 1,
      entryOwner = owner (getCell (chunkOr c w) (unat x) (unat y))\<rparr> \<in> set (fullEntries (chunkOr c w))"
    using assms(1,2) unfolding mem_fullEntries
    by (intro exI [of _ "unat x"] exI [of _ "unat y"] conjI) auto
  then show ?thesis by (force simp: entryKey_def)
qed

text \<open>A chunk whose live cells fit one packet is shown as it is, whatever was shown before.\<close>

lemma snapshot_fits:
  assumes "wf_world w" "unat x < 64" "unat y < 64"
    and "length (fullEntries (chunkOr c w)) \<le> 125"
    and "fullEntries (chunkOr c w) = [] \<Longrightarrow> ownerIn (aliveCells m) (keyOf c x y) = 0"
  shows "ownerIn (aliveCells (fold (applyPacket s kFlagFull) (fullPackets (chunks w)) m)) (keyOf c x y) =
    shownAt w (keyOf c x y)"
proof -
  let ?es = "fullEntries (chunkOr c w)"
  have "groups 125 ?es = (if ?es = [] then [] else [?es])"
    using assms(4) by (simp add: groups.simps [of 125 ?es])
  then show ?thesis
    using snapshot_ownerIn [OF assms(1-3), of s m c] shown_entry [OF assms(2,3), of w c] assms(5)
    by auto
qed

lemma afterSnapshot_mirrors:
  assumes "wf_world w" "\<forall>(c, ch) \<in> set (chunks w). length (fullEntries ch) \<le> kMaxCellsPerPacket"
  shows "\<exists>m'. afterSnapshot s w cl (fst (reset m)) = Some m' \<and> mirrors m' w"
proof -
  let ?m = "fst (reset m)"
  have small: "length (fullEntries (chunkOr c w)) \<le> 125" for c
  proof (cases "tryGetChunk c w")
    case None
    have "e \<notin> set (fullEntries newChunk)" for e by (auto simp: mem_fullEntries)
    then have "fullEntries newChunk = []" by (cases "fullEntries newChunk") auto
    with None show ?thesis by (simp add: chunkOr_def)
  next
    case (Some ch)
    with assms(2) show ?thesis by (auto simp: chunkOr_def tryGetChunk_def dest: map_of_SomeD)
  qed
  have "ownerIn (aliveCells ?m) k = 0" for k by (simp add: reset_def ownerIn_def Let_def)
  then show ?thesis
    using snapshot_fits [OF assms(1) _ _ small] by (simp add: afterSnapshot_eq mirrors_iff)
qed

text \<open>
  A snapshot rebuilds the picture when every chunk's live cells fit one packet: after its
  datagrams a client that has just been reset mirrors the world.
\<close>

theorem snapshot_mirrors:
  assumes "wf_world w" "\<forall>(c, ch) \<in> set (chunks w). length (fullEntries ch) \<le> kMaxCellsPerPacket"
  shows "\<exists>m'. afterSnapshot s w cl (fst (reset m)) = Some m' \<and> mirrors m' w"
  by (rule afterSnapshot_mirrors [OF assms])

theorem snapshot_mirrors_witness:
  "\<exists>m'. afterSnapshot 4 \<lparr>chunks = [(coord 0 (-1), liveRows 1)]\<rparr> newClient (fst (reset newWorldModel)) = Some m' \<and>
    mirrors m' \<lparr>chunks = [(coord 0 (-1), liveRows 1)]\<rparr>"
  by (rule snapshot_mirrors) (simp_all add: wf_world_def wf_liveRows length_liveRows)



text \<open>
  C38. A snapshot does not correct chunks without live cells: at every position of such a chunk,
  or of no chunk, the client shows after the snapshot what it showed before.
\<close>

theorem snapshot_keeps_stale_cells:
  assumes "wf_world w" "inRange X" "inRange Y" "\<not> hasLiveCells (chunkOr (keyAt X Y) w)"
  shows "\<exists>m'. afterSnapshot s w cl m = Some m' \<and>
    ownerAt m' (word_of_int X) (word_of_int Y) = ownerAt m (word_of_int X) (word_of_int Y)"
proof -
  let ?x = "word_of_nat (nat (X mod 64)) :: byte" and ?y = "word_of_nat (nat (Y mod 64)) :: byte"
  have "e \<notin> set (fullEntries (chunkOr (keyAt X Y) w))" for e
    using assms(4) unfolding mem_fullEntries hasLiveCells_iff by blast
  then have "fullEntries (chunkOr (keyAt X Y) w) = []"
    by (cases "fullEntries (chunkOr (keyAt X Y) w)") auto
  moreover have "unat ?x < 64" "unat ?y < 64"
    using unat_byte [of "nat (X mod 64)"] unat_byte [of "nat (Y mod 64)"] mod_64_nat by metis+
  ultimately have "ownerIn (aliveCells (fold (applyPacket s kFlagFull) (fullPackets (chunks w)) m))
      (keyOf (keyAt X Y) ?x ?y) = ownerIn (aliveCells m) (keyOf (keyAt X Y) ?x ?y)"
    using snapshot_ownerIn [OF assms(1), of ?x ?y s m "keyAt X Y"] by presburger
  then show ?thesis
    unfolding afterSnapshot_eq ownerAt_ownerIn key_cover [OF assms(2,3)] by blast
qed

theorem snapshot_keeps_stale_cells_witness:
  "\<exists>m'. afterSnapshot 4 newWorld newClient (newWorldModel\<lparr>aliveCells := [(CellKey 5 6, 7)]\<rparr>) = Some m' \<and>
    ownerAt m' 5 6 = 7"
  using snapshot_keeps_stale_cells [of newWorld 5 6 4 newClient "newWorldModel\<lparr>aliveCells := [(CellKey 5 6, 7)]\<rparr>"]
    wf_newWorld
  by (simp add: inRange_def hasLiveCells_iff chunkOr_def newWorld_def tryGetChunk_def ownerAt_def)

end
