(* ===== verification/Thread_Pool.thy ===== *)
theory Thread_Pool
  imports World_Refinement
begin

section \<open>ThreadPool: the workers that run the tick's tasks\<close>

text \<open>
  The pool as a step relation: a client enqueues a task, a waiting worker takes the oldest
  task under the mutex, runs it outside, and goes back to wait; once the pool is stopping a
  waiting worker that finds the queue empty exits. \<open>shared\<close> is the state the tasks act on; a
  task's effect is one update of it, as the tick's tasks each touch a chunk of their own.
  \<open>enqueued\<close>, \<open>started\<close> and \<open>completed\<close> record the history; a future is ready when its task is
  in \<open>completed\<close>. A task is a label with the function it runs.
\<close>

type_synonym ('k, 's) task = "'k \<times> ('s \<Rightarrow> 's)"

datatype ('k, 's) Worker = Waiting | Running "('k, 's) task" | Exited

record ('k, 's) ThreadPool =
  tasks :: "('k, 's) task list"
  stopping :: bool
  workers :: "('k, 's) Worker list"
  shared :: 's
  enqueued :: "('k, 's) task list"
  started :: "('k, 's) task list"
  completed :: "('k, 's) task list"

definition newThreadPool :: "nat \<Rightarrow> 's \<Rightarrow> ('k, 's) ThreadPool" where
  "newThreadPool threadCount s = \<lparr>tasks = [], stopping = False,
     workers = replicate threadCount Waiting, shared = s, enqueued = [], started = [], completed = []\<rparr>"

definition enqueue :: "('k, 's) task \<Rightarrow> ('k, 's) ThreadPool \<Rightarrow> ('k, 's) ThreadPool" where
  "enqueue t p = p\<lparr>tasks := tasks p @ [t], enqueued := enqueued p @ [t]\<rparr>"

definition shutdownSignal :: "('k, 's) ThreadPool \<Rightarrow> ('k, 's) ThreadPool" where
  \<comment> \<open>\<open>shutdown\<close> up to its joins\<close>
  "shutdownSignal p = (if stopping p then p else p\<lparr>stopping := True\<rparr>)"

definition poolSize :: "('k, 's) ThreadPool \<Rightarrow> nat" where
  "poolSize p = length (workers p)"

text \<open>One turn of worker \<open>i\<close> in \<open>workerLoop\<close>: \<open>None\<close> is a wait whose predicate does not hold.\<close>

definition workerTurn :: "nat \<Rightarrow> ('k, 's) ThreadPool \<Rightarrow> ('k, 's) ThreadPool option" where
  "workerTurn i p = (case workers p ! i of
     Waiting \<Rightarrow>
       (if \<not> (stopping p \<or> tasks p \<noteq> []) then None
        else case tasks p of
               [] \<Rightarrow> Some (p\<lparr>workers := (workers p)[i := Exited]\<rparr>)
             | t # ts \<Rightarrow> Some (p\<lparr>tasks := ts, workers := (workers p)[i := Running t],
                                started := started p @ [t]\<rparr>))
   | Running t \<Rightarrow> Some (p\<lparr>workers := (workers p)[i := Waiting], shared := snd t (shared p),
                         completed := completed p @ [t]\<rparr>)
   | Exited \<Rightarrow> None)"

inductive pool_step :: "('k, 's) ThreadPool \<Rightarrow> ('k, 's) ThreadPool \<Rightarrow> bool" where
  turn: "i < length (workers p) \<Longrightarrow> workerTurn i p = Some p' \<Longrightarrow> pool_step p p'"
| enqueue: "pool_step p (enqueue t p)"
| shutdown: "pool_step p (shutdownSignal p)"

inductive_cases pool_stepE: "pool_step p p'"

inductive pool_reachable :: "'s \<Rightarrow> ('k, 's) ThreadPool \<Rightarrow> bool" for s where
  start: "pool_reachable s (newThreadPool n s)"
| step: "pool_reachable s p \<Longrightarrow> pool_step p p' \<Longrightarrow> pool_reachable s p'"

subsection \<open>Every task runs at most once, in order\<close>

fun runningTasks :: "('k, 's) Worker list \<Rightarrow> ('k, 's) task list" where
  "runningTasks [] = []"
| "runningTasks (Running t # ws) = t # runningTasks ws"
| "runningTasks (_ # ws) = runningTasks ws"

definition pool_inv :: "'s \<Rightarrow> ('k, 's) ThreadPool \<Rightarrow> bool" where
  "pool_inv s p \<longleftrightarrow> enqueued p = started p @ tasks p \<and>
     mset (started p) = mset (runningTasks (workers p)) + mset (completed p) \<and>
     shared p = fold snd (completed p) s"

lemma runningTasks_append [simp]: "runningTasks (ws @ ws') = runningTasks ws @ runningTasks ws'"
  by (induction ws rule: runningTasks.induct) auto

lemma running_split:
  assumes "i < length ws"
  shows "mset (runningTasks (ws[i := w])) + mset (runningTasks [ws ! i]) =
    mset (runningTasks ws) + mset (runningTasks [w])"
proof -
  let ?b = "drop (Suc i) ws"
  have ws: "ws = take i ws @ ws ! i # ?b" using assms by (rule id_take_nth_drop)
  have upd: "ws[i := w] = take i ws @ w # ?b" using assms by (rule upd_conv_take_nth_drop)
  have split: "mset (runningTasks (a @ x # b)) =
      mset (runningTasks a) + mset (runningTasks [x]) + mset (runningTasks b)" for a b x
    using runningTasks_append [of a "[x] @ b"] runningTasks_append [of "[x]" b] by simp
  show ?thesis
    unfolding upd by (subst (3) ws) (simp only: split ac_simps)
qed

lemma workerTurn_inv:
  assumes "i < length (workers p)" "workerTurn i p = Some p'" "pool_inv s p"
  shows "pool_inv s p'"
proof (cases "workers p ! i")
  case Waiting
  show ?thesis
  proof (cases "tasks p")
    case Nil
    with Waiting assms running_split [OF assms(1), of Exited] show ?thesis
      by (auto simp: workerTurn_def pool_inv_def split: if_splits)
  next
    case (Cons t ts)
    with Waiting assms running_split [OF assms(1), of "Running t"] show ?thesis
      by (auto simp: workerTurn_def pool_inv_def)
  qed
next
  case (Running t)
  with assms running_split [OF assms(1), of Waiting] show ?thesis
    by (auto simp: workerTurn_def pool_inv_def)
next
  case Exited
  with assms show ?thesis by (simp add: workerTurn_def)
qed

lemma pool_reachable_inv: "pool_reachable s p \<Longrightarrow> pool_inv s p"
proof (induction rule: pool_reachable.induct)
  case (start n)
  have "runningTasks (replicate n Waiting) = []" by (induction n) auto
  then show ?case by (simp add: pool_inv_def newThreadPool_def)
next
  case (step p p')
  from step(2,3) show ?case
  proof cases
    case (turn i)
    with step show ?thesis by (blast intro: workerTurn_inv)
  qed (auto simp: pool_inv_def enqueue_def shutdownSignal_def)
qed

text \<open>
  However the workers interleave: tasks are started in the order they were enqueued, each
  enqueued task is waiting, running or completed exactly once, and the shared state is the
  initial one with the completed tasks' effects, in the order they completed.
\<close>

theorem pool_runs_each_task_once:
  assumes "pool_reachable s p"
  shows "enqueued p = started p @ tasks p \<and>
    mset (enqueued p) = mset (tasks p) + mset (runningTasks (workers p)) + mset (completed p) \<and>
    shared p = fold snd (completed p) s"
  using pool_reachable_inv [OF assms] by (auto simp: pool_inv_def)

subsection \<open>Waiting for the futures returns\<close>

definition remaining :: "('k, 's) ThreadPool \<Rightarrow> nat" where
  "remaining p = 2 * length (tasks p) + length (runningTasks (workers p))"

lemma running_nonempty:
  "runningTasks ws \<noteq> [] \<Longrightarrow> \<exists>i t. i < length ws \<and> ws ! i = Running t"
proof (induction ws rule: runningTasks.induct)
  case (2 t ws)
  then show ?case by (intro exI [of _ 0]) simp
qed force+

lemma length_running:
  assumes "i < length ws"
  shows "length (runningTasks (ws[i := w])) + length (runningTasks [ws ! i]) =
    length (runningTasks ws) + length (runningTasks [w])"
  using arg_cong [OF running_split [OF assms, of w], of size] by simp

definition noneExited :: "('k, 's) ThreadPool \<Rightarrow> bool" where
  "noneExited p \<longleftrightarrow> Exited \<notin> set (workers p)"

lemma workers_stay:
  assumes "pool_reachable s p" "\<not> stopping p"
  shows "noneExited p"
  using assms
proof (induction rule: pool_reachable.induct)
  case (start n)
  then show ?case by (auto simp: noneExited_def newThreadPool_def)
next
  case (step p p')
  from step(2) show ?case
  proof cases
    case (turn i)
    then have "\<not> stopping p"
      using step.prems by (auto simp: workerTurn_def split: Worker.splits list.splits if_splits)
    then have ne: "Exited \<notin> set (workers p)" using step.IH by (simp add: noneExited_def)
    then have "Exited \<notin> set ((workers p)[i := w])" if "w \<noteq> Exited" for w
      using that set_update_subset_insert [of "workers p" i w] by auto
    with turn \<open>\<not> stopping p\<close> ne show ?thesis
      by (auto simp: workerTurn_def noneExited_def split: Worker.splits list.splits if_splits)
  qed (use step in \<open>auto simp: noneExited_def enqueue_def shutdownSignal_def split: if_splits\<close>)
qed

lemma turn_progress:
  assumes "i < length (workers p)" "workers p ! i = Running t \<or> (workers p ! i = Waiting \<and> tasks p \<noteq> [])"
  shows "\<exists>p'. workerTurn i p = Some p' \<and> remaining p' < remaining p"
  using assms(2)
proof
  assume r: "workers p ! i = Running t"
  with length_running [OF assms(1), of Waiting] show ?thesis
    by (simp add: workerTurn_def remaining_def)
next
  assume w: "workers p ! i = Waiting \<and> tasks p \<noteq> []"
  then obtain u ts where "tasks p = u # ts" by (cases "tasks p") auto
  with w length_running [OF assms(1), of "Running u"] show ?thesis
    by (simp add: workerTurn_def remaining_def)
qed

lemma turn_decreases:
  assumes "noneExited p" "\<not> stopping p" "i < length (workers p)" "workerTurn i p = Some p'"
  shows "remaining p' < remaining p"
proof -
  have "workers p ! i = Running t \<or> (workers p ! i = Waiting \<and> tasks p \<noteq> [])" if "workers p ! i = Running t" for t
    using that by simp
  moreover have "tasks p \<noteq> []" if "workers p ! i = Waiting"
    using assms(2,4) that by (auto simp: workerTurn_def)
  moreover have "workers p ! i \<noteq> Exited"
    using assms(1,3) nth_mem by (fastforce simp: noneExited_def)
  ultimately have "\<exists>t. workers p ! i = Running t \<or> (workers p ! i = Waiting \<and> tasks p \<noteq> [])"
    by (cases "workers p ! i") auto
  with turn_progress [OF assms(3)] assms(4) show ?thesis by fastforce
qed


subsection \<open>The tick's two rounds of tasks\<close>

definition chunkTasks :: "(Chunk \<Rightarrow> Chunk) \<Rightarrow> World \<Rightarrow> (ChunkCoord, World) task list" where
  "chunkTasks f w = map (\<lambda>k. (k, modifyChunk k f)) (map fst (chunks w))"

lemma pool_chunkTasks:
  assumes "wf_world w" "pool_reachable w p" "enqueued p = chunkTasks f w"
    "length (completed p) = length (enqueued p)"
  shows "shared p = runChunkTasks f (map fst (chunks w)) w"
proof -
  let ?keys = "map fst (chunks w)" and ?order = "map fst (completed p)"
  from pool_reachable_inv [OF assms(2)] have ms: "mset (enqueued p) =
      mset (tasks p) + mset (runningTasks (workers p)) + mset (completed p)"
    and sh: "shared p = fold snd (completed p) w"
    by (auto simp: pool_inv_def)
  from assms(4) arg_cong [OF ms, of size] have "tasks p = []" "runningTasks (workers p) = []"
    by (simp_all only: size_union size_mset) simp_all
  with ms have perm: "mset (completed p) = mset (enqueued p)" by simp
  then have "set (completed p) = set (chunkTasks f w)" using assms(3) by (metis set_mset_mset)
  then have shape: "\<forall>t \<in> set (completed p). snd t = modifyChunk (fst t) f" by (auto simp: chunkTasks_def)
  have "fold snd ts v = runChunkTasks f (map fst ts) v" if "\<forall>t \<in> set ts. snd t = modifyChunk (fst t) f" for ts v
    using that by (induction ts arbitrary: v) (simp_all add: runChunkTasks_def)
  with shape sh have "shared p = runChunkTasks f ?order w" by simp
  moreover have "map fst (chunkTasks f w) = ?keys" by (simp add: chunkTasks_def comp_def)
  then have "mset ?order = mset ?keys" using perm assms(3) by (metis mset_map)
  then have "set ?order = set ?keys" "distinct ?order = distinct ?keys"
    by (metis set_mset_mset, metis mset_eq_imp_distinct_iff)
  ultimately show ?thesis
    using runChunkTasks_order [OF assms(1), of ?order ?keys f] assms(1) by (simp add: wf_world_def)
qed

text \<open>A pool with one worker that runs its tasks as they come, to show that runs exist.\<close>

lemma run_all: "\<exists>p. pool_reachable s p \<and> enqueued p = ts \<and> completed p = ts \<and> tasks p = [] \<and>
    workers p = [Waiting]"
proof (induction ts rule: rev_induct)
  case Nil
  show ?case
    by (intro exI [of _ "newThreadPool 1 s"]) (simp_all add: pool_reachable.start, simp_all add: newThreadPool_def One_nat_def)
next
  case (snoc t ts)
  then obtain p where p: "pool_reachable s p" "enqueued p = ts" "completed p = ts" "tasks p = []"
    "workers p = [Waiting]" by blast
  let ?p1 = "enqueue t p"
  have "pool_reachable s ?p1" by (rule pool_reachable.step [OF p(1) pool_step.enqueue])
  let ?p2 = "?p1\<lparr>tasks := [], workers := [Running t], started := started ?p1 @ [t]\<rparr>"
  have "workerTurn 0 ?p1 = Some ?p2" using p by (simp add: workerTurn_def enqueue_def)
  then have "pool_reachable s ?p2"
    using pool_reachable.step [OF \<open>pool_reachable s ?p1\<close> pool_step.turn [of 0 ?p1 ?p2]] p by (simp add: enqueue_def)
  let ?p3 = "?p2\<lparr>workers := [Waiting], shared := snd t (shared ?p2), completed := completed ?p2 @ [t]\<rparr>"
  have "workerTurn 0 ?p2 = Some ?p3" by (simp add: workerTurn_def)
  then have "pool_reachable s ?p3"
    using pool_reachable.step [OF \<open>pool_reachable s ?p2\<close> pool_step.turn [of 0 ?p2 ?p3]] by simp
  then show ?case using p by (intro exI [of _ ?p3]) (simp add: enqueue_def)
qed

text \<open>
  C11. Whatever the number of workers and their interleaving, the two rounds of tasks of a tick
  (every chunk's \<open>calculateNext\<close>, all futures waited for, then every chunk's \<open>swapBuffers\<close>, all
  futures waited for) leave the world the sequential generation step computes.
\<close>

theorem generation_by_pool:
  assumes "wf_world w"
    and "pool_reachable (exchangeBorders w) p1" "enqueued p1 = chunkTasks calculateNext (exchangeBorders w)"
    "length (completed p1) = length (enqueued p1)"
    and "pool_reachable (shared p1) p2" "enqueued p2 = chunkTasks swapBuffers (shared p1)"
    "length (completed p2) = length (enqueued p2)"
  shows "shared p2 = simulateGeneration w"
proof -
  let ?w1 = "exchangeBorders w"
  have w1: "wf_world ?w1" by (rule exchangeBorders_facts(1) [OF assms(1)])
  from pool_chunkTasks [OF w1 assms(2-4)]
  have s1: "shared p1 = runChunkTasks calculateNext (map fst (chunks ?w1)) ?w1" .
  then have "wf_world (shared p1)" using wf_runAll [OF w1 wf_calculateNext] by simp
  from pool_chunkTasks [OF this assms(5-7)] show ?thesis
    by (simp add: s1 simulateGeneration_def Let_def)
qed

theorem generation_by_pool_witness:
  "\<exists>p :: (ChunkCoord, World) ThreadPool. pool_reachable (runChunkTasks calculateNext
       (map fst (chunks (exchangeBorders \<lparr>chunks = [(coord 0 0, newChunk)]\<rparr>)))
       (exchangeBorders \<lparr>chunks = [(coord 0 0, newChunk)]\<rparr>)) p \<and>
     shared p = simulateGeneration \<lparr>chunks = [(coord 0 0, newChunk)]\<rparr>"
proof -
  let ?w = "\<lparr>chunks = [(coord 0 0, newChunk)]\<rparr>"
  have wf: "wf_world ?w" by (simp add: wf_world_def wf_newChunk)
  obtain p1 where p1: "pool_reachable (exchangeBorders ?w) p1"
    "enqueued p1 = chunkTasks calculateNext (exchangeBorders ?w)"
    "completed p1 = chunkTasks calculateNext (exchangeBorders ?w)"
    using run_all [of "exchangeBorders ?w" "chunkTasks calculateNext (exchangeBorders ?w)"] by metis
  obtain p2 where p2: "pool_reachable (shared p1) p2" "enqueued p2 = chunkTasks swapBuffers (shared p1)"
    "completed p2 = chunkTasks swapBuffers (shared p1)"
    using run_all [of "shared p1" "chunkTasks swapBuffers (shared p1)"] by metis
  have "shared p2 = simulateGeneration ?w"
    by (rule generation_by_pool [OF wf p1(1,2) _ p2(1,2)]) (simp_all add: p1 p2)
  with p2(1) show ?thesis
    using pool_chunkTasks [OF exchangeBorders_facts(1) [OF wf] p1(1,2)] p1 by auto
qed

theorem pool_runs_each_task_once_witness:
  "\<exists>p :: (nat, nat) ThreadPool. enqueued p = [(0::nat, Suc), (1, \<lambda>n. 2 * n)] \<and> shared p = fold snd (completed p) 5 \<and>
    mset (enqueued p) = mset (tasks p) + mset (runningTasks (workers p)) + mset (completed p)"
proof -
  obtain p where "pool_reachable 5 p" "enqueued p = [(0::nat, Suc), (1, \<lambda>n. 2 * n)]"
    using run_all [of 5 "[(0::nat, Suc), (1, \<lambda>n. 2 * n)]"] by blast
  with pool_runs_each_task_once [of 5 p] show ?thesis by blast
qed


subsection \<open>After shutdown\<close>

text \<open>
  A task enqueued after the workers of a shut-down pool have exited is accepted and never
  runs: no sequence of steps completes it, so its future is never ready.
\<close>

theorem task_after_exit_lost:
  assumes "pool_step\<^sup>*\<^sup>* (enqueue t p) p'" "\<forall>v \<in> set (workers p). v = Exited"
  shows "completed p' = completed p \<and> t \<in> set (tasks p')"
proof -
  have "completed p' = completed p \<and> t \<in> set (tasks p') \<and> (\<forall>v \<in> set (workers p'). v = Exited)"
    using assms(1)
  proof (induction rule: rtranclp_induct)
    case base
    show ?case using assms(2) by (simp add: enqueue_def)
  next
    case (step p1 p2)
    from step(2) show ?case
    proof cases
      case (turn i)
      then have "workers p1 ! i = Exited" using step.IH nth_mem by blast
      with turn show ?thesis by (simp add: workerTurn_def)
    qed (use step.IH in \<open>auto simp: enqueue_def shutdownSignal_def\<close>)
  qed
  then show ?thesis by blast
qed

theorem task_after_exit_lost_witness:
  "pool_reachable (5::nat) ((newThreadPool 1 5)\<lparr>stopping := True, workers := [Exited]\<rparr> :: (nat, nat) ThreadPool) \<and>
   (0, Suc) \<in> set (tasks (enqueue (0::nat, Suc) ((newThreadPool 1 5)\<lparr>stopping := True, workers := [Exited]\<rparr>)))"
proof
  let ?p1 = "shutdownSignal (newThreadPool 1 5) :: (nat, nat) ThreadPool"
  let ?p2 = "(newThreadPool 1 5)\<lparr>stopping := True, workers := [Exited]\<rparr> :: (nat, nat) ThreadPool"
  have "pool_reachable 5 ?p1" by (rule pool_reachable.step [OF pool_reachable.start pool_step.shutdown])
  moreover have "workerTurn 0 ?p1 = Some ?p2"
    by (simp add: workerTurn_def shutdownSignal_def newThreadPool_def One_nat_def)
  then have "pool_step ?p1 ?p2"
    by (intro pool_step.turn [of 0]) (simp_all add: shutdownSignal_def newThreadPool_def)
  ultimately show "pool_reachable 5 ?p2" by (rule pool_reachable.step)
  show "(0, Suc) \<in> set (tasks (enqueue (0, Suc) ?p2))"
    using task_after_exit_lost [of "(0, Suc)" ?p2 "enqueue (0, Suc) ?p2"] by simp
qed

end
