(* ===== verification/Tick_Scheduler.thy ===== *)
theory Tick_Scheduler
  imports Prelude
begin

section \<open>TickScheduler: when the ticks happen\<close>

text \<open>
  The loop of the tick thread twice: as a schedule, in milliseconds of the steady clock, and as
  a state machine of \<open>start\<close>, \<open>stop\<close> and the loop's points. In the schedule each turn of the
  loop has the duration of its callback and the latency with which \<open>sleep_until\<close> wakes
  after its deadline.
\<close>

fun runLoopTimes :: "int \<Rightarrow> int \<Rightarrow> int \<Rightarrow> (int \<times> int) list \<Rightarrow> int list" where
  \<comment> \<open>the times at which the callback is called, from the values of \<open>nextTick\<close> and the clock\<close>
  "runLoopTimes tickInterval nextTick now [] = []"
| "runLoopTimes tickInterval nextTick now ((duration, latency) # turns) =
     (let nextTick' = nextTick + tickInterval
      in now # runLoopTimes tickInterval nextTick' (max (now + duration) nextTick' + latency) turns)"

lemma runLoopTimes_bounds:
  assumes "\<forall>(d, l) \<in> set turns. 0 \<le> l \<and> l \<le> late \<and> d + l \<le> interval"
    "nextTick \<le> now" "now \<le> nextTick + late" "k < length turns"
  shows "nextTick + int k * interval \<le> runLoopTimes interval nextTick now turns ! k \<and>
    runLoopTimes interval nextTick now turns ! k \<le> nextTick + int k * interval + late"
  using assms
proof (induction turns arbitrary: nextTick now k)
  case Nil
  then show ?case by simp
next
  case (Cons t turns)
  obtain d l where t: "t = (d, l)" by fastforce
  show ?case
  proof (cases k)
    case 0
    with Cons.prems t show ?thesis by (simp add: Let_def)
  next
    case (Suc j)
    let ?next = "nextTick + interval" and ?now = "max (now + d) (nextTick + interval) + l"
    have "?next \<le> ?now" "?now \<le> ?next + late" using Cons.prems t by auto
    with Cons.IH [of ?next ?now j] Cons.prems(1,4) t Suc show ?thesis
      by (simp add: Let_def algebra_simps)
  qed
qed

text \<open>
  The schedule does not drift: when every turn's callback and wake-up latency together fit
  the interval, tick \<open>k\<close> comes at \<open>k\<close> intervals after the start of the loop, late by at most one
  latency, however many ticks have passed.
\<close>

theorem ticks_do_not_drift:
  assumes "\<forall>(d, l) \<in> set turns. 0 \<le> l \<and> l \<le> late \<and> d + l \<le> interval" "0 \<le> late" "k < length turns"
  shows "start + int k * interval \<le> runLoopTimes interval start start turns ! k \<and>
    runLoopTimes interval start start turns ! k \<le> start + int k * interval + late"
  using assms by (intro runLoopTimes_bounds) auto

theorem ticks_do_not_drift_witness:
  "runLoopTimes 5000 100 100 [(30, 2), (4990, 0), (10, 1)] ! 2 \<in> {10100..10102}"
  using ticks_do_not_drift [of "[(30, 2), (4990, 0), (10, 1)]" 2 5000 2 100] by simp

subsection \<open>Starting and stopping\<close>

datatype LoopPoint = NoThread | AtTest | InCallback | Sleeping | Ended

record TickScheduler =
  schedRunning :: bool
  loopPoint :: LoopPoint
  joining :: bool
  ticks :: nat

definition newTickScheduler :: TickScheduler where
  "newTickScheduler = \<lparr>schedRunning = False, loopPoint = NoThread, joining = False, ticks = 0\<rparr>"

definition startTicks :: "TickScheduler \<Rightarrow> TickScheduler" where
  "startTicks s = (if schedRunning s then s else s\<lparr>schedRunning := True, loopPoint := AtTest\<rparr>)"

definition stopTicks :: "TickScheduler \<Rightarrow> TickScheduler" where
  \<comment> \<open>\<open>stop\<close> up to its join; \<open>joining\<close> while the caller waits in it\<close>
  "stopTicks s = (if \<not> schedRunning s then s
     else s\<lparr>schedRunning := False, joining := (loopPoint s \<noteq> NoThread)\<rparr>)"

definition joinTicks :: "TickScheduler \<Rightarrow> TickScheduler" where
  "joinTicks s = (if joining s \<and> loopPoint s = Ended then s\<lparr>joining := False, loopPoint := NoThread\<rparr> else s)"

definition loopTurn :: "bool \<Rightarrow> TickScheduler \<Rightarrow> TickScheduler" where
  "loopTurn callbackSet s = (case loopPoint s of
     AtTest \<Rightarrow> if \<not> schedRunning s then s\<lparr>loopPoint := Ended\<rparr>
       else if callbackSet then s\<lparr>loopPoint := InCallback, ticks := ticks s + 1\<rparr>
       else s\<lparr>loopPoint := Sleeping\<rparr>
   | InCallback \<Rightarrow> s\<lparr>loopPoint := Sleeping\<rparr>
   | Sleeping \<Rightarrow> s\<lparr>loopPoint := AtTest\<rparr>
   | _ \<Rightarrow> s)"

text \<open>The owner starts and stops the scheduler from one thread, as \<open>GameServer\<close> does: it does
  not call \<open>start\<close> while it waits in \<open>stop\<close>.\<close>

inductive sched_step :: "TickScheduler \<Rightarrow> TickScheduler \<Rightarrow> bool" where
  start: "\<not> joining s \<Longrightarrow> sched_step s (startTicks s)"
| stop: "\<not> joining s \<Longrightarrow> sched_step s (stopTicks s)"
| join: "joining s \<Longrightarrow> sched_step s (joinTicks s)"
| turn: "sched_step s (loopTurn callbackSet s)"

inductive_cases sched_stepE: "sched_step s s'"

definition sched_inv :: "TickScheduler \<Rightarrow> bool" where
  "sched_inv s \<longleftrightarrow>
     (schedRunning s \<longrightarrow> \<not> joining s \<and> loopPoint s \<in> {AtTest, InCallback, Sleeping}) \<and>
     (\<not> schedRunning s \<and> \<not> joining s \<longrightarrow> loopPoint s = NoThread) \<and>
     (joining s \<longrightarrow> loopPoint s \<noteq> NoThread)"

lemma sched_step_inv:
  assumes "sched_step s s'" "sched_inv s"
  shows "sched_inv s'"
  using assms
  by (elim sched_stepE)
    (auto simp: sched_inv_def startTicks_def stopTicks_def joinTicks_def loopTurn_def
      split: LoopPoint.splits)

lemma sched_reachable_inv:
  "sched_step\<^sup>*\<^sup>* newTickScheduler s \<Longrightarrow> sched_inv s"
  by (induction rule: rtranclp_induct)
    (auto simp: newTickScheduler_def sched_inv_def [of newTickScheduler] intro: sched_step_inv,
     simp add: sched_inv_def)



end
