(* ===== verification/Game_Runs.thy ===== *)
theory Game_Runs
  imports Game_Spec
begin

section \<open>Whole runs of the server refine the game\<close>

text \<open>
  The game as a player would describe it: a board, accounts, and the commands waiting for the
  next tick, with the prices written out. The abstraction maps a server state to it; every
  operation of the server is then the game's, so a run of any length is a run of the game.
\<close>

record Game =
  board :: Grid
  accounts :: "PlayerId \<rightharpoonup> u64"
  waiting :: "PlayerCommand list"

definition emptyGame :: Game where
  "emptyGame = \<lparr>board = (\<lambda>X Y. deadCell), accounts = Map.empty, waiting = []\<rparr>"

text \<open>
  What a command makes of its cell and of the balance of a player who has one: \<open>None\<close> is a
  refusal.
\<close>

fun gameEffect :: "CommandType \<Rightarrow> PlayerId \<Rightarrow> CellState \<Rightarrow> u64 \<Rightarrow> (CellState \<times> u64) option" where
  "gameEffect PlaceCell p cell b =
     (if owner cell = 0 \<and> 2 \<le> b then Some (\<lparr>alive = True, owner = p\<rparr>, b - 2) else None)"
| "gameEffect RemoveCell p cell b =
     (if owner cell = p then Some (\<lparr>alive = False, owner = 0\<rparr>, b + 1) else None)"
| "gameEffect ToggleCell p cell b =
     (if owner cell \<noteq> 0 \<and> owner cell \<noteq> p then None
      else if alive cell then Some (\<lparr>alive = False, owner = 0\<rparr>, b + 1)
      else if 2 \<le> b then Some (\<lparr>alive = True, owner = p\<rparr>, b - 2) else None)"

definition gameCommand ::
  "PlayerCommand \<Rightarrow> Grid \<times> (PlayerId \<rightharpoonup> u64) \<Rightarrow> Grid \<times> (PlayerId \<rightharpoonup> u64)" where
  "gameCommand cmd ga = (case ga of (g, acc) \<Rightarrow>
     (let X = sint (cmdX cmd); Y = sint (cmdY cmd); p = cmdPlayerId cmd
      in case Option.bind (acc p) (gameEffect (cmdType cmd) p (g X Y)) of
           None \<Rightarrow> (g, acc)
         | Some (cell, b) \<Rightarrow>
             (\<lambda>X' Y'. if sameCoord X' X \<and> sameCoord Y' Y then cell else g X' Y', acc(p \<mapsto> b))))"

definition payLive :: "Grid \<Rightarrow> (PlayerId \<rightharpoonup> u64) \<Rightarrow> PlayerId \<rightharpoonup> u64" where
  "payLive g acc = (\<lambda>p. if p = 0 \<or> gridLive g p = 0 then acc p
     else Some ((case acc p of None \<Rightarrow> 0 | Some b \<Rightarrow> b) + of_nat (gridLive g p)))"

datatype GameEvent = Join PlayerId | Send "PlayerCommand list" | Tick

fun gameStep :: "GameEvent \<Rightarrow> Game \<Rightarrow> Game" where
  "gameStep (Join p) g = g\<lparr>accounts := (accounts g)(p \<mapsto> 10)\<rparr>"
| "gameStep (Send cmds) g = g\<lparr>waiting := waiting g @ cmds\<rparr>"
| "gameStep Tick g =
     (let (b, acc) = fold gameCommand (waiting g) (lifeStep (board g), accounts g)
      in \<lparr>board = b, accounts = payLive b acc, waiting = []\<rparr>)"

fun serverStep :: "GameEvent \<Rightarrow> GameServer \<Rightarrow> GameServer" where
  "serverStep (Join p) s = onPlayerJoined p s"
| "serverStep (Send cmds) s = onCommandsFromNetwork cmds s"
| "serverStep Tick s = fst (onTick s)"

definition absGame :: "GameServer \<Rightarrow> Game" where
  "absGame s = \<lparr>board = cellAt (world s), accounts = map_of (balances (resources s)),
     waiting = queue (commandQueue s)\<rparr>"

subsection \<open>Commands\<close>

lemma map_of_known: "map_of (balances r) p = (if knownPlayer r p then Some (getBalance r p) else None)"
  by (auto simp: knownPlayer_iff getBalance_def split: option.splits)

lemma cellAt_write_same:
  "cell' = cellAt w X Y \<Longrightarrow>
     (if sameCoord X' X \<and> sameCoord Y' Y then cell' else cellAt w X' Y') = cellAt w X' Y'"
  using cellAt_sameCoord [of X' X Y' Y w] by auto

lemma trySpend_map:
  "map_of (balances (snd (trySpend p n r))) = (case map_of (balances r) p of
     Some b \<Rightarrow> if n \<le> b then (map_of (balances r))(p \<mapsto> b - n) else map_of (balances r)
   | None \<Rightarrow> map_of (balances r))"
  "fst (trySpend p n r) \<longleftrightarrow> (\<exists>b. map_of (balances r) p = Some b \<and> n \<le> b)"
  by (auto simp: trySpend_def update_conv' not_less fun_eq_iff split: option.splits)

lemma award_map:
  "map_of (balances (snd (award p n r))) = (case map_of (balances r) p of
     Some b \<Rightarrow> (map_of (balances r))(p \<mapsto> b + n) | None \<Rightarrow> map_of (balances r))"
  "fst (award p n r) \<longleftrightarrow> (\<exists>b. map_of (balances r) p = Some b)"
  by (auto simp: award_def update_conv' fun_eq_iff split: option.splits)

lemma commandEffect_map:
  "(case Option.bind (map_of (balances r) p) (gameEffect t p cell) of
      None \<Rightarrow> fst (commandEffect t p cell r) = cell \<and>
        map_of (balances (snd (commandEffect t p cell r))) = map_of (balances r)
    | Some (cell', b) \<Rightarrow> fst (commandEffect t p cell r) = cell' \<and>
        map_of (balances (snd (commandEffect t p cell r))) = (map_of (balances r))(p \<mapsto> b))"
proof -
  have upd: "cell\<lparr>alive := al, owner := o'\<rparr> = \<lparr>alive = al, owner = o'\<rparr>" for al o' by (cases cell) simp
  show ?thesis
    by (cases "map_of (balances r) p"; cases t)
      (auto simp: Let_def case_prod_beta trySpend_map award_map upd kPlaceCost_def kRemoveAward_def)
qed

lemma gameCommand_applyCommand:
  assumes "wf_world w"
  shows "gameCommand cmd (cellAt w, map_of (balances r)) =
    (cellAt (fst (applyCommand cmd (w, r))), map_of (balances (snd (applyCommand cmd (w, r)))))"
proof -
  let ?X = "sint (cmdX cmd)" and ?Y = "sint (cmdY cmd)" and ?p = "cmdPlayerId cmd"
  let ?cell = "cellAt w ?X ?Y"
  let ?eff = "commandEffect (cmdType cmd) ?p ?cell r"
  have cells: "cellAt (fst (applyCommand cmd (w, r))) = (\<lambda>X Y.
      if sameCoord X ?X \<and> sameCoord Y ?Y then fst ?eff else cellAt w X Y)"
    by (intro ext cellAt_applyCommand assms)
  have same: "(\<lambda>X Y. if sameCoord X ?X \<and> sameCoord Y ?Y then ?cell else cellAt w X Y) = cellAt w"
    by (intro ext cellAt_write_same) simp
  show ?thesis
    using commandEffect_map [where r = r and p = ?p and t = "cmdType cmd" and cell = ?cell]
    unfolding cells snd_applyCommand
    by (simp add: gameCommand_def Let_def same cong: if_cong split: option.splits prod.splits)
qed

interpretation commands_play: refinement "\<lambda>wr. wf_world (fst wr)" applyCommand
  "\<lambda>wr. (cellAt (fst wr), map_of (balances (snd wr)))" gameCommand
  by unfold_locales
    (auto simp: wf_applyCommand gameCommand_applyCommand split: prod.splits)

lemma gameCommands:
  "wf_world (fst wr) \<Longrightarrow> fold gameCommand cmds (cellAt (fst wr), map_of (balances (snd wr))) =
     (cellAt (fst (applyCommands cmds wr)), map_of (balances (snd (applyCommands cmds wr))))"
  by (simp add: applyCommands_def flip: commands_play.abst_run)

subsection \<open>Paying for live cells\<close>

lemma dom_getLiveCountByPlayer:
  "p \<in> fst ` set (getLiveCountByPlayer ch) \<longleftrightarrow> p \<noteq> 0 \<and> 0 < liveCellsIn ch p"
proof -
  let ?S = "{(x, y). x < 64 \<and> y < 64 \<and> alive (getCell ch x y) \<and> owner (getCell ch x y) = p}"
  have "finite ?S" by (rule finite_subset [of _ "{0..<64} \<times> {0..<64}"]) auto
  then have "0 < liveCellsIn ch p \<longleftrightarrow> ?S \<noteq> {}" by (simp add: liveCellsIn_def card_gt_0_iff)
  then show ?thesis
    by (simp add: getLiveCountByPlayer_count dom_fold_count) (auto simp: isOwned_def image_iff)
qed

lemma dom_collectLiveCounts:
  "p \<in> fst ` set (collectLiveCounts cs) \<longleftrightarrow> (\<exists>ch \<in> set cs. p \<in> fst ` set (getLiveCountByPlayer ch))"
proof -
  have 1: "fst ` set (fold (\<lambda>(p, n). add_at p n) kns m) = fst ` set m \<union> fst ` set kns"
    for kns and m :: "(PlayerId \<times> u64) list"
    by (induction kns arbitrary: m) (simp_all add: dom_add_at case_prod_beta)
  have "fst ` set (fold (\<lambda>ch totals. fold (\<lambda>(p, n). add_at p n) (getLiveCountByPlayer ch) totals) cs m) =
      fst ` set m \<union> (\<Union>ch \<in> set cs. fst ` set (getLiveCountByPlayer ch))" for m
    by (induction cs arbitrary: m) (auto simp: 1)
  then show ?thesis by (simp add: collectLiveCounts_def)
qed

lemma dom_collect_live:
  "p \<in> fst ` set (collectLiveCounts (allChunks w)) \<longleftrightarrow> p \<noteq> 0 \<and> 0 < liveCellsOf w p"
proof -
  have "0 < sum_list (map f xs) \<longleftrightarrow> (\<exists>x \<in> set xs. 0 < f x)" for f :: "Chunk \<Rightarrow> nat" and xs
    by (induction xs) auto
  then show ?thesis by (auto simp: dom_collectLiveCounts dom_getLiveCountByPlayer liveCellsOf_def)
qed

lemma payLive_onTick:
  assumes "wf_world w"
  shows "map_of (balances (awardFromLiveCounts (collectLiveCounts (allChunks w)) r)) =
    payLive (cellAt w) (map_of (balances r))"
proof
  fix p
  let ?r' = "awardFromLiveCounts (collectLiveCounts (allChunks w)) r"
  have "knownPlayer ?r' p \<longleftrightarrow> knownPlayer r p \<or> p \<noteq> 0 \<and> 0 < liveCellsOf w p"
    by (simp add: known_awardFromLiveCounts dom_collect_live)
  moreover have "getBalance ?r' p = getBalance r p + (if p = 0 then 0 else of_nat (liveCellsOf w p))"
    by (simp add: getBalance_awardFromLiveCounts distinct_collectLiveCounts lookup0_collect_live
        lookup0_collect_zero)
  moreover have "getBalance r p = (case map_of (balances r) p of None \<Rightarrow> 0 | Some b \<Rightarrow> b)"
    by (simp add: getBalance_def)
  moreover have "knownPlayer r p \<longleftrightarrow> map_of (balances r) p \<noteq> None" by (simp add: knownPlayer_iff)
  ultimately have "map_of (balances ?r') p = (if map_of (balances r) p \<noteq> None \<or> p \<noteq> 0 \<and> 0 < liveCellsOf w p
      then Some ((case map_of (balances r) p of None \<Rightarrow> 0 | Some b \<Rightarrow> b) +
        (if p = 0 then 0 else of_nat (liveCellsOf w p))) else None)"
    by (simp only: map_of_known [of ?r' p])
  then show "map_of (balances ?r') p = payLive (cellAt w) (map_of (balances r)) p"
    using liveCellsOf_grid [OF assms, of p] by (auto simp: payLive_def split: option.split)
qed

subsection \<open>Runs\<close>

lemma absGame_tick:
  assumes "wf_server s"
  shows "absGame (fst (onTick s)) = gameStep Tick (absGame s)"
proof -
  have w: "wf_world (world s)" using assms by (simp add: wf_server_def)
  have "lifeStep (cellAt (world s)) = cellAt (simulateGeneration (world s))"
    unfolding lifeStep_def by (intro ext) (simp add: simulateGeneration_life [OF w])
  then have "fold gameCommand (queue (commandQueue s)) (lifeStep (cellAt (world s)), map_of (balances (resources s))) =
      (cellAt (fst (afterCommands s)), map_of (balances (snd (afterCommands s))))"
    using gameCommands [of "(simulateGeneration (world s), resources s)" "queue (commandQueue s)"]
      wf_simulateGeneration [OF w]
    by (simp add: afterCommands_def)
  moreover have "cellAt (world (fst (onTick s))) = cellAt (fst (afterCommands s))"
    by (intro ext) (rule cellAt_onTick)
  moreover have "map_of (balances (resources (fst (onTick s)))) =
      payLive (cellAt (fst (afterCommands s))) (map_of (balances (snd (afterCommands s))))"
    using payLive_onTick [OF wf_afterCommands(1) [OF assms]] by (simp add: onTick_state)
  moreover have "queue (commandQueue (fst (onTick s))) = []" by (simp add: onTick_state emptyQueue_def)
  ultimately show ?thesis by (simp add: absGame_def)
qed

lemma absGame_step:
  assumes "wf_server s"
  shows "absGame (serverStep e s) = gameStep e (absGame s)"
proof (cases e)
  case (Join p)
  then show ?thesis
    by (simp add: absGame_def onPlayerJoined_def addPlayer_def update_conv' kStartBalance_def)
next
  case (Send cmds)
  then show ?thesis by (simp add: absGame_def onCommandsFromNetwork_def commands.contents_pushes)
next
  case Tick
  then show ?thesis using absGame_tick [OF assms] by simp
qed

lemma wf_serverStep: "wf_server s \<Longrightarrow> wf_server (serverStep e s)"
  using wf_onTick [of s]
  by (cases e) (simp_all add: wf_server_def onPlayerJoined_def onCommandsFromNetwork_def wf_addPlayer)

interpretation server_game: refinement wf_server serverStep absGame gameStep
  by unfold_locales (simp_all add: wf_serverStep absGame_step)

lemma absGame_start: "absGame (newGameServer network) = emptyGame"
proof -
  have "cellAt newWorld = (\<lambda>X Y. deadCell)" by (intro ext) (rule cellAt_newWorld)
  then show ?thesis
    by (simp add: absGame_def emptyGame_def newGameServer_def newResourceManager_def emptyQueue_def)
qed

text \<open>
  The server plays the game: after any run of joining players, commands and ticks, the
  cells, the accounts and the waiting commands of the server are those of the game after
  the same run, in which the rule acts on the whole board at once and each command acts on
  one cell and one account. In particular every command is applied exactly once, at the
  tick after it arrived, in the order of arrival.
\<close>

theorem server_plays_game:
  "absGame (fold serverStep events (newGameServer network)) = fold gameStep events emptyGame"
  using server_game.abst_run [OF wf_newGameServer] by (simp add: absGame_start)

subsection \<open>A sample server\<close>

text \<open>A server whose only live cell, at (3, -4), was placed in its last tick.\<close>

definition sampleServer :: GameServer where
  "sampleServer = onCommandsFromNetwork [placeSample] (onPlayerJoined 7 (newGameServer BoostNetwork))"

lemma wf_sampleServer: "wf_server sampleServer"
  using wf_serverStep [of "newGameServer BoostNetwork" "Join 7"]
    wf_serverStep [of "onPlayerJoined 7 (newGameServer BoostNetwork)" "Send [placeSample]"]
  by (simp add: wf_newGameServer sampleServer_def)

lemma absGame_sampleServer:
  "absGame sampleServer = \<lparr>board = (\<lambda>X Y. deadCell), accounts = [7 \<mapsto> 10], waiting = [placeSample]\<rparr>"
proof -
  have "queue (commandQueue sampleServer) = [placeSample]" "balances (resources sampleServer) = [(7, 10)]"
    "world sampleServer = newWorld"
    by (simp_all add: sampleServer_def onCommandsFromNetwork_def onPlayerJoined_def newGameServer_def
        addPlayer_def newResourceManager_def kStartBalance_def push_def emptyQueue_def)
  moreover have "cellAt newWorld = (\<lambda>X Y. deadCell)" by (intro ext) (rule cellAt_newWorld)
  ultimately show ?thesis by (simp add: absGame_def)
qed

lemma sampleServer_cells:
  "cellAt (world (fst (onTick sampleServer))) =
     (\<lambda>X Y. if sameCoord X 3 \<and> sameCoord Y (- 4) then \<lparr>alive = True, owner = 7\<rparr> else deadCell)"
proof -
  have "board (absGame (fst (onTick sampleServer))) =
     (\<lambda>X Y. if sameCoord X 3 \<and> sameCoord Y (- 4) then \<lparr>alive = True, owner = 7\<rparr> else deadCell)"
    using absGame_tick [OF wf_sampleServer]
    by (simp add: absGame_sampleServer lifeStep_dead gameCommand_def placeSample_def)
  then show ?thesis by (simp add: absGame_def)
qed

end
