(* ===== verification/Server_Process.thy ===== *)
theory Server_Process
  imports Game_Runs
begin

section \<open>The server process: main and the life of the server\<close>

text \<open>
  \<open>main\<close> builds a server on a network manager, installs the callback for joining players,
  starts the server, polls \<open>isRunning\<close> every 100 ms, and would then stop it. The
  network's thread and the tick scheduler's call into the server once their \<open>start\<close> has been
  called and until their \<open>stop\<close> has; each of their calls is a step, and so is each line of \<open>main\<close>.
\<close>

definition kTcpPort :: u16 where "kTcpPort = 9000"
definition kUdpPort :: u16 where "kUdpPort = 9001"
definition kWorkerThreads :: nat where "kWorkerThreads = 4"
definition kTickInterval :: nat where "kTickInterval = 5000"

definition isRunning :: "GameServer \<Rightarrow> bool" where
  "isRunning s \<longleftrightarrow> running s"

text \<open>The accessor throws when there is no network manager.\<close>

datatype AccessError = NetworkManagerNotInitialized

definition getNetworkManager :: "GameServer \<Rightarrow> AccessError + NetworkKind" where
  "getNetworkManager s =
     (if networkManager s = NoNetwork then Inl NetworkManagerNotInitialized else Inr (networkManager s))"

definition destroyServer :: "GameServer \<Rightarrow> GameServer \<times> ServerCall list" where
  "destroyServer s = stopServer s"

datatype MainPoint = Built | Configured | Polling | Stopped | Returned | Thrown AccessError

record ServerProcess =
  gameServer :: GameServer
  point :: MainPoint
  calls :: "ServerCall list"

definition startProcess :: ServerProcess where
  "startProcess = \<lparr>gameServer = newGameServer BoostNetwork, point = Built, calls = []\<rparr>"

definition networkUp :: "ServerProcess \<Rightarrow> bool" where
  "networkUp p \<longleftrightarrow> StartNetwork kTcpPort kUdpPort \<in> set (calls p) \<and> StopNetwork \<notin> set (calls p)"

definition schedulerUp :: "ServerProcess \<Rightarrow> bool" where
  "schedulerUp p \<longleftrightarrow> StartScheduler \<in> set (calls p) \<and> StopScheduler \<notin> set (calls p)"

definition serverDoes :: "GameServer \<times> ServerCall list \<Rightarrow> MainPoint \<Rightarrow> ServerProcess \<Rightarrow> ServerProcess" where
  "serverDoes r pt p = p\<lparr>gameServer := fst r, point := pt, calls := calls p @ snd r\<rparr>"

inductive process_step :: "ServerProcess \<Rightarrow> GameEvent list \<Rightarrow> ServerProcess \<Rightarrow> bool" where
  configure: "point p = Built \<Longrightarrow> getNetworkManager (gameServer p) = Inr nm \<Longrightarrow>
    process_step p [] (p\<lparr>point := Configured\<rparr>)"
| throw: "point p = Built \<Longrightarrow> getNetworkManager (gameServer p) = Inl err \<Longrightarrow>
    process_step p [] (p\<lparr>point := Thrown err\<rparr>)"
| begin_serving: "point p = Configured \<Longrightarrow>
    process_step p [] (serverDoes (startServer kTcpPort kUdpPort (gameServer p)) Polling p)"
| poll: "point p = Polling \<Longrightarrow> isRunning (gameServer p) \<Longrightarrow> process_step p [] p"
| leave: "point p = Polling \<Longrightarrow> \<not> isRunning (gameServer p) \<Longrightarrow>
    process_step p [] (serverDoes (stopServer (gameServer p)) Stopped p)"
| finish: "point p = Stopped \<Longrightarrow> process_step p [] (serverDoes (destroyServer (gameServer p)) Returned p)"
| joined: "networkUp p \<Longrightarrow> process_step p [Join q] (p\<lparr>gameServer := onPlayerJoined q (gameServer p)\<rparr>)"
| commands: "networkUp p \<Longrightarrow>
    process_step p [Send cmds] (p\<lparr>gameServer := onCommandsFromNetwork cmds (gameServer p)\<rparr>)"
| tick: "schedulerUp p \<Longrightarrow> process_step p [Tick] (serverDoes (onTick (gameServer p)) (point p) p)"

text \<open>The states a run reaches, with the game's events of the run.\<close>

inductive process_run :: "GameEvent list \<Rightarrow> ServerProcess \<Rightarrow> bool" where
  init: "process_run [] startProcess"
| step: "process_run events p \<Longrightarrow> process_step p e p' \<Longrightarrow> process_run (events @ e) p'"

inductive_cases process_stepE: "process_step p e p'"

subsection \<open>Starting and stopping\<close>

text \<open>
  A second start does nothing, a second stop does nothing, and a stop calls the scheduler's
  stop before the network manager's, so that no tick hands an update to a stopped network.
\<close>

lemma start_twice: "startServer t u (fst (startServer t u s)) = (fst (startServer t u s), [])"
  by (simp add: startServer_def refreshFullSnapshotCache_def)

lemma stop_twice: "stopServer (fst (stopServer s)) = (fst (stopServer s), [])"
  by (simp add: stopServer_def)

lemma start_stop:
  "networkManager s = BoostNetwork \<Longrightarrow> \<not> running s \<Longrightarrow>
   snd (startServer t u s) @ snd (stopServer (fst (startServer t u s))) =
     [SetCommandCallback, StartNetwork t u, SetFullSnapshotProvider, StartScheduler, StopScheduler, StopNetwork]"
  by (simp add: startServer_def stopServer_def refreshFullSnapshotCache_def)

subsection \<open>The process never ends by itself\<close>

definition process_inv :: "ServerProcess \<Rightarrow> bool" where
  "process_inv p \<longleftrightarrow> networkManager (gameServer p) = BoostNetwork \<and> wf_server (gameServer p) \<and>
     (point p \<in> {Built, Configured} \<and> calls p = [] \<and> \<not> running (gameServer p) \<or>
      point p = Polling \<and> running (gameServer p) \<and> networkUp p \<and> schedulerUp p)"

lemma tick_calls: "StopNetwork \<notin> set (snd (onTick s)) \<and> StopScheduler \<notin> set (snd (onTick s))"
  by (simp add: onTick_calls Let_def)

lemma process_inv_step: "process_inv p \<Longrightarrow> process_step p e p' \<Longrightarrow> process_inv p'"
proof (erule process_stepE, goal_cases)
  case 3
  then show ?case
    by (auto simp: process_inv_def serverDoes_def startServer_def refreshFullSnapshotCache_def networkUp_def
        schedulerUp_def wf_server_def)
next
  case 9
  then show ?case
    using tick_calls [of "gameServer p"] wf_onTick [of "gameServer p"]
    by (auto simp: process_inv_def serverDoes_def networkUp_def schedulerUp_def onTick_state)
qed (auto simp: process_inv_def getNetworkManager_def isRunning_def networkUp_def schedulerUp_def
    wf_server_def onPlayerJoined_def onCommandsFromNetwork_def wf_addPlayer)

lemma process_run_inv: "process_run events p \<Longrightarrow> process_inv p"
proof (induction rule: process_run.induct)
  case init
  have "wf_server (newGameServer BoostNetwork)" by (rule wf_newGameServer)
  then show ?case by (simp add: startProcess_def process_inv_def newGameServer_def)
qed (rule process_inv_step)

text \<open>
  The process never ends by itself: main reaches its polling loop and never leaves it, for the
  running flag is only cleared by \<open>stop\<close>, and nothing but main after the loop calls it. The
  server's orderly shutdown is dead code.
\<close>

theorem main_never_stops:
  assumes "process_run events p"
  shows "point p \<in> {Built, Configured, Polling} \<and> StopNetwork \<notin> set (calls p) \<and>
    (point p = Polling \<longrightarrow> isRunning (gameServer p))"
  using process_run_inv [OF assms] by (auto simp: process_inv_def networkUp_def isRunning_def)

definition servingProcess :: ServerProcess where
  "servingProcess = serverDoes (startServer kTcpPort kUdpPort (newGameServer BoostNetwork)) Polling
     (startProcess\<lparr>point := Configured\<rparr>)"

lemma servingProcess_run: "process_run [] servingProcess"
proof -
  have 1: "process_step startProcess [] (startProcess\<lparr>point := Configured\<rparr>)"
    by (rule process_step.configure [where nm = BoostNetwork])
      (simp_all add: startProcess_def getNetworkManager_def newGameServer_def)
  have 2: "process_step (startProcess\<lparr>point := Configured\<rparr>) [] servingProcess"
    using process_step.begin_serving [of "startProcess\<lparr>point := Configured\<rparr>"]
    by (simp add: servingProcess_def startProcess_def)
  from process_run.step [OF process_run.step [OF process_run.init 1] 2] show ?thesis by simp
qed

theorem main_never_stops_witness:
  "point servingProcess = Polling \<and> isRunning (gameServer servingProcess)"
  using main_never_stops [OF servingProcess_run] by (simp add: servingProcess_def serverDoes_def)

lemma absGame_start_server: "absGame (fst (startServer t u s)) = absGame s"
  by (simp add: startServer_def refreshFullSnapshotCache_def absGame_def)

text \<open>
  The process plays the game: whatever the interleaving of main, the network's thread and the
  scheduler's, the server's state is the game's after the same joins, commands and ticks.
\<close>

theorem process_plays_game:
  assumes "process_run events p"
  shows "absGame (gameServer p) = fold gameStep events emptyGame"
  using assms
proof (induction rule: process_run.induct)
  case init
  show ?case by (simp add: startProcess_def absGame_start)
next
  case (step events p e p')
  note inv = process_run_inv [OF step.hyps(1)]
  from step.hyps(2) have "absGame (gameServer p') = fold gameStep e (absGame (gameServer p))"
  proof cases
    case (joined q)
    with absGame_step [of "gameServer p" "Join q"] inv show ?thesis by (simp add: process_inv_def)
  next
    case (commands cmds)
    with absGame_step [of "gameServer p" "Send cmds"] inv show ?thesis by (simp add: process_inv_def)
  next
    case tick
    with absGame_step [of "gameServer p" Tick] inv show ?thesis by (simp add: process_inv_def serverDoes_def)
  qed (use inv in \<open>auto simp: process_inv_def isRunning_def serverDoes_def absGame_start_server\<close>)
  with step.IH show ?case by simp
qed

text \<open>Player 7 joins and places a cell.\<close>

theorem process_plays_game_witness:
  "\<exists>p. process_run [Join 7, Send [placeSample], Tick] p \<and> alive (cellAt (world (gameServer p)) 3 (- 4))"
proof -
  have up: "networkUp servingProcess" "schedulerUp servingProcess"
    by (simp_all add: networkUp_def schedulerUp_def servingProcess_def startProcess_def serverDoes_def
        startServer_def newGameServer_def)
  let ?p1 = "servingProcess\<lparr>gameServer := onPlayerJoined 7 (gameServer servingProcess)\<rparr>"
  let ?p2 = "?p1\<lparr>gameServer := onCommandsFromNetwork [placeSample] (gameServer ?p1)\<rparr>"
  have 1: "process_step servingProcess [Join 7] ?p1" using up by (intro process_step.joined)
  have 2: "process_step ?p1 [Send [placeSample]] ?p2"
    using up by (intro process_step.commands) (simp add: networkUp_def)
  have 3: "process_step ?p2 [Tick] (serverDoes (onTick (gameServer ?p2)) (point ?p2) ?p2)"
    using up by (intro process_step.tick) (simp add: schedulerUp_def)
  from process_run.step [OF process_run.step [OF process_run.step [OF servingProcess_run 1] 2] 3]
  have r: "process_run [Join 7, Send [placeSample], Tick] (serverDoes (onTick (gameServer ?p2)) (point ?p2) ?p2)" by simp
  have "fold gameStep [Join 7, Send [placeSample], Tick] emptyGame =
      absGame (fst (onTick sampleServer))"
    using server_game.abst_run [OF wf_newGameServer [of BoostNetwork], of "[Join 7, Send [placeSample], Tick]"]
    by (simp add: absGame_start sampleServer_def)
  with process_plays_game [OF r] have "board (absGame (gameServer (serverDoes (onTick (gameServer ?p2)) (point ?p2) ?p2))) =
      cellAt (world (fst (onTick sampleServer)))"
    by (simp add: absGame_def)
  then have "cellAt (world (gameServer (serverDoes (onTick (gameServer ?p2)) (point ?p2) ?p2))) 3 (- 4) = \<lparr>alive = True, owner = 7\<rparr>"
    by (simp add: absGame_def sampleServer_cells sameCoord_def)
  with r show ?thesis by auto
qed

end
