(* ===== verification/Server_Streams.thy ===== *)
theory Server_Streams
  imports Server_Process Boost_Network
begin

section \<open>The whole server on the bytes of its clients\<close>

text \<open>
  The network manager of \<open>Boost_Network\<close> and the server of \<open>Game_Server\<close> joined by the callbacks
  \<open>main\<close> and \<open>GameServer::start\<close> install: what a handler delivers is applied to the server, a tick's
  broadcasts are posted to the I/O thread. The outside is any number of connections, on which
  any bytes may be written at any time; TCP keeps each connection's bytes in order. A pure
  decoder says what a connection's bytes mean.
\<close>

subsection \<open>What a stream of bytes means\<close>

function commandsOf :: "PlayerId \<Rightarrow> byte list \<Rightarrow> GameEvent list" where
  "commandsOf p [] = []"
| "commandsOf p (t # bs) =
     (if t \<noteq> kCmdPlace \<and> t \<noteq> kCmdRemove \<and> t \<noteq> kCmdToggle then commandsOf p bs
      else if length bs < kCommandSize - 1 then []
      else (if readLE (take (kCommandSize - 1) bs) \<noteq> p then []
            else [Send [\<lparr>cmdPlayerId = p, cmdType = commandTypeOf t,
              cmdX = readLE (drop 8 (take (kCommandSize - 1) bs)),
              cmdY = readLE (drop 16 (take (kCommandSize - 1) bs))\<rparr>]])
           @ commandsOf p (drop (kCommandSize - 1) bs))"
  by pat_completeness auto
termination by (relation "measure (\<lambda>(p, bs). length bs)") auto

definition decodeStream :: "byte list \<Rightarrow> GameEvent list" where
  "decodeStream bs =
     (if length bs < kHandshakeSize then []
      else if readLE (take kHandshakeSize bs) \<noteq> kMagic then []
      else let p = readLE (drop 4 (take kHandshakeSize bs))
           in Join p # commandsOf p (drop kHandshakeSize bs))"

subsection \<open>Server and network manager\<close>

record 'ep ServerSystem =
  net :: "'ep NetSystem"
  core :: GameServer
  wrote :: "nat \<Rightarrow> byte list" \<comment> \<open>what the peer of each connection has written\<close>
  readTo :: "nat \<Rightarrow> nat" \<comment> \<open>how much of it the connection's session has read\<close>
  history :: "(nat option \<times> GameEvent) list"

definition unread :: "'ep ServerSystem \<Rightarrow> nat \<Rightarrow> byte list" where
  "unread u sid = drop (readTo u sid) (wrote u sid)"

definition consumed :: "'ep ServerSystem \<Rightarrow> nat \<Rightarrow> byte list" where
  "consumed u sid = take (readTo u sid) (wrote u sid)"

definition eventsOf :: "'ep ServerSystem \<Rightarrow> nat \<Rightarrow> GameEvent list" where
  "eventsOf u sid = map snd (filter (\<lambda>e. fst e = Some sid) (history u))"

text \<open>The callbacks: \<open>main\<close>'s for players, the server's for commands.\<close>

fun callback :: "'ep NetEffect \<Rightarrow> GameEvent list" where
  "callback (NotifyPlayer p) = [Join p]"
| "callback (DeliverCommands cs) = [Send cs]"
| "callback _ = []"

definition handled ::
  "'ep NetEffect \<Rightarrow> nat \<Rightarrow> nat \<Rightarrow> 'ep NetManager \<times> 'ep NetEffect list \<Rightarrow> 'ep ServerSystem \<Rightarrow> 'ep ServerSystem"
where
  "handled op sid k r u =
     (let events = concat (map callback (snd r))
      in u\<lparr>net := finish op r (net u), core := fold serverStep events (core u),
           readTo := (readTo u)(sid := readTo u sid + k), history := history u @ map (Pair (Some sid)) events\<rparr>)"

text \<open>A completed operation whose error code is set.\<close>

fun failedRead :: "'ep NetEffect \<Rightarrow> nat \<Rightarrow> 'ep NetManager \<Rightarrow> 'ep NetManager \<times> 'ep NetEffect list" where
  "failedRead (AwaitHandshake _) sid n = onHandshake True [] sid n"
| "failedRead (AwaitType _) sid n = onMessageType True 0 sid n"
| "failedRead (AwaitBody _ t) sid n = onCommandBody True t [] sid n"
| "failedRead _ sid n = (n, [])"

text \<open>The tick's calls on the network manager.\<close>

fun toNetwork :: "ServerCall \<Rightarrow> 'ep NetManager \<Rightarrow> 'ep NetManager" where
  "toNetwork (BroadcastWorldUpdate update) n = broadcastWorldUpdate update n"
| "toNetwork (BroadcastServerStats payload) n = broadcastServerStats payload n"
| "toNetwork _ n = n"

inductive server_step :: "'ep ServerSystem \<Rightarrow> 'ep ServerSystem \<Rightarrow> bool" where
  peer_writes: "server_step u (u\<lparr>wrote := (wrote u)(sid := wrote u sid @ bs)\<rparr>)"
| accept: "AwaitAccept \<in> set (pendingOps (net u)) \<Longrightarrow> ioRunning (manager (net u)) \<Longrightarrow>
    sid \<notin> fst ` set (sessionObjs (manager (net u))) \<Longrightarrow>
    server_step u (u\<lparr>net := finish AwaitAccept (onAccept ec sid ep (manager (net u))) (net u)\<rparr>)"
| handshake: "AwaitHandshake sid \<in> set (pendingOps (net u)) \<Longrightarrow> ioRunning (manager (net u)) \<Longrightarrow>
    kHandshakeSize \<le> length (unread u sid) \<Longrightarrow>
    server_step u (handled (AwaitHandshake sid) sid kHandshakeSize
      (onHandshake False (take kHandshakeSize (unread u sid)) sid (manager (net u))) u)"
| message: "AwaitType sid \<in> set (pendingOps (net u)) \<Longrightarrow> ioRunning (manager (net u)) \<Longrightarrow>
    unread u sid = t # bs \<Longrightarrow>
    server_step u (handled (AwaitType sid) sid 1 (onMessageType False t sid (manager (net u))) u)"
| body: "AwaitBody sid t \<in> set (pendingOps (net u)) \<Longrightarrow> ioRunning (manager (net u)) \<Longrightarrow>
    kCommandSize - 1 \<le> length (unread u sid) \<Longrightarrow>
    server_step u (handled (AwaitBody sid t) sid (kCommandSize - 1)
      (onCommandBody False t (take (kCommandSize - 1) (unread u sid)) sid (manager (net u))) u)"
| read_error: "op \<in> set (pendingOps (net u)) \<Longrightarrow> ioRunning (manager (net u)) \<Longrightarrow> opSession op = Some sid \<Longrightarrow>
    server_step u (handled op sid 0 (failedRead op sid (manager (net u))) u)"
| tick: "server_step u (u\<lparr>core := fst (onTick (core u)),
      net := (net u)\<lparr>manager := fold toNetwork (snd (onTick (core u))) (manager (net u))\<rparr>,
      history := history u @ [(None, Tick)]\<rparr>)"
| post: "ioRunning (manager (net u)) \<Longrightarrow>
    runPosted (Some (\<lambda>q. getFullSnapshotForSeq q (core u))) (manager (net u)) = Some (n', effs) \<Longrightarrow>
    server_step u (u\<lparr>net := (net u)\<lparr>manager := n', netLog := netLog (net u) @ effs\<rparr>\<rparr>)"

inductive_cases server_stepE: "server_step u u'"

definition startSystem :: "'ep ServerSystem" where
  "startSystem = \<lparr>net = netStart, core = fst (startServer kTcpPort kUdpPort (newGameServer BoostNetwork)),
     wrote = (\<lambda>_. []), readTo = (\<lambda>_. 0), history = []\<rparr>"

inductive system_run :: "'ep ServerSystem \<Rightarrow> bool" where
  start: "system_run startSystem"
| step: "system_run u \<Longrightarrow> server_step u u' \<Longrightarrow> system_run u'"

subsection \<open>The decoder piece by piece\<close>

lemma commandsOf_short:
  "t = kCmdPlace \<or> t = kCmdRemove \<or> t = kCmdToggle \<Longrightarrow> length bs < kCommandSize - 1 \<Longrightarrow> commandsOf p (t # bs) = []"
  by auto

lemma decodeStream_short: "length bs < kHandshakeSize \<Longrightarrow> decodeStream bs = []"
  by (simp add: decodeStream_def)

text \<open>What an outstanding read of a session says about the bytes its session has read.\<close>

fun phaseOk :: "'ep NetManager \<Rightarrow> (nat \<Rightarrow> byte list) \<Rightarrow> 'ep NetEffect \<Rightarrow> bool" where
  "phaseOk n tk (AwaitHandshake sid) \<longleftrightarrow> tk sid = []"
| "phaseOk n tk (AwaitType sid) \<longleftrightarrow>
     (\<forall>bs. decodeStream (tk sid @ bs) = decodeStream (tk sid) @ commandsOf (playerOf n sid) bs)"
| "phaseOk n tk (AwaitBody sid t) \<longleftrightarrow> (t = kCmdPlace \<or> t = kCmdRemove \<or> t = kCmdToggle) \<and>
     (\<forall>bs. decodeStream (tk sid @ bs) = decodeStream (tk sid) @ commandsOf (playerOf n sid) (t # bs))"
| "phaseOk n tk _ \<longleftrightarrow> True"

lemma phaseOk_cong:
  assumes "phaseOk n tk e" "\<And>sid. opSession e = Some sid \<Longrightarrow> playerOf n' sid = playerOf n sid \<and> tk' sid = tk sid"
  shows "phaseOk n' tk' e"
  using assms by (cases e) auto

lemma playerOf_identity: "identity n' sid = identity n sid \<Longrightarrow> playerOf n' sid = playerOf n sid"
  by (auto simp: identity_def playerOf_def split: option.splits)

text \<open>The reads, one at a time: what was read decodes to what was delivered, and the next phase is right.\<close>

lemma handshake_phase:
  assumes "tk sid = []" "length buf = kHandshakeSize" "addPlayerCallbackSet n"
    and obj: "sid \<in> fst ` set (sessionObjs n)"
  defines "r \<equiv> onHandshake False buf sid n"
  shows "decodeStream buf = concat (map callback (snd r))"
    "\<forall>e \<in> set (filter isAwait (snd r)). phaseOk (fst r) (tk(sid := buf)) e \<and> opSession e = Some sid"
proof -
  obtain s where s: "map_of (sessionObjs n) sid = Some s" using obj by (metis map_of_eq_None_iff not_None_eq)
  show "decodeStream buf = concat (map callback (snd r))"
    using assms(2,3) by (auto simp: r_def onHandshake_def decodeStream_def Let_def split: option.splits)
  show "\<forall>e \<in> set (filter isAwait (snd r)). phaseOk (fst r) (tk(sid := buf)) e \<and> opSession e = Some sid"
    using assms(2) s
    by (auto simp: r_def onHandshake_def decodeStream_def playerOf_def map_of_modifySession Let_def split: option.splits)
qed

lemma message_phase:
  fixes t :: byte
  assumes "phaseOk n tk (AwaitType sid)"
  defines "r \<equiv> onMessageType False t sid n"
  shows "decodeStream (tk sid @ [t]) = decodeStream (tk sid) @ concat (map callback (snd r))"
    "\<forall>e \<in> set (filter isAwait (snd r)). phaseOk (fst r) (tk(sid := tk sid @ [t])) e \<and> opSession e = Some sid"
proof -
  have p: "playerOf (fst r) sid = playerOf n sid"
    by (rule playerOf_identity) (auto simp: r_def onMessageType_def identity_modifySession split: option.splits)
  have tags: "kMsgResyncReq \<noteq> kCmdPlace" "kMsgResyncReq \<noteq> kCmdRemove" "kMsgResyncReq \<noteq> kCmdToggle"
    by (simp_all add: kMsgResyncReq_def kCmdPlace_def kCmdRemove_def kCmdToggle_def)
  have d: "decodeStream (tk sid @ t # bs) = decodeStream (tk sid) @ commandsOf (playerOf n sid) (t # bs)" for bs
    using assms(1) by simp
  have size: "0 < kCommandSize - 1" by (simp add: kCommandSize_def)
  show one: "decodeStream (tk sid @ [t]) = decodeStream (tk sid) @ concat (map callback (snd r))"
    using d [of "[]"] tags size by (auto simp: r_def onMessageType_def)
  show "\<forall>e \<in> set (filter isAwait (snd r)). phaseOk (fst r) (tk(sid := tk sid @ [t])) e \<and> opSession e = Some sid"
    using d d [of "[]"] tags size p by (auto simp: r_def onMessageType_def)
qed

lemma body_phase:
  assumes "phaseOk n tk (AwaitBody sid t)" "length buf = kCommandSize - 1" "commandCallbackSet n"
  defines "r \<equiv> onCommandBody False t buf sid n"
  shows "decodeStream (tk sid @ buf) = decodeStream (tk sid) @ concat (map callback (snd r))"
    "\<forall>e \<in> set (filter isAwait (snd r)). phaseOk (fst r) (tk(sid := tk sid @ buf)) e \<and> opSession e = Some sid"
proof -
  have d: "decodeStream (tk sid @ buf @ bs) = decodeStream (tk sid) @ concat (map callback (snd r)) @ commandsOf (playerOf n sid) bs" for bs
    using assms(1-3) by (auto simp: r_def onCommandBody_def Let_def)
  from d [of "[]"] show one: "decodeStream (tk sid @ buf) = decodeStream (tk sid) @ concat (map callback (snd r))" by simp
  show "\<forall>e \<in> set (filter isAwait (snd r)). phaseOk (fst r) (tk(sid := tk sid @ buf)) e \<and> opSession e = Some sid"
    using d one by (auto simp: r_def onCommandBody_def Let_def)
qed

subsection \<open>The invariant\<close>

definition sys_inv :: "'ep ServerSystem \<Rightarrow> bool" where
  "sys_inv u \<longleftrightarrow> net_inv (net u) \<and> commandCallbackSet (manager (net u)) \<and> addPlayerCallbackSet (manager (net u)) \<and>
     (\<forall>sid. readTo u sid \<le> length (wrote u sid)) \<and>
     (\<forall>sid. identity (manager (net u)) sid = None \<longrightarrow> readTo u sid = 0) \<and>
     (\<forall>sid. eventsOf u sid = decodeStream (consumed u sid)) \<and>
     (\<forall>e \<in> set (pendingOps (net u)). phaseOk (manager (net u)) (consumed u) e)"

lemma sys_phase: "sys_inv u \<Longrightarrow> e \<in> set (pendingOps (net u)) \<Longrightarrow> phaseOk (manager (net u)) (consumed u) e"
  unfolding sys_inv_def by blast

text \<open>A handler touches its own session only.\<close>

definition ownSession :: "nat \<Rightarrow> 'ep NetManager \<Rightarrow> 'ep NetManager \<Rightarrow> bool" where
  "ownSession sid n n' \<longleftrightarrow> commandCallbackSet n' = commandCallbackSet n \<and> addPlayerCallbackSet n' = addPlayerCallbackSet n \<and>
     (\<forall>sid'. identity n' sid' = None \<longleftrightarrow> identity n sid' = None) \<and> (\<forall>sid'. sid' \<noteq> sid \<longrightarrow> identity n' sid' = identity n sid')"

lemma identity_modify_None: "identity (modifySession sid f n) sid' = None \<longleftrightarrow> identity n sid' = None"
  by (simp add: identity_def map_of_modifySession)

lemma identity_modify_other: "sid' \<noteq> sid \<Longrightarrow> identity (modifySession sid f n) sid' = identity n sid'"
  by (simp add: identity_def map_of_modifySession)

lemma identity_update [simp]:
  "identity (n\<lparr>sessions := ss, udpEndpoints := es\<rparr>) = identity n" "identity (n\<lparr>ioRunning := b\<rparr>) = identity n"
  "identity (n\<lparr>posted := ts\<rparr>) = identity n" "identity (n\<lparr>nmSeqNum := q\<rparr>) = identity n"
  by (simp_all add: identity_def fun_eq_iff)

lemma modify_callback [simp]: "commandCallbackSet (modifySession sid f n) = commandCallbackSet n"
  by (simp add: modifySession_def)

lemma ownSession_handshake: "ownSession sid n (fst (onHandshake ec buf sid n))"
  by (auto simp: ownSession_def onHandshake_def Let_def identity_modify_None identity_modify_other split: option.splits)

lemma ownSession_message: "ownSession sid n (fst (onMessageType ec t sid n))"
  by (auto simp: ownSession_def onMessageType_def removeSession_def identity_modify_None identity_modifySession
      split: option.splits)

lemma ownSession_body: "ownSession sid n (fst (onCommandBody ec t buf sid n))"
  by (simp add: ownSession_def onCommandBody_def removeSession_def Let_def)

lemma consumed_handled:
  "consumed (handled op sid k r u) = (consumed u)(sid := consumed u sid @ take k (unread u sid))"
  by (auto simp: consumed_def unread_def handled_def Let_def take_add fun_eq_iff)

lemma eventsOf_handled:
  "eventsOf (handled op sid k r u) sid' = eventsOf u sid' @ (if sid' = sid then concat (map callback (snd r)) else [])"
  by (simp add: eventsOf_def handled_def Let_def filter_map comp_def)

lemma manager_finish: "manager (finish op r st) = fst r"
  by (simp add: finish_def)

lemma handled_inv:
  assumes inv: "sys_inv u" and op: "op \<in> set (pendingOps (net u))" "opSession op = Some sid"
    and net: "net_inv (finish op r (net u))" and k: "k \<le> length (unread u sid)"
    and own: "ownSession sid (manager (net u)) (fst r)"
    and events: "decodeStream (consumed u sid @ take k (unread u sid)) =
      decodeStream (consumed u sid) @ concat (map callback (snd r))"
    and new: "\<forall>e \<in> set (filter isAwait (snd r)).
      phaseOk (fst r) ((consumed u)(sid := consumed u sid @ take k (unread u sid))) e \<and> opSession e = Some sid"
  shows "sys_inv (handled op sid k r u)"
proof -
  let ?u = "handled op sid k r u" and ?n = "manager (net u)"
  have m: "manager (net ?u) = fst r" "pendingOps (net ?u) = remove1 op (pendingOps (net u)) @ filter isAwait (snd r)"
    "net ?u = finish op r (net u)" "wrote ?u = wrote u" "readTo ?u = (readTo u)(sid := readTo u sid + k)"
    by (simp_all add: handled_def finish_def Let_def)
  have d: "distinct (map opSession (pendingOps (net u)))"
    and ready: "\<forall>e \<in> set (pendingOps (net u)). opReady ?n e"
    using inv by (auto simp: sys_inv_def net_inv_def)
  have known: "identity ?n sid \<noteq> None" using ready op by (cases op) force+
  have other: "opSession e \<noteq> Some sid" if "e \<in> set (remove1 op (pendingOps (net u)))" for e
  proof -
    have "distinct (pendingOps (net u))" using d by (simp add: distinct_map)
    with that have "e \<in> set (pendingOps (net u))" "e \<noteq> op" by auto
    with d op show ?thesis by (auto simp: distinct_map inj_on_def)
  qed
  have "phaseOk (fst r) (consumed ?u) e" if "e \<in> set (pendingOps (net ?u))" for e
  proof (cases "e \<in> set (filter isAwait (snd r))")
    case True
    with new show ?thesis by (simp add: consumed_handled)
  next
    case False
    with that m(2) have e: "e \<in> set (remove1 op (pendingOps (net u)))" by auto
    then have "phaseOk ?n (consumed u) e" using inv by (auto simp: sys_inv_def dest: notin_set_remove1)
    then show ?thesis
    proof (rule phaseOk_cong)
      fix sid' assume "opSession e = Some sid'"
      with other [OF e] have "sid' \<noteq> sid" by auto
      with own show "playerOf (fst r) sid' = playerOf ?n sid' \<and> consumed ?u sid' = consumed u sid'"
        by (auto simp: ownSession_def consumed_handled intro: playerOf_identity)
    qed
  qed
  moreover have "eventsOf ?u sid' = decodeStream (consumed ?u sid')" for sid'
    using inv events by (simp add: eventsOf_handled consumed_handled sys_inv_def)
  moreover have "readTo ?u sid' \<le> length (wrote ?u sid')" for sid'
  proof -
    have "readTo u sid + k \<le> length (wrote u sid)"
      using inv k by (auto simp: sys_inv_def unread_def) (metis add.commute le_diff_conv2)
    with inv show ?thesis by (simp add: m sys_inv_def)
  qed
  moreover have "identity (fst r) sid' = None \<longrightarrow> readTo ?u sid' = 0" for sid'
    using inv own known by (auto simp: m sys_inv_def ownSession_def)
  ultimately show ?thesis
    using inv own net by (simp add: sys_inv_def m(3) ownSession_def manager_finish)
qed

subsection \<open>Every step keeps it\<close>

lemma sendInfos_callback:
  "sendInfos provider q delta infos full n = Some (n', effs) \<Longrightarrow> commandCallbackSet n' = commandCallbackSet n"
proof (induction infos arbitrary: full n n' effs)
  case Nil
  then show ?case by (cases full) simp
next
  case (Cons info infos)
  obtain p ep needsFull where info: "info = (p, ep, needsFull)" by (cases info)
  obtain fd fb where full: "full = (fd, fb)" by (cases full)
  have clear: "commandCallbackSet (clearNeedsFull p n) = commandCallbackSet n"
    by (simp add: clearNeedsFull_def split: option.split)
  from Cons.prems obtain full' effs' where "sendInfos provider q delta infos full' (if needsFull then clearNeedsFull p n else n) =
      Some (n', effs')"
    unfolding info full by (cases needsFull) (auto simp: Let_def split: option.splits prod.splits)
  from Cons.IH [OF this] clear show ?case by simp
qed

lemma runPosted_callback:
  "runPosted provider n = Some (n', effs) \<Longrightarrow> commandCallbackSet n' = commandCallbackSet n"
  using sendInfos_callback
  by (fastforce simp: runPosted_def doUdpBroadcast_def Let_def split: list.splits IoTask.splits if_splits)

lemma toNetwork_frame:
  "sameTables n (fold toNetwork cs n) \<and> commandCallbackSet (fold toNetwork cs n) = commandCallbackSet n"
proof (induction cs arbitrary: n)
  case (Cons c cs)
  have "sameTables n (toNetwork c n) \<and> commandCallbackSet (toNetwork c n) = commandCallbackSet n"
    by (cases c) (simp_all add: sameTables_def broadcastWorldUpdate_def broadcastServerStats_def)
  with Cons [of "toNetwork c n"] show ?case by (auto intro: sameTables_trans)
qed (simp add: sameTables_def)

text \<open>Steps that keep the tables, the operations and the streams.\<close>

lemma sys_inv_tables:
  assumes "sys_inv u" "sameTables (manager (net u)) n" "commandCallbackSet n"
    and same: "manager (net u') = n" "pendingOps (net u') = pendingOps (net u)" "wrote u' = wrote u" "readTo u' = readTo u"
      "\<And>sid. eventsOf u' sid = eventsOf u sid"
  shows "sys_inv u'"
proof -
  have "net_inv (net u')"
  proof -
    have "net u' = (net u)\<lparr>manager := n, netLog := netLog (net u')\<rparr>"
      using same(1,2) by (cases "net u'"; cases "net u") simp
    then show ?thesis using net_inv_sameTables assms(1,2) unfolding sys_inv_def by metis
  qed
  moreover have "consumed u' = consumed u" by (simp add: consumed_def same fun_eq_iff)
  moreover have "phaseOk n (consumed u) e" if "phaseOk (manager (net u)) (consumed u) e" for e
    using that assms(2) by (auto intro: phaseOk_cong playerOf_identity simp: sameTables_def)
  ultimately show ?thesis using assms by (auto simp: sys_inv_def sameTables_def)
qed

lemma sys_inv_accept:
  assumes inv: "sys_inv u" and a: "AwaitAccept \<in> set (pendingOps (net u))" "ioRunning (manager (net u))"
    and fresh: "sid \<notin> fst ` set (sessionObjs (manager (net u)))"
  shows "sys_inv (u\<lparr>net := finish AwaitAccept (onAccept ec sid ep (manager (net u))) (net u)\<rparr>)"
proof -
  let ?n = "manager (net u)" and ?r = "onAccept ec sid ep (manager (net u))"
  let ?u = "u\<lparr>net := finish AwaitAccept ?r (net u)\<rparr>"
  have none: "identity ?n sid = None" using fresh by (simp add: identity_def map_of_eq_None_iff)
  have id: "identity (fst ?r) sid' = identity ?n sid'" if "sid' \<noteq> sid" for sid'
    using that by (auto simp: onAccept_def identity_def update_conv' split: option.splits)
  have "net_inv (finish AwaitAccept ?r (net u))" using inv a fresh by (simp add: sys_inv_def net_inv_accept)
  moreover have "commandCallbackSet (fst ?r) = commandCallbackSet ?n" "addPlayerCallbackSet (fst ?r) = addPlayerCallbackSet ?n"
    by (simp_all add: onAccept_def split: option.split)
  moreover have c: "consumed ?u = consumed u" "eventsOf ?u = eventsOf u" by (simp_all add: consumed_def eventsOf_def fun_eq_iff)
  have "phaseOk (fst ?r) (consumed u) e" if "e \<in> set (pendingOps (finish AwaitAccept ?r (net u)))" for e
  proof (cases "e \<in> set (pendingOps (net u))")
    case True
    then have e: "opReady ?n e" "phaseOk ?n (consumed u) e" using inv by (auto simp: sys_inv_def net_inv_def)
    from e(1) none have "opSession e \<noteq> Some sid" by (cases e) auto
    with id show ?thesis by (intro phaseOk_cong [OF e(2)]) (auto intro: playerOf_identity)
  next
    case False
    with that have "e \<in> set (filter isAwait (snd ?r))" by (auto simp: finish_def dest: notin_set_remove1)
    then have "e = AwaitAccept \<or> e = AwaitHandshake sid" by (auto simp: onAccept_def split: option.splits if_splits)
    moreover have "consumed u sid = []" using inv none by (simp add: sys_inv_def consumed_def)
    ultimately show ?thesis by auto
  qed
  moreover have "identity (fst ?r) sid' = None \<longrightarrow> readTo u sid' = 0" for sid'
    using inv none id by (cases "sid' = sid") (simp_all add: sys_inv_def)
  ultimately show ?thesis using inv by (simp add: sys_inv_def c manager_finish)
qed

lemma sys_inv_step:
  assumes "server_step u u'" "sys_inv u"
  shows "sys_inv u'"
  using assms(1)
proof cases
  case (peer_writes sid bs)
  have "consumed u' sid' = consumed u sid'" "readTo u' sid' \<le> length (wrote u' sid')" for sid'
    using assms(2) by (auto simp: peer_writes consumed_def sys_inv_def trans_le_add1)
  then have "consumed u' = consumed u" "\<forall>sid. readTo u' sid \<le> length (wrote u' sid)" by auto
  then show ?thesis using assms(2) by (simp add: sys_inv_def peer_writes eventsOf_def)
next
  case (accept sid ec ep)
  with assms(2) show ?thesis by (simp add: sys_inv_accept)
next
  case (handshake sid)
  let ?n = "manager (net u)" and ?buf = "take kHandshakeSize (unread u sid)"
  have nil: "consumed u sid = []" using assms(2) handshake(2) by (force simp: sys_inv_def)
  have "opReady ?n (AwaitHandshake sid)" using assms(2) handshake(2) by (auto simp: sys_inv_def net_inv_def)
  then have obj: "sid \<in> fst ` set (sessionObjs ?n)"
    unfolding dom_map_of_conv_image_fst [symmetric] by (auto simp: identity_def)
  note ph = handshake_phase [where tk = "consumed u" and buf = ?buf and n = ?n and sid = sid, OF nil _ _ obj]
  show ?thesis
    unfolding handshake(1)
    using assms(2) handshake ph nil
    by (intro handled_inv [OF assms(2) handshake(2)] ownSession_handshake net_inv_handshake)
      (simp_all add: sys_inv_def decodeStream_short kHandshakeSize_def)
next
  case (message sid t bs)
  have ph: "phaseOk (manager (net u)) (consumed u) (AwaitType sid)" by (rule sys_phase [OF assms(2) message(2)])
  show ?thesis
    unfolding message(1)
    using assms(2) message message_phase [OF ph, of t]
    by (intro handled_inv [OF assms(2) message(2)] ownSession_message net_inv_msgType) (simp_all add: sys_inv_def)
next
  case (body sid t)
  have ph: "phaseOk (manager (net u)) (consumed u) (AwaitBody sid t)" by (rule sys_phase [OF assms(2) body(2)])
  show ?thesis
    unfolding body(1)
    using assms(2) body body_phase [OF ph, of "take (kCommandSize - 1) (unread u sid)"]
    by (intro handled_inv [OF assms(2) body(2)] ownSession_body net_inv_body) (simp_all add: sys_inv_def)
next
  case (read_error op sid)
  let ?n = "manager (net u)"
  have silent: "snd (failedRead op sid ?n) = []"
    by (cases op) (simp_all add: onHandshake_def onMessageType_def onCommandBody_def)
  have "net_inv (finish op (failedRead op sid ?n) (net u))"
    using assms(2) read_error
    by (cases op) (auto simp: sys_inv_def intro: net_inv_handshake net_inv_msgType net_inv_body)
  moreover have "ownSession sid ?n (fst (failedRead op sid ?n))"
    using read_error(4) by (cases op) (auto intro: ownSession_handshake ownSession_message ownSession_body)
  ultimately show ?thesis
    unfolding read_error(1) by (intro handled_inv [OF assms(2) read_error(2,4)]) (simp_all add: silent)
next
  case tick
  have n: "sameTables (manager (net u)) (manager (net u')) \<and> commandCallbackSet (manager (net u')) = commandCallbackSet (manager (net u))"
    using toNetwork_frame by (simp add: tick)
  show ?thesis
    by (rule sys_inv_tables [OF assms(2)]) (use n assms(2) in \<open>simp_all add: tick eventsOf_def sys_inv_def\<close>)
next
  case (post n' effs)
  show ?thesis
    by (rule sys_inv_tables [OF assms(2), where n = n'])
      (use post assms(2) runPosted_sameTables runPosted_callback in \<open>fastforce simp: eventsOf_def sys_inv_def\<close>)+
qed

lemma sys_inv_start: "sys_inv startSystem"
  using net_reachable_inv [OF net_reachable.start]
  by (simp add: sys_inv_def startSystem_def eventsOf_def consumed_def decodeStream_short kHandshakeSize_def)
    (simp add: netStart_def startNetwork_def newNetManager_def setAddPlayerCallback_def setCommandCallback_def Let_def)

lemma system_run_inv: "system_run u \<Longrightarrow> sys_inv u"
  by (induction rule: system_run.induct) (blast intro: sys_inv_start sys_inv_step)+

subsection \<open>The server plays what its clients write\<close>

lemma core_history:
  assumes "system_run u"
  shows "wf_server (core u) \<and> absGame (core u) = fold gameStep (map snd (history u)) emptyGame"
  using assms
proof (induction rule: system_run.induct)
  case start
  have "wf_server (newGameServer BoostNetwork)" by (rule wf_newGameServer)
  then show ?case
    by (simp add: startSystem_def absGame_start_server absGame_start)
      (simp add: startServer_def refreshFullSnapshotCache_def wf_server_def)
next
  case (step u u')
  have run: "wf_server (fold serverStep es (core u)) \<and>
      absGame (fold serverStep es (core u)) = fold gameStep (map snd (history u) @ es) emptyGame" for es
  proof -
    have "wf_server s \<Longrightarrow> wf_server (fold serverStep es s)" for s
      by (induction es arbitrary: s) (simp_all add: wf_serverStep)
    with step.IH server_game.abst_run [of "core u" es] show ?thesis by simp
  qed
  from step.hyps(2) show ?case
  proof cases
    case tick
    with run [of "[Tick]"] show ?thesis by simp
  qed (use step.IH run in \<open>simp_all add: handled_def Let_def comp_def\<close>)
qed

lemma history_ticks: "system_run u \<Longrightarrow> e \<in> set (history u) \<Longrightarrow> fst e = None \<Longrightarrow> snd e = Tick"
  by (induction rule: system_run.induct)
    (auto simp: startSystem_def handled_def Let_def elim!: server_stepE)


subsection \<open>Everything that is written is read\<close>

lemma system_run_steps: "server_step\<^sup>*\<^sup>* u u' \<Longrightarrow> system_run u \<Longrightarrow> system_run u'"
  by (induction rule: rtranclp_induct) (auto intro: system_run.step)

text \<open>A session in its message loop.\<close>

definition reading :: "'ep ServerSystem \<Rightarrow> nat \<Rightarrow> bool" where
  "reading u sid \<longleftrightarrow> ioRunning (manager (net u)) \<and>
     (\<exists>op \<in> set (pendingOps (net u)). op = AwaitType sid \<or> (\<exists>t. op = AwaitBody sid t))"

lemma unread_handled: "unread (handled op sid k r u) sid = drop k (unread u sid)"
  by (simp add: unread_def handled_def Let_def add.commute)

lemma decode_rest:
  assumes "sys_inv u" "e \<in> set (pendingOps (net u))" "e = AwaitType sid \<and> bs = unread u sid \<or>
    (\<exists>t. e = AwaitBody sid t \<and> bs = t # unread u sid)"
  shows "decodeStream (wrote u sid) = eventsOf u sid @ commandsOf (playerOf (manager (net u)) sid) bs"
proof -
  have "wrote u sid = consumed u sid @ unread u sid" by (simp add: consumed_def unread_def)
  moreover have "phaseOk (manager (net u)) (consumed u) e" "eventsOf u sid = decodeStream (consumed u sid)"
    using sys_phase [OF assms(1,2)] assms(1) by (simp_all add: sys_inv_def)
  ultimately show ?thesis using assms(3) by auto
qed

lemma reads_everything:
  assumes "system_run u" "reading u sid"
  shows "\<exists>u'. server_step\<^sup>*\<^sup>* u u' \<and> wrote u' = wrote u \<and> eventsOf u' sid = decodeStream (wrote u sid)"
  using assms
proof (induction "length (unread u sid)" arbitrary: u rule: less_induct)
  case less
  let ?n = "manager (net u)"
  have inv: "sys_inv u" by (rule system_run_inv [OF less.prems(1)])
  have later: "\<exists>u'. server_step\<^sup>*\<^sup>* u u' \<and> wrote u' = wrote u \<and> eventsOf u' sid = decodeStream (wrote u sid)"
    if step: "server_step u (handled op sid k r u)" and k: "0 < k" "k \<le> length (unread u sid)"
      and r: "ioRunning (fst r)" "\<exists>e \<in> set (filter isAwait (snd r)). e = AwaitType sid \<or> (\<exists>t. e = AwaitBody sid t)" for op k r
  proof -
    let ?u = "handled op sid k r u"
    have "length (unread ?u sid) < length (unread u sid)" using k by (simp add: unread_handled)
    moreover have "reading ?u sid"
      using r unfolding reading_def by (auto simp: handled_def finish_def Let_def)
    ultimately obtain u' where u': "server_step\<^sup>*\<^sup>* ?u u'" "wrote u' = wrote ?u" "eventsOf u' sid = decodeStream (wrote ?u sid)"
      using less.hyps [of ?u] system_run.step [OF less.prems(1) step] by blast
    moreover have "wrote ?u = wrote u" by (simp add: handled_def Let_def)
    ultimately show ?thesis using converse_rtranclp_into_rtranclp [of server_step, OF step u'(1)] by auto
  qed
  have stay: ?case if "decodeStream (wrote u sid) = eventsOf u sid"
    using that by (intro exI [of _ u]) simp
  from less.prems(2) have io: "ioRunning ?n" by (simp add: reading_def)
  from less.prems(2) consider (type) "AwaitType sid \<in> set (pendingOps (net u))"
    | (body) t where "AwaitBody sid t \<in> set (pendingOps (net u))" by (auto simp: reading_def)
  then show ?case
  proof cases
    case type
    show ?thesis
    proof (cases "unread u sid")
      case Nil
      with decode_rest [OF inv type, of sid "[]"] show ?thesis by (intro stay) simp
    next
      case (Cons t bs)
      show ?thesis
        by (rule later [OF server_step.message [OF type io Cons]])
          (use Cons io in \<open>auto simp: onMessageType_def split: option.split\<close>)
    qed
  next
    case (body t)
    show ?thesis
    proof (cases "kCommandSize - 1 \<le> length (unread u sid)")
      case True
      show ?thesis
        by (rule later [OF server_step.body [OF body io True]])
          (use True io in \<open>auto simp: onCommandBody_def kCommandSize_def Let_def\<close>)
    next
      case False
      have "phaseOk ?n (consumed u) (AwaitBody sid t)" by (rule sys_phase [OF inv body])
      then have "commandsOf (playerOf ?n sid) (t # unread u sid) = []"
        using False by (intro commandsOf_short) simp_all
      with decode_rest [OF inv body, of sid "t # unread u sid"] show ?thesis by (intro stay) simp
    qed
  qed
qed

text \<open>
  C4. No command is stuck: while the I/O thread runs and a session is in its message loop, the
  session can read on, whatever state the server is in, until everything its peer has written
  has entered the game, but for a last message that is not complete.
\<close>

theorem streams_are_read:
  assumes "system_run u" "reading u sid"
  shows "\<exists>u'. server_step\<^sup>*\<^sup>* u u' \<and> wrote u' = wrote u \<and>
    map snd (filter (\<lambda>e. fst e = Some sid) (history u')) = decodeStream (wrote u sid)"
  using reads_everything [OF assms] by (simp add: eventsOf_def)

subsection \<open>A run\<close>

text \<open>Connection 0 is accepted, its peer writes its stream, and its session reads the handshake.\<close>

definition acceptedSystem :: "nat ServerSystem" where
  "acceptedSystem = startSystem\<lparr>net := finish AwaitAccept
     (onAccept False 0 (Some 1) (manager (net (startSystem :: nat ServerSystem)))) (net startSystem)\<rparr>"

definition writtenSystem :: "byte list \<Rightarrow> nat ServerSystem" where
  "writtenSystem bs = acceptedSystem\<lparr>wrote := (wrote acceptedSystem)(0 := wrote acceptedSystem 0 @ bs)\<rparr>"

definition greetedSystem :: "byte list \<Rightarrow> nat ServerSystem" where
  "greetedSystem bs = (let u = writtenSystem bs in handled (AwaitHandshake 0) 0 kHandshakeSize
     (onHandshake False (take kHandshakeSize (unread u 0)) 0 (manager (net u))) u)"

lemmas sampleSystem_defs = acceptedSystem_def writtenSystem_def startSystem_def netStart_def startNetwork_def
  newNetManager_def setAddPlayerCallback_def setCommandCallback_def finish_def onAccept_def unread_def newSession_def

lemma writtenSystem_simps:
  "pendingOps (net (writtenSystem bs)) = [AwaitHandshake 0, AwaitAccept]" "ioRunning (manager (net (writtenSystem bs)))"
  "unread (writtenSystem bs) 0 = bs" "wrote (writtenSystem bs) 0 = bs"
  "sessionObjs (manager (net (writtenSystem bs))) = [(0, newSession (Some 1))]"
  by (simp_all add: sampleSystem_defs Let_def)

lemma writtenSystem_run: "system_run (writtenSystem bs)"
proof -
  have "server_step startSystem acceptedSystem"
    unfolding acceptedSystem_def by (rule server_step.accept) (simp_all add: sampleSystem_defs Let_def)
  moreover have "server_step acceptedSystem (writtenSystem bs)"
    unfolding writtenSystem_def by (rule server_step.peer_writes)
  ultimately show ?thesis by (blast intro: system_run.intros)
qed

lemma greetedSystem_run:
  assumes "kHandshakeSize \<le> length bs"
  shows "system_run (greetedSystem bs)"
proof -
  have "server_step (writtenSystem bs) (greetedSystem bs)"
    unfolding greetedSystem_def Let_def
    by (rule server_step.handshake) (use assms in \<open>simp_all add: writtenSystem_simps\<close>)
  with writtenSystem_run show ?thesis by (rule system_run.step)
qed

lemma greetedSystem_reading:
  assumes "kHandshakeSize \<le> length bs" "readLE (take kHandshakeSize bs) = kMagic"
  shows "reading (greetedSystem bs) 0" "wrote (greetedSystem bs) 0 = bs"
  using assms
  by (simp_all add: reading_def greetedSystem_def handled_def Let_def finish_def writtenSystem_simps onHandshake_def
      map_of_modifySession newSession_def)

lemma stream_greets:
  "kHandshakeSize \<le> length (helloBytes p @ bs)" "readLE (take kHandshakeSize (helloBytes p @ bs)) = kMagic"
  by (simp_all add: kHandshakeSize_def)

lemma decode_hello: "decodeStream (helloBytes p @ bs) = Join p # commandsOf p bs"
  by (simp add: decodeStream_def kHandshakeSize_def Let_def)


theorem streams_are_read_witness:
  "\<exists>u :: nat ServerSystem. system_run u \<and> reading u 0 \<and>
    (\<exists>u'. server_step\<^sup>*\<^sup>* u u' \<and> map snd (filter (\<lambda>e. fst e = Some 0) (history u')) = [Join 7])"
proof -
  let ?u = "greetedSystem (helloBytes 7 @ [kCmdPlace])"
  have r: "system_run ?u" by (rule greetedSystem_run [OF stream_greets(1)])
  note g = greetedSystem_reading [OF stream_greets, of 7 "[kCmdPlace]"]
  have "commandsOf 7 [kCmdPlace] = []" by (rule commandsOf_short) (simp_all add: kCommandSize_def)
  then have d: "decodeStream (wrote ?u 0) = [Join 7]" by (simp only: g(2) decode_hello)
  from streams_are_read [OF r g(1)] obtain u' where "server_step\<^sup>*\<^sup>* ?u u'"
    "map snd (filter (\<lambda>e. fst e = Some 0) (history u')) = decodeStream (wrote ?u 0)"
    by (elim exE conjE)
  then show ?thesis unfolding d using r g(1) by (intro exI conjI)
qed

end
