(* ===== verification/Client_Window.thy ===== *)
theory Client_Window
  imports Client_Network
begin

section \<open>GameWindow: editing, statistics and the connection dialog\<close>

text \<open>
  The slots of the window as functions on its state. A label is the data its text is made of,
  a list widget the list of its items' data, and the calls on \<open>ClientRuntime\<close> are returned in
  order. \<open>m_pendingEdits\<close> and \<open>m_serverPlayers\<close> are association
  lists in iteration order. What Qt computes from a text or a rectangle is an argument.
\<close>

definition kClientPlaceCost :: u64 where "kClientPlaceCost = 2"

datatype EditAction = Toggle | Place | Remove
datatype EditMode = Immediate | Queued

record ConnectionParams =
  paramHost :: string
  paramTcpPort :: u16
  paramUdpPort :: u16
  paramPlayerId :: u64

definition defaultParams :: ConnectionParams where
  "defaultParams = \<lparr>paramHost = ''127.0.0.1'', paramTcpPort = 9000, paramUdpPort = 9001, paramPlayerId = 1\<rparr>"

datatype StatusText =
  ConnectionStatus ConnectionText
| AlreadyOwned
| NotEnoughToPlace u64
| NotYoursToRemove
| NotYoursToToggle
| NotEnoughToToggle u64
| NotPermitted
| NotEnoughForQueue u64 u64

datatype RuntimeCall =
  CallConnect string u16 u16 u64
| CallDisconnect
| CallPlaceCell u64 u64
| CallRemoveCell u64 u64
| CallToggleCell u64 u64
| CallResync

record GameWindow =
  worldModel :: WorldModel
  lastParams :: ConnectionParams
  serverPlayers :: "(u64 \<times> ServerStatsEntry) list"
  pendingEdits :: "(CellKey \<times> EditAction) list"
  actionCombo :: EditAction
  modeCombo :: EditMode
  statusLabel :: StatusText
  generationLabel :: u32
  liveCellsLabel :: nat
  tickLabelShown :: bool
  tickTimerValid :: bool
  playerIdLabel :: u64
  balanceLabel :: "u64 option"
  myCellsLabel :: nat
  incomeLabel :: nat
  playersList :: "(u64 \<times> nat \<times> u64 option) list"
  pendingLabel :: nat
  pendingList :: "(EditAction \<times> CellKey) list"
  gridOverlay :: "(CellKey \<times> nat) list"
  centerLabel :: "int \<times> int"
  chunkLabel :: "int \<times> int"

subsection \<open>Statistics panel\<close>

definition playerBefore :: "(u64 \<times> ServerStatsEntry) list \<Rightarrow> u64 \<Rightarrow> u64 \<Rightarrow> bool" where
  "playerBefore players lhs rhs \<longleftrightarrow>
     (let l = the (map_of players lhs); r = the (map_of players rhs)
      in if statLiveCells l = statLiveCells r then lhs < rhs else statLiveCells l > statLiveCells r)"

definition refreshStatsPanel :: "GameWindow \<Rightarrow> GameWindow" where
  "refreshStatsPanel w =
     (let me = paramPlayerId (lastParams w); w1 = w\<lparr>playerIdLabel := me, playersList := []\<rparr>
      in if serverPlayers w1 = [] then
           (let myCells = liveCellsOwnedBy me (worldModel w1)
            in w1\<lparr>balanceLabel := None, myCellsLabel := myCells, incomeLabel := myCells,
                  playersList := map (\<lambda>(p, n). (p, n, None)) (ownerStats (worldModel w1))\<rparr>)
         else
           (let w2 = (case map_of (serverPlayers w1) me of
                  None \<Rightarrow> w1\<lparr>balanceLabel := Some 0, myCellsLabel := 0, incomeLabel := 0\<rparr>
                | Some st \<Rightarrow> w1\<lparr>balanceLabel := Some (statBalance st),
                    myCellsLabel := unat (statLiveCells st), incomeLabel := unat (statLiveCells st)\<rparr>);
                playerIds = sortBy (playerBefore (serverPlayers w2)) (map fst (serverPlayers w2))
            in w2\<lparr>playersList := map (\<lambda>p. let st = the (map_of (serverPlayers w2) p)
                  in (p, unat (statLiveCells st), Some (statBalance st))) playerIds\<rparr>))"

definition onServerStatsUpdated :: "ServerStatsEntry list \<Rightarrow> GameWindow \<Rightarrow> GameWindow" where
  "onServerStatsUpdated players w = refreshStatsPanel
     (w\<lparr>serverPlayers := fold (\<lambda>st. AList.update (statPlayerId st) st) players []\<rparr>)"

subsection \<open>Slots for the world model and the connection\<close>

definition onStatsChanged :: "bool \<Rightarrow> u32 \<Rightarrow> nat \<Rightarrow> GameWindow \<Rightarrow> GameWindow" where
  \<comment> \<open>the first argument: at least a millisecond has passed since the timer was restarted\<close>
  "onStatsChanged msPassed gen liveCells w =
     (let w1 = w\<lparr>generationLabel := gen, liveCellsLabel := liveCells\<rparr>;
          w2 = (if tickTimerValid w1 then (if msPassed then w1\<lparr>tickLabelShown := True\<rparr> else w1)
                else w1\<lparr>tickTimerValid := True\<rparr>)
      in refreshStatsPanel w2)"

fun onModelSignal :: "bool \<Rightarrow> ModelSignal \<Rightarrow> GameWindow \<Rightarrow> GameWindow" where
  "onModelSignal msPassed WorldChanged w = w"
| "onModelSignal msPassed (StatsChanged gen liveCells) w = onStatsChanged msPassed gen liveCells w"

definition onWorldUpdateReceived ::
  "bool \<Rightarrow> u32 \<Rightarrow> bool \<Rightarrow> u32 \<Rightarrow> u32 \<Rightarrow> AliveCell list \<Rightarrow> GameWindow \<Rightarrow> GameWindow"
where
  "onWorldUpdateReceived msPassed seqNum fullSnapshot chunkX chunkY cells w =
     (let (m, signals) = applyUpdate seqNum fullSnapshot chunkX chunkY cells (worldModel w)
      in fold (onModelSignal msPassed) signals (w\<lparr>worldModel := m\<rparr>))"

definition onConnectionStateChanged ::
  "ConnectionText \<Rightarrow> bool \<Rightarrow> GameWindow \<Rightarrow> GameWindow \<times> ConnectionParams option" where
  \<comment> \<open>the second result: the settings that are saved\<close>
  "onConnectionStateChanged msg connected w =
     (let w1 = w\<lparr>statusLabel := ConnectionStatus msg\<rparr>
      in if connected then (w1, Some (lastParams w1))
         else (refreshStatsPanel (w1\<lparr>serverPlayers := []\<rparr>), None))"

subsection \<open>Editing\<close>

definition sendAction ::
  "EditAction \<Rightarrow> u64 \<Rightarrow> u64 \<Rightarrow> GameWindow \<Rightarrow> GameWindow \<times> RuntimeCall list" where
  "sendAction action x y w =
     (let me = map_of (serverPlayers w) (paramPlayerId (lastParams w));
          balanceKnown = (me \<noteq> None);
          balance = (case me of Some st \<Rightarrow> statBalance st | None \<Rightarrow> 0);
          cellOwner = ownerAt (worldModel w) x y;
          reject = (\<lambda>reason. (w\<lparr>statusLabel := reason\<rparr>, []))
      in case action of
           Place \<Rightarrow>
             if cellOwner \<noteq> 0 then reject AlreadyOwned
             else if balanceKnown \<and> balance < kClientPlaceCost
             then reject (NotEnoughToPlace kClientPlaceCost)
             else (w, [CallPlaceCell x y])
         | Remove \<Rightarrow>
             if cellOwner \<noteq> paramPlayerId (lastParams w) then reject NotYoursToRemove
             else (w, [CallRemoveCell x y])
         | Toggle \<Rightarrow>
             if cellOwner \<noteq> 0 \<and> cellOwner \<noteq> paramPlayerId (lastParams w)
             then reject NotYoursToToggle
             else if balanceKnown \<and> cellOwner = 0 \<and> balance < kClientPlaceCost
             then reject (NotEnoughToToggle kClientPlaceCost)
             else (w, [CallToggleCell x y]))"

fun willSpend :: "EditAction \<Rightarrow> u64 \<Rightarrow> u64" where
  "willSpend Place o' = (if o' = 0 then kClientPlaceCost else 0)"
| "willSpend Toggle o' = (if o' = 0 then kClientPlaceCost else 0)"
| "willSpend Remove o' = 0"

fun isAllowed :: "u64 \<Rightarrow> EditAction \<Rightarrow> u64 \<Rightarrow> bool" where
  "isAllowed me Place o' \<longleftrightarrow> o' = 0"
| "isAllowed me Remove o' \<longleftrightarrow> o' = me"
| "isAllowed me Toggle o' \<longleftrightarrow> o' = 0 \<or> o' = me"

definition queuedSpend :: "WorldModel \<Rightarrow> (CellKey \<times> EditAction) list \<Rightarrow> u64" where
  "queuedSpend m edits =
     fold (\<lambda>(key, a) spend. spend + willSpend a (ownerAt m (keyX key) (keyY key))) edits 0"

text \<open>The pending list is in reading order: by row, then by column, both signed.\<close>

instantiation CellKey :: linorder
begin

definition less_eq_CellKey :: "CellKey \<Rightarrow> CellKey \<Rightarrow> bool" where
  "less_eq_CellKey a b \<longleftrightarrow> (if keyY a = keyY b then sint (keyX a) \<le> sint (keyX b)
     else sint (keyY a) < sint (keyY b))"

definition less_CellKey :: "CellKey \<Rightarrow> CellKey \<Rightarrow> bool" where
  "less_CellKey lhs rhs \<longleftrightarrow> (if keyY lhs = keyY rhs then sint (keyX lhs) < sint (keyX rhs)
     else sint (keyY lhs) < sint (keyY rhs))"

instance
proof
  fix a b c :: CellKey
  have inj: "sint v = sint v' \<longleftrightarrow> v = v'" for v v' :: u64 by (metis signed_word_eqI)
  note defs = less_eq_CellKey_def less_CellKey_def
  show "(a < b) = (a \<le> b \<and> \<not> b \<le> a)" using inj by (auto simp: defs)
  show "a \<le> a" by (simp add: defs)
  show "a \<le> b \<Longrightarrow> b \<le> c \<Longrightarrow> a \<le> c" by (auto simp: defs split: if_splits)
  show "a \<le> b \<Longrightarrow> b \<le> a \<Longrightarrow> a = b"
    using inj by (cases a; cases b) (fastforce simp: defs split: if_splits)
  show "a \<le> b \<or> b \<le> a" unfolding defs using inj by (metis linorder_le_cases linorder_less_linear)
qed

end

definition refreshPendingList :: "GameWindow \<Rightarrow> GameWindow" where
  "refreshPendingList w =
     w\<lparr>pendingList := map (\<lambda>key. (the (map_of (pendingEdits w) key), key))
         (sort (map fst (pendingEdits w))),
       pendingLabel := length (pendingEdits w)\<rparr>"

fun actionCode :: "EditAction \<Rightarrow> nat" where
  "actionCode Toggle = 0"
| "actionCode Place = 1"
| "actionCode Remove = 2"

definition onGridCellClicked ::
  "u64 \<Rightarrow> u64 \<Rightarrow> GameWindow \<Rightarrow> GameWindow \<times> RuntimeCall list" where
  "onGridCellClicked x y w =
     (let action = actionCombo w
      in if modeCombo w = Immediate then sendAction action x y w
         else
           let me = map_of (serverPlayers w) (paramPlayerId (lastParams w));
               balanceKnown = (me \<noteq> None);
               balance = (case me of Some st \<Rightarrow> statBalance st | None \<Rightarrow> 0);
               cellOwner = ownerAt (worldModel w) x y;
               spend = queuedSpend (worldModel w) (pendingEdits w);
               extra = willSpend action cellOwner;
               reject = (\<lambda>reason. (w\<lparr>statusLabel := reason\<rparr>, []))
           in if \<not> isAllowed (paramPlayerId (lastParams w)) action cellOwner
              then reject NotPermitted
              else if balanceKnown \<and> spend + extra > balance
              then reject (NotEnoughForQueue (spend + extra) balance)
              else
                let key = CellKey x y;
                    edits = (if map_of (pendingEdits w) key = Some action
                             then AList.delete key (pendingEdits w)
                             else AList.update key action (pendingEdits w));
                    w1 = refreshPendingList (w\<lparr>pendingEdits := edits\<rparr>);
                    overlay = fold (\<lambda>(k, a). AList.update k (actionCode a)) (pendingEdits w1) []
                in (w1\<lparr>gridOverlay := overlay\<rparr>, []))"

definition clearPendingEdits :: "GameWindow \<Rightarrow> GameWindow" where
  "clearPendingEdits w = (refreshPendingList (w\<lparr>pendingEdits := []\<rparr>))\<lparr>gridOverlay := []\<rparr>"

definition applyPendingEdits :: "GameWindow \<Rightarrow> GameWindow \<times> RuntimeCall list" where
  "applyPendingEdits w =
     (if pendingEdits w = [] then (w, [])
      else
        let (w1, calls) = fold (\<lambda>(key, a) (w', calls).
              let (w'', c) = sendAction a (keyX key) (keyY key) w' in (w'', calls @ c))
              (pendingEdits w) (w, [])
        in (clearPendingEdits w1, calls))"

subsection \<open>Navigation and connection\<close>

text \<open>The arguments are the centre of the view after \<open>llround\<close>.\<close>

definition updateNavigationPanel :: "int \<Rightarrow> int \<Rightarrow> GameWindow \<Rightarrow> GameWindow" where
  "updateNavigationPanel cx cy w =
     w\<lparr>centerLabel := (cx, cy), chunkLabel := (floorDiv cx 64, floorDiv cy 64)\<rparr>"

record ConnectionDialog =
  hostEdit :: string
  tcpPortSpin :: int
  udpPortSpin :: int
  playerIdEdit :: string

text \<open>
  The slot of the dialog's OK button: \<open>toULongLong\<close> and \<open>trimmed\<close> are Qt's conversions,
  \<open>random\<close> the text of a fresh random number.
\<close>

definition acceptDialog ::
  "(string \<Rightarrow> u64 option) \<Rightarrow> (string \<Rightarrow> string) \<Rightarrow> string \<Rightarrow> ConnectionDialog \<Rightarrow>
   ConnectionDialog \<times> ConnectionParams option" where
  "acceptDialog toULongLong trimmed random d =
     (case toULongLong (playerIdEdit d) of
        None \<Rightarrow> (d\<lparr>playerIdEdit := random\<rparr>, None)
      | Some value \<Rightarrow>
          if value = 0 then (d\<lparr>playerIdEdit := random\<rparr>, None)
          else (d, Some \<lparr>paramHost = (if trimmed (hostEdit d) = [] then ''127.0.0.1''
                                     else trimmed (hostEdit d)),
                   paramTcpPort = word_of_int (tcpPortSpin d),
                   paramUdpPort = word_of_int (udpPortSpin d), paramPlayerId = value\<rparr>))"

text \<open>\<open>None\<close>: the dialog was cancelled.\<close>

definition openConnectionDialog ::
  "bool \<Rightarrow> ConnectionParams option \<Rightarrow> GameWindow \<Rightarrow> GameWindow \<times> RuntimeCall list" where
  "openConnectionDialog msPassed result w = (case result of
     None \<Rightarrow> (w, [])
   | Some params \<Rightarrow>
       (let w1 = refreshStatsPanel (w\<lparr>lastParams := params\<rparr>);
            (m, signals) = reset (worldModel w1);
            w2 = fold (onModelSignal msPassed) signals (w1\<lparr>worldModel := m\<rparr>);
            w3 = w2\<lparr>tickLabelShown := False, tickTimerValid := False\<rparr>
        in (w3, [CallConnect (paramHost params) (paramTcpPort params) (paramUdpPort params)
                  (paramPlayerId params)])))"

text \<open>The arguments are the centre of the view when the window is built.\<close>

definition newWindow :: "int \<Rightarrow> int \<Rightarrow> GameWindow" where
  "newWindow cx cy = updateNavigationPanel cx cy (refreshStatsPanel (refreshPendingList
     \<lparr>worldModel = newWorldModel, lastParams = defaultParams, serverPlayers = [], pendingEdits = [],
      actionCombo = Toggle, modeCombo = Immediate, statusLabel = ConnectionStatus DisconnectedText,
      generationLabel = 0, liveCellsLabel = 0, tickLabelShown = False, tickTimerValid = False,
      playerIdLabel = 0, balanceLabel = Some 0, myCellsLabel = 0, incomeLabel = 0, playersList = [],
      pendingLabel = 0, pendingList = [], gridOverlay = [], centerLabel = (0, 0), chunkLabel = (0, 0)\<rparr>))"

subsection \<open>What the slots leave alone\<close>

lemma refreshStatsPanel_frame [frame_simps]:
  "worldModel (refreshStatsPanel w) = worldModel w"
  "lastParams (refreshStatsPanel w) = lastParams w"
  "serverPlayers (refreshStatsPanel w) = serverPlayers w"
  "pendingEdits (refreshStatsPanel w) = pendingEdits w"
  by (simp_all add: refreshStatsPanel_def Let_def split: option.split)

lemma refreshPendingList_frame [frame_simps]:
  "worldModel (refreshPendingList w) = worldModel w"
  "lastParams (refreshPendingList w) = lastParams w"
  "serverPlayers (refreshPendingList w) = serverPlayers w"
  "pendingEdits (refreshPendingList w) = pendingEdits w"
  by (simp_all add: refreshPendingList_def)

lemma onModelSignal_frame [frame_simps]:
  "worldModel (onModelSignal ms s w) = worldModel w"
  "lastParams (onModelSignal ms s w) = lastParams w"
  "serverPlayers (onModelSignal ms s w) = serverPlayers w"
  "pendingEdits (onModelSignal ms s w) = pendingEdits w"
  by (cases s; simp add: onStatsChanged_def Let_def frame_simps)+

text \<open>The window feeds the world model what the network client emits.\<close>

lemma worldModel_onWorldUpdateReceived:
  "worldModel (onWorldUpdateReceived ms s f cx cy cells w) = fst (applyUpdate s f cx cy cells (worldModel w))"
proof -
  have "worldModel (fold (onModelSignal ms) ss w) = worldModel w" for ss w
    by (induction ss arbitrary: w) (simp_all add: frame_simps)
  then show ?thesis by (simp add: onWorldUpdateReceived_def split_def Let_def)
qed

subsection \<open>Sending edits\<close>

fun editCall :: "EditAction \<Rightarrow> u64 \<Rightarrow> u64 \<Rightarrow> RuntimeCall" where
  "editCall Place x y = CallPlaceCell x y"
| "editCall Remove x y = CallRemoveCell x y"
| "editCall Toggle x y = CallToggleCell x y"

definition me :: "GameWindow \<Rightarrow> u64" where
  "me w = paramPlayerId (lastParams w)"

definition sendable :: "GameWindow \<Rightarrow> EditAction \<Rightarrow> u64 \<Rightarrow> u64 \<Rightarrow> bool" where
  "sendable w a x y \<longleftrightarrow> isAllowed (me w) a (ownerAt (worldModel w) x y) \<and>
     (case map_of (serverPlayers w) (me w) of None \<Rightarrow> True
      | Some st \<Rightarrow> willSpend a (ownerAt (worldModel w) x y) \<le> statBalance st)"

lemma sendAction_calls:
  "snd (sendAction a x y w) = (if sendable w a x y then [editCall a x y] else [])"
  by (cases a) (auto simp: sendAction_def sendable_def me_def Let_def not_less split: option.splits)

lemma sendAction_state:
  "fst (sendAction a x y w) = w \<or> (\<exists>r. fst (sendAction a x y w) = w\<lparr>statusLabel := r\<rparr>)"
  by (cases a) (auto simp: sendAction_def Let_def)

lemma sendAction_frame [frame_simps]:
  "worldModel (fst (sendAction a x y w)) = worldModel w"
  "lastParams (fst (sendAction a x y w)) = lastParams w"
  "serverPlayers (fst (sendAction a x y w)) = serverPlayers w"
  "pendingEdits (fst (sendAction a x y w)) = pendingEdits w"
  using sendAction_state [of a x y w] by auto

lemma sendable_cong:
  "worldModel w = worldModel w' \<Longrightarrow> lastParams w = lastParams w' \<Longrightarrow> serverPlayers w = serverPlayers w' \<Longrightarrow>
   sendable w a x y = sendable w' a x y"
  by (simp add: sendable_def me_def split: option.split)

lemma applyPendingEdits_calls:
  "snd (applyPendingEdits w) = concat (map (\<lambda>(k, a).
     if sendable w a (keyX k) (keyY k) then [editCall a (keyX k) (keyY k)] else []) (pendingEdits w))"
proof -
  let ?step = "\<lambda>(key, a) (w', calls). let (w'', c) = sendAction a (keyX key) (keyY key) w' in (w'', calls @ c)"
  have "snd (fold ?step es (w', cs)) = cs @ concat (map (\<lambda>(k, a).
      if sendable w a (keyX k) (keyY k) then [editCall a (keyX k) (keyY k)] else []) es)"
    if "worldModel w' = worldModel w" "lastParams w' = lastParams w" "serverPlayers w' = serverPlayers w"
    for w' cs es
    using that
  proof (induction es arbitrary: w' cs)
    case (Cons e es)
    obtain k a where e: "e = (k, a)" by fastforce
    obtain w'' c where sa: "sendAction a (keyX k) (keyY k) w' = (w'', c)" by fastforce
    then have "c = (if sendable w' a (keyX k) (keyY k) then [editCall a (keyX k) (keyY k)] else [])"
      "worldModel w'' = worldModel w" "lastParams w'' = lastParams w" "serverPlayers w'' = serverPlayers w"
      using sendAction_calls [of a "keyX k" "keyY k" w'] sendAction_frame [of a "keyX k" "keyY k" w'] Cons.prems
      by simp_all
    with Cons sendable_cong [OF Cons.prems] show ?case by (simp add: e sa)
  qed simp
  from this [where w' = w and cs = "[]" and es = "pendingEdits w"] show ?thesis
    by (auto simp: applyPendingEdits_def split_def Let_def)
qed

lemma pendingEdits_applyPendingEdits: "pendingEdits (fst (applyPendingEdits w)) = []"
  by (simp add: applyPendingEdits_def clearPendingEdits_def frame_simps split_def Let_def)

subsection \<open>The queue stays within the balance\<close>

definition queueCost :: "GameWindow \<Rightarrow> (CellKey \<times> EditAction) list \<Rightarrow> nat" where
  "queueCost w es = (\<Sum>(k, a) \<leftarrow> es. unat (willSpend a (ownerAt (worldModel w) (keyX k) (keyY k))))"

definition queue_ok :: "GameWindow \<Rightarrow> bool" where
  "queue_ok w \<longleftrightarrow> distinct (map fst (pendingEdits w)) \<and>
     (\<forall>(k, a) \<in> set (pendingEdits w). isAllowed (me w) a (ownerAt (worldModel w) (keyX k) (keyY k))) \<and>
     (case map_of (serverPlayers w) (me w) of None \<Rightarrow> True
      | Some st \<Rightarrow> queueCost w (pendingEdits w) \<le> unat (statBalance st))"

lemma willSpend_le: "unat (willSpend a o') \<le> 2"
  by (cases a) (simp_all add: kClientPlaceCost_def)

lemma queueCost_le: "queueCost w es \<le> 2 * length es"
proof (induction es)
  case (Cons e es)
  obtain k a where "e = (k, a)" by fastforce
  with Cons willSpend_le [of a "ownerAt (worldModel w) (keyX k) (keyY k)"] show ?case
    by (simp add: queueCost_def)
qed (simp add: queueCost_def)

lemma queuedSpend_cost: "queuedSpend (worldModel w) es = word_of_nat (queueCost w es)"
proof -
  have "fold (\<lambda>(key, a) spend. spend + willSpend a (ownerAt (worldModel w) (keyX key) (keyY key))) es v =
      v + word_of_nat (queueCost w es)" for v
    by (induction es arbitrary: v) (auto simp: queueCost_def add.assoc)
  then show ?thesis by (simp add: queuedSpend_def)
qed

lemma unat_queuedSpend:
  assumes "length es < 2 ^ 62"
  shows "unat (queuedSpend (worldModel w) es + willSpend a o') = queueCost w es + unat (willSpend a o')"
proof -
  have "queueCost w es + unat (willSpend a o') < 2 ^ 64"
    using queueCost_le [of w es] willSpend_le [of a o'] assms by simp
  moreover have "queuedSpend (worldModel w) es + willSpend a o' =
      word_of_nat (queueCost w es + unat (willSpend a o'))"
    by (simp add: queuedSpend_cost)
  ultimately show ?thesis by (simp add: unat_of_nat del: of_nat_add)
qed

lemma queueCost_update:
  "queueCost w (AList.update k a es) \<le> queueCost w es + unat (willSpend a (ownerAt (worldModel w) (keyX k) (keyY k)))"
  by (induction es) (auto simp: queueCost_def)

lemma queueCost_delete: "queueCost w (AList.delete k es) \<le> queueCost w es"
  by (induction es) (auto simp: queueCost_def)

lemma queueCost_cong: "worldModel w = worldModel w' \<Longrightarrow> queueCost w = queueCost w'"
  by (simp add: queueCost_def fun_eq_iff)

definition queueClick :: "EditAction \<times> u64 \<times> u64 \<Rightarrow> GameWindow \<Rightarrow> GameWindow" where
  \<comment> \<open>choose an action, the queued mode, and click on a cell\<close>
  "queueClick c w = (case c of (a, x, y) \<Rightarrow>
     fst (onGridCellClicked x y (w\<lparr>actionCombo := a, modeCombo := Queued\<rparr>)))"

lemma queue_ok_empty: "pendingEdits w = [] \<Longrightarrow> queue_ok w"
  by (simp add: queue_ok_def queueCost_def split: option.split)

lemma queueClick_frame [frame_simps]:
  "worldModel (queueClick c w) = worldModel w"
  "lastParams (queueClick c w) = lastParams w"
  "serverPlayers (queueClick c w) = serverPlayers w"
  by (cases c; simp add: queueClick_def onGridCellClicked_def Let_def frame_simps)+

definition clickAccepted :: "GameWindow \<Rightarrow> EditAction \<Rightarrow> u64 \<Rightarrow> u64 \<Rightarrow> bool" where
  "clickAccepted w a x y \<longleftrightarrow> isAllowed (me w) a (ownerAt (worldModel w) x y) \<and>
     (\<forall>st. map_of (serverPlayers w) (me w) = Some st \<longrightarrow>
        queuedSpend (worldModel w) (pendingEdits w) + willSpend a (ownerAt (worldModel w) x y) \<le> statBalance st)"

lemma pendingEdits_queueClick:
  "pendingEdits (queueClick (a, x, y) w) =
     (if \<not> clickAccepted w a x y then pendingEdits w
      else if map_of (pendingEdits w) (CellKey x y) = Some a
      then AList.delete (CellKey x y) (pendingEdits w)
      else AList.update (CellKey x y) a (pendingEdits w))"
  by (cases "map_of (serverPlayers w) (paramPlayerId (lastParams w))")
    (auto simp: queueClick_def onGridCellClicked_def clickAccepted_def me_def Let_def frame_simps
      dest: leD leI)

lemma length_queueClick: "length (pendingEdits (queueClick c w)) \<le> Suc (length (pendingEdits w))"
proof -
  have "length (AList.update k a es) \<le> Suc (length es)" for k a and es :: "(CellKey \<times> EditAction) list"
    by (induction es) auto
  moreover have "length (AList.delete k es) \<le> Suc (length es)" for k and es :: "(CellKey \<times> EditAction) list"
    by (simp add: AList.delete_eq le_SucI)
  ultimately show ?thesis by (cases c) (simp add: pendingEdits_queueClick)
qed

lemma queue_ok_click:
  assumes "queue_ok w" "length (pendingEdits w) < 2 ^ 62"
  shows "queue_ok (queueClick c w)"
proof -
  obtain a x y where c: "c = (a, x, y)" by (cases c)
  let ?o = "ownerAt (worldModel w) x y" and ?es = "pendingEdits w" and ?k = "CellKey x y"
  let ?new = "AList.update ?k a ?es"
  have m: "me (queueClick c w) = me w" by (simp add: me_def frame_simps)
  have cost: "queueCost (queueClick c w) = queueCost w" by (rule queueCost_cong) (simp add: frame_simps)
  note frame = frame_simps m cost
  consider "pendingEdits (queueClick c w) = ?es" | "pendingEdits (queueClick c w) = AList.delete ?k ?es"
    | "pendingEdits (queueClick c w) = ?new" "clickAccepted w a x y"
    unfolding c pendingEdits_queueClick by (metis (full_types))
  then show ?thesis
  proof cases
    case 1
    with assms(1) show ?thesis by (simp add: queue_ok_def frame split: option.splits)
  next
    case 2
    have "set (AList.delete ?k ?es) \<subseteq> set ?es" by (auto simp: AList.delete_eq)
    with assms(1) 2 queueCost_delete [of w ?k ?es] show ?thesis
      by (auto simp: queue_ok_def frame distinct_delete split: option.splits)
  next
    case 3
    have "set (AList.update k a es) \<subseteq> insert (k, a) (set es)" for k and es :: "(CellKey \<times> EditAction) list"
      by (induction es) auto
    then have "set ?new \<subseteq> insert (?k, a) (set ?es)" .
    with assms(1) 3(2) have "\<forall>(k, a) \<in> set ?new. isAllowed (me w) a (ownerAt (worldModel w) (keyX k) (keyY k))"
      by (auto simp: queue_ok_def clickAccepted_def)
    moreover have "queueCost w ?new \<le> unat (statBalance st)" if "map_of (serverPlayers w) (me w) = Some st" for st
      using 3(2) that queueCost_update [of w ?k a ?es] unat_queuedSpend [OF assms(2), of w a ?o]
      by (force simp: word_le_nat_alt clickAccepted_def)
    ultimately show ?thesis
      using assms(1) 3(1) by (auto simp: queue_ok_def frame distinct_update split: option.splits)
  qed
qed

lemma queue_ok_clicks:
  assumes "queue_ok w" "length (pendingEdits w) + length clicks < 2 ^ 62"
  shows "queue_ok (fold queueClick clicks w)"
  using assms
proof (induction clicks arbitrary: w)
  case (Cons c cs)
  then show ?case using queue_ok_click [of w c] length_queueClick [of c w] by simp
qed simp

lemma queue_ok_sends_all:
  assumes "queue_ok w"
  shows "snd (applyPendingEdits w) = map (\<lambda>(k, a). editCall a (keyX k) (keyY k)) (pendingEdits w)"
proof -
  have "sendable w a (keyX k) (keyY k)" if "(k, a) \<in> set (pendingEdits w)" for k a
  proof -
    have "unat (willSpend a (ownerAt (worldModel w) (keyX k) (keyY k))) \<le> queueCost w (pendingEdits w)"
      unfolding queueCost_def using that by (intro member_le_sum_list) force+
    then show ?thesis
      using assms that by (auto simp: queue_ok_def sendable_def word_le_nat_alt split: option.splits)
  qed
  moreover have "concat (map (\<lambda>(k, a). if P k a then [g k a] else []) es) = map (\<lambda>(k, a). g k a) es"
    if "\<And>k a. (k, a) \<in> set es \<Longrightarrow> P k a" for P and g :: "CellKey \<Rightarrow> EditAction \<Rightarrow> RuntimeCall" and es
    using that by (induction es) auto
  ultimately show ?thesis by (simp add: applyPendingEdits_calls)
qed

subsection \<open>Properties of the window\<close>

text \<open>
  C24. Queued edits go through: whatever cells a player clicks in queued mode, as long as no new
  state arrives, every edit still pending is sent when they are applied, one call for each
  cell, and if the balance is known the edits together cost no more than it; then nothing is
  pending.
\<close>

theorem queued_edits_apply:
  assumes "pendingEdits w = []" "length clicks < 2 ^ 62"
  shows "(let w' = fold queueClick clicks w
    in snd (applyPendingEdits w') = map (\<lambda>(k, a). editCall a (keyX k) (keyY k)) (pendingEdits w') \<and>
       distinct (map fst (pendingEdits w')) \<and>
       (case map_of (serverPlayers w') (me w') of None \<Rightarrow> True
        | Some st \<Rightarrow> queueCost w' (pendingEdits w') \<le> unat (statBalance st)) \<and>
       pendingEdits (fst (applyPendingEdits w')) = [])"
proof -
  have "queue_ok (fold queueClick clicks w)"
    using queue_ok_clicks [OF queue_ok_empty] assms by simp
  with queue_ok_sends_all [OF this] show ?thesis
    by (simp add: Let_def queue_ok_def pendingEdits_applyPendingEdits)
qed

theorem queued_edits_apply_witness:
  "(let w' = fold queueClick [(Place, 3, 4), (Toggle, 3, 5), (Place, 3, 4)] (newWindow 0 0)
    in pendingEdits w' = [(CellKey 3 5, Toggle)] \<and>
       snd (applyPendingEdits w') = [CallToggleCell 3 5])"
proof -
  have p: "pendingEdits (fold queueClick [(Place, 3, 4), (Toggle, 3, 5), (Place, 3, 4)] (newWindow 0 0)) =
      [(CellKey 3 5, Toggle)]"
    by (simp add: pendingEdits_queueClick clickAccepted_def frame_simps me_def newWindow_def
        updateNavigationPanel_def newWorldModel_def ownerAt_def)
  then show ?thesis
    using queued_edits_apply [of "newWindow 0 0" "[(Place, 3, 4), (Toggle, 3, 5), (Place, 3, 4)]"]
    by (simp add: Let_def newWindow_def updateNavigationPanel_def frame_simps)
qed

text \<open>
  A queue that uses up the balance cannot be taken back by clicking: the click that should
  withdraw a pending placement counts its price a second time and is refused, and the edit
  stays pending.
\<close>

theorem full_queue_not_withdrawn:
  assumes "map_of (pendingEdits w) (CellKey x y) = Some Place" "ownerAt (worldModel w) x y = 0"
    and "map_of (serverPlayers w) (me w) = Some st" "length (pendingEdits w) < 2 ^ 62"
    and "unat (statBalance st) < queueCost w (pendingEdits w) + 2"
  shows "pendingEdits (queueClick (Place, x, y) w) = pendingEdits w"
proof -
  have "unat (queuedSpend (worldModel w) (pendingEdits w) + willSpend Place 0) =
      queueCost w (pendingEdits w) + 2"
    using unat_queuedSpend [OF assms(4), of w Place 0] by (simp add: kClientPlaceCost_def)
  with assms show ?thesis by (simp add: pendingEdits_queueClick clickAccepted_def word_le_nat_alt)
qed

theorem full_queue_not_withdrawn_witness:
  "\<exists>w. pendingEdits w = [(CellKey 3 4, Place)] \<and>
     pendingEdits (queueClick (Place, 3, 4) w) = [(CellKey 3 4, Place)]"
proof -
  let ?w = "(newWindow 0 0)\<lparr>pendingEdits := [(CellKey 3 4, Place)],
    serverPlayers := [(1, \<lparr>statPlayerId = 1, statBalance = 2, statLiveCells = 0\<rparr>)]\<rparr>"
  have s: "me ?w = 1" "worldModel ?w = newWorldModel"
    by (simp_all add: me_def newWindow_def updateNavigationPanel_def frame_simps defaultParams_def)
  have "pendingEdits (queueClick (Place, 3, 4) ?w) = pendingEdits ?w"
    by (rule full_queue_not_withdrawn
          [where st = "\<lparr>statPlayerId = 1, statBalance = 2, statLiveCells = 0\<rparr>"])
      (simp_all add: s queueCost_def ownerAt_def newWorldModel_def kClientPlaceCost_def)
  then show ?thesis by (intro exI [of _ ?w]) simp
qed

text \<open>
  The pending list shows every pending edit exactly once, row by row and within a row from
  left to right, and the label counts them.
\<close>

theorem pending_list_shown:
  assumes "distinct (map fst (pendingEdits w))"
  shows "mset (pendingList (refreshPendingList w)) = mset (map (\<lambda>(k, a). (a, k)) (pendingEdits w)) \<and>
    sorted_wrt (<) (map snd (pendingList (refreshPendingList w))) \<and>
    pendingLabel (refreshPendingList w) = length (pendingEdits w)"
proof -
  let ?es = "pendingEdits w"
  have "mset (map (\<lambda>k. (the (map_of ?es k), k)) (sort (map fst ?es))) =
      mset (map (\<lambda>k. (the (map_of ?es k), k)) (map fst ?es))"
    by (simp only: mset_map mset_sort)
  also have "map (\<lambda>k. (the (map_of ?es k), k)) (map fst ?es) = map (\<lambda>(k, a). (a, k)) ?es"
    using assms by (auto simp: comp_def)
  finally have "mset (pendingList (refreshPendingList w)) = mset (map (\<lambda>(k, a). (a, k)) ?es)"
    unfolding refreshPendingList_def by (simp del: mset_map mset_sort)
  moreover have "sorted_wrt (<) (sort (map fst ?es))"
    using assms by (simp add: strict_sorted_iff)
  ultimately show ?thesis by (simp add: refreshPendingList_def comp_def)
qed

theorem pending_list_shown_witness:
  "pendingList (refreshPendingList ((newWindow 0 0)\<lparr>pendingEdits :=
      [(CellKey 1 2, Place), (CellKey 5 (-1), Remove)]\<rparr>)) =
    [(Remove, CellKey 5 (-1)), (Place, CellKey 1 2)] \<and>
   pendingLabel (refreshPendingList ((newWindow 0 0)\<lparr>pendingEdits :=
      [(CellKey 1 2, Place), (CellKey 5 (-1), Remove)]\<rparr>)) = 2"
  using pending_list_shown [of "(newWindow 0 0)\<lparr>pendingEdits :=
      [(CellKey 1 2, Place), (CellKey 5 (-1), Remove)]\<rparr>"]
  by (simp add: refreshPendingList_def less_eq_CellKey_def)

lemma playerBefore_trans: "playerBefore ps p q \<Longrightarrow> playerBefore ps q r \<Longrightarrow> playerBefore ps p r"
  by (auto simp: playerBefore_def Let_def split: if_splits)

lemma playerBefore_total: "p \<noteq> q \<Longrightarrow> playerBefore ps p q \<or> playerBefore ps q p"
  by (auto simp: playerBefore_def Let_def)

lemma playerBefore_unat:
  "playerBefore ps p q \<Longrightarrow>
     unat (statLiveCells (the (map_of ps q))) < unat (statLiveCells (the (map_of ps p))) \<or>
     unat (statLiveCells (the (map_of ps p))) = unat (statLiveCells (the (map_of ps q))) \<and> p < q"
  by (cases "statLiveCells (the (map_of ps p)) = statLiveCells (the (map_of ps q))")
    (simp_all add: playerBefore_def word_less_nat_alt [of "statLiveCells _"])

lemma panel_onServerStatsUpdated:
  assumes "players \<noteq> []"
  shows "(let w' = onServerStatsUpdated players w;
      entry = (\<lambda>p. find (\<lambda>st. statPlayerId st = p) (rev players))
    in set (playersList w') = {(p, unat (statLiveCells st), Some (statBalance st)) | p st. entry p = Some st} \<and>
       distinct (map fst (playersList w')) \<and>
       sorted_wrt (\<lambda>(p, n, _) (q, m, _). m < n \<or> n = m \<and> p < q) (playersList w') \<and>
       balanceLabel w' = Some (case entry (me w) of None \<Rightarrow> 0 | Some st \<Rightarrow> statBalance st))"
proof -
  define ps where "ps = fold (\<lambda>st. AList.update (statPlayerId st) st) players []"
  have m: "map_of ps p = find (\<lambda>st. statPlayerId st = p) (rev players)" for p
    unfolding ps_def by (induction players rule: rev_induct) (auto simp: update_conv')
  have d: "distinct (map fst ps)"
    unfolding ps_def by (induction players rule: rev_induct) (auto simp: distinct_update)
  have n: "ps \<noteq> []" using assms m [of "statPlayerId (last players)"] by (cases players rule: rev_cases) auto
  let ?l = "map (\<lambda>p. (p, unat (statLiveCells (the (map_of ps p))), Some (statBalance (the (map_of ps p)))))
      (sortBy (playerBefore ps) (map fst ps))"
  have s: "set (sortBy (playerBefore ps) (map fst ps)) = fst ` set ps"
    "distinct (sortBy (playerBefore ps) (map fst ps))"
    using mset_sortBy [of "playerBefore ps" "map fst ps"] d
    by (metis set_map set_mset_mset, metis mset_eq_imp_distinct_iff)
  have "set ?l = {(p, unat (statLiveCells st), Some (statBalance st)) | p st. map_of ps p = Some st}"
    unfolding set_map s(1) using d by (force dest: map_of_SomeD)
  moreover have "sorted_wrt (playerBefore ps) (sortBy (playerBefore ps) (map fst ps))"
    by (rule sorted_sortBy [where f = id]) (use playerBefore_trans playerBefore_total d in auto)
  then have "sorted_wrt (\<lambda>(p, n, _) (q, m, _). m < n \<or> n = m \<and> p < q) ?l"
    unfolding sorted_wrt_map prod.case
    by (rule sorted_wrt_mono_rel [rotated]) (use playerBefore_unat [of ps] in blast)
  moreover have "playersList (onServerStatsUpdated players w) = ?l"
    "balanceLabel (onServerStatsUpdated players w) =
      Some (case map_of ps (me w) of None \<Rightarrow> 0 | Some st \<Rightarrow> statBalance st)"
    using n by (auto simp: onServerStatsUpdated_def refreshStatsPanel_def ps_def [symmetric] me_def Let_def
        split: option.split)
  ultimately show ?thesis using s(2) by (simp add: m comp_def Let_def)
qed

text \<open>
  The players panel after a statistics update lists every player of the update once, with the
  cells and the balance of the player's last entry, most cells first and smaller identifiers
  first among equals; the own balance is the own entry's, or 0 without one.
\<close>

theorem players_panel:
  assumes "players \<noteq> []"
  shows "(let w' = onServerStatsUpdated players w;
      entry = (\<lambda>p. find (\<lambda>st. statPlayerId st = p) (rev players))
    in set (playersList w') = {(p, unat (statLiveCells st), Some (statBalance st)) | p st. entry p = Some st} \<and>
       distinct (map fst (playersList w')) \<and>
       sorted_wrt (\<lambda>(p, n, _) (q, m, _). m < n \<or> n = m \<and> p < q) (playersList w') \<and>
       balanceLabel w' = Some (case entry (me w) of None \<Rightarrow> 0 | Some st \<Rightarrow> statBalance st))"
  by (rule panel_onServerStatsUpdated [OF assms])

theorem players_panel_witness:
  "(7, 3, Some 9) \<in> set (playersList (onServerStatsUpdated
     [\<lparr>statPlayerId = 7, statBalance = 9, statLiveCells = 3\<rparr>] (newWindow 0 0)))"
  using players_panel [of "[\<lparr>statPlayerId = 7, statBalance = 9, statLiveCells = 3\<rparr>]" "newWindow 0 0"]
  by (auto simp: Let_def)

end
