(* ===== verification/Client_Edits.thy ===== *)
theory Client_Edits
  imports Mirror Client_Window
begin

section \<open>From a click to the server: ClientRuntime and the way of an edit\<close>

text \<open>
  \<open>ClientRuntime\<close> posts each call of the window to the network client's thread; Qt delivers
  posted calls one at a time and in order, so a list of calls is a fold. The bytes the client
  writes reach the server's session as one stream, which it reads a type byte and a body at
  a time. Here the window's judgement of an edit is compared with the server's, and the edits
  are followed to the server's command queue.
\<close>

subsection \<open>ClientRuntime.cpp\<close>

fun invokeClient ::
  "(TcpState \<Rightarrow> bool) \<Rightarrow> TcpState \<Rightarrow> RuntimeCall \<Rightarrow> GameNetworkClient \<Rightarrow>
   GameNetworkClient \<times> ClientEffect list" where
  "invokeClient emits stateAfter (CallConnect h tp up p) c = connectToServer emits h tp up p c"
| "invokeClient emits stateAfter CallDisconnect c = disconnectFromServer emits stateAfter c"
| "invokeClient emits stateAfter (CallPlaceCell x y) c = (c, sendPlaceCell x y c)"
| "invokeClient emits stateAfter (CallRemoveCell x y) c = (c, sendRemoveCell x y c)"
| "invokeClient emits stateAfter (CallToggleCell x y) c = (c, sendToggleCell x y c)"
| "invokeClient emits stateAfter CallResync c = (c, sendResync c)"

definition runPosted ::
  "(TcpState \<Rightarrow> bool) \<Rightarrow> TcpState \<Rightarrow> RuntimeCall list \<Rightarrow> GameNetworkClient \<Rightarrow>
   GameNetworkClient \<times> ClientEffect list" where
  "runPosted emits stateAfter calls c = fold (\<lambda>call (c', effs).
     let (c'', e) = invokeClient emits stateAfter call c' in (c'', effs @ e)) calls (c, [])"

subsection \<open>The session's read loop on a stream of bytes\<close>

text \<open>The bytes the client has written, and the reads the session issues on them.\<close>

fun written :: "ClientEffect list \<Rightarrow> byte list" where
  "written [] = []"
| "written (TcpWrite bs # effs) = bs @ written effs"
| "written (_ # effs) = written effs"

function readSession ::
  "byte list \<Rightarrow> nat \<Rightarrow> 'ep NetManager \<Rightarrow> 'ep NetManager \<times> PlayerCommand list list" where
  "readSession [] sid n = (n, [])"
| "readSession (b # bs) sid n =
     (let (n1, e1) = onMessageType False b sid n
      in if AwaitBody sid b \<notin> set e1 then readSession bs sid n1
         else if length bs < kCommandSize - 1 then (n1, [])
         else
           let (n2, e2) = onCommandBody False b (take (kCommandSize - 1) bs) sid n1;
               (n3, cmds) = readSession (drop (kCommandSize - 1) bs) sid n2
           in (n3, [cs. DeliverCommands cs \<leftarrow> e2] @ cmds))"
  by pat_completeness auto
termination by (relation "measure (\<lambda>(bs, _, _). length bs)") auto

subsection \<open>Edits as commands\<close>

fun editType :: "EditAction \<Rightarrow> CommandType" where
  "editType Place = PlaceCell"
| "editType Remove = RemoveCell"
| "editType Toggle = ToggleCell"

definition editCommand :: "PlayerId \<Rightarrow> EditAction \<Rightarrow> u64 \<Rightarrow> u64 \<Rightarrow> PlayerCommand" where
  "editCommand p a x y = \<lparr>cmdPlayerId = p, cmdType = editType a, cmdX = x, cmdY = y\<rparr>"

lemma invokeClient_edit:
  assumes "isConnected c"
  shows "\<exists>t \<in> {kCmdPlace, kCmdRemove, kCmdToggle}. commandTypeOf t = editType a \<and>
    invokeClient emits st (editCall a x y) c = (c, [TcpWrite (commandBytes t (playerId c) x y)])"
  using assms
  by (cases a) (auto simp: sendPlaceCell_def sendRemoveCell_def sendToggleCell_def sendCommand_def
      commandTypeOf_def kCmdPlace_def kCmdRemove_def kCmdToggle_def)

lemma runPosted_Cons:
  "runPosted emits st (call # calls) c =
     (let (c1, e1) = invokeClient emits st call c; (c2, e2) = runPosted emits st calls c1 in (c2, e1 @ e2))"
proof -
  let ?f = "\<lambda>call (c', effs). let (c'', e) = invokeClient emits st call c' in (c'', effs @ e)"
  have shift: "fold ?f calls (c, effs) = (fst (fold ?f calls (c, [])), effs @ snd (fold ?f calls (c, [])))"
    for c effs calls
  proof (induction calls arbitrary: c effs)
    case (Cons call calls)
    obtain c' e where i: "invokeClient emits st call c = (c', e)" by fastforce
    show ?case using Cons [of c' "effs @ e"] Cons [of c' e] by (simp add: i)
  qed simp
  obtain c' e where i: "invokeClient emits st call c = (c', e)" by fastforce
  show ?thesis using shift [of calls c' e] by (simp add: runPosted_def i split_def Let_def)
qed

lemma runPosted_Nil: "runPosted emits st [] c = (c, [])"
  by (simp add: runPosted_def)

lemma readSession_command:
  assumes "t \<in> {kCmdPlace, kCmdRemove, kCmdToggle}" "playerOf n sid = p" "commandCallbackSet n"
  shows "readSession (commandBytes t p x y @ rest) sid n =
    (let (n', cmds) = readSession rest sid n
     in (n', [\<lparr>cmdPlayerId = p, cmdType = commandTypeOf t, cmdX = x, cmdY = y\<rparr>] # cmds))"
proof -
  let ?body = "tl (commandBytes t p x y)"
  have b: "commandBytes t p x y = t # ?body" "length ?body = kCommandSize - 1"
    using commandBytes_fields by (simp_all add: commandBytes_def)
  have "onMessageType False t sid n = (n, [AwaitBody sid t])"
    using assms(1) by (auto simp: onMessageType_def kCmdPlace_def kCmdRemove_def kCmdToggle_def kMsgResyncReq_def)
  moreover have "onCommandBody False t ?body sid n =
      (n, [DeliverCommands [\<lparr>cmdPlayerId = p, cmdType = commandTypeOf t, cmdX = x, cmdY = y\<rparr>], AwaitType sid])"
    using assms(2,3) by (simp add: onCommandBody_def commandBytes_fields Let_def)
  ultimately show ?thesis using b(2) by (subst b(1)) (simp add: case_prod_beta Let_def)
qed

text \<open>What the session reads of a list of edits, one batch per edit.\<close>

lemma edits_read:
  assumes "isConnected c" "playerOf n sid = playerId c" "commandCallbackSet n"
  shows "\<exists>effs. runPosted emits st (map (\<lambda>(a, x, y). editCall a x y) edits) c = (c, effs) \<and>
    readSession (written effs) sid n = (n, map (\<lambda>(a, x, y). [editCommand (playerId c) a x y]) edits)"
proof (induction edits)
  case Nil
  then show ?case by (simp add: runPosted_Nil)
next
  case (Cons e edits)
  obtain a x y where e: "e = (a, x, y)" by (cases e)
  obtain t where t: "t \<in> {kCmdPlace, kCmdRemove, kCmdToggle}" "commandTypeOf t = editType a"
    "invokeClient emits st (editCall a x y) c = (c, [TcpWrite (commandBytes t (playerId c) x y)])"
    using invokeClient_edit [OF assms(1), of a emits st x y] by (elim bexE conjE)
  from Cons obtain effs where IH: "runPosted emits st (map (\<lambda>(a, x, y). editCall a x y) edits) c = (c, effs)"
    "readSession (written effs) sid n = (n, map (\<lambda>(a, x, y). [editCommand (playerId c) a x y]) edits)"
    by (elim exE conjE)
  have "runPosted emits st (map (\<lambda>(a, x, y). editCall a x y) (e # edits)) c =
      (c, TcpWrite (commandBytes t (playerId c) x y) # effs)"
    by (simp add: e runPosted_Cons t(3) IH(1))
  moreover have "readSession (written (TcpWrite (commandBytes t (playerId c) x y) # effs)) sid n =
      (n, map (\<lambda>(a, x, y). [editCommand (playerId c) a x y]) (e # edits))"
    using readSession_command [OF t(1) assms(2,3), of x y "written effs"]
    by (simp add: e IH(2) t(2) editCommand_def)
  ultimately show ?case by blast
qed

lemma queue_batches:
  "queue (commandQueue (fold onCommandsFromNetwork bs s)) = queue (commandQueue s) @ concat bs"
  by (induction bs arbitrary: s) (simp_all add: onCommandsFromNetwork_def commands.contents_pushes)

text \<open>
  Edits reach the server as they were made: the calls for any list of edits, posted to a
  connected client, become one stream of bytes from which the player's session reads exactly
  these edits' commands, in order, each under the player's own identifier; the server's
  queue then ends with them.
\<close>

theorem edits_reach_server:
  assumes "isConnected c" "playerOf n sid = playerId c" "commandCallbackSet n"
  shows "(let (c', effs) = runPosted emits st (map (\<lambda>(a, x, y). editCall a x y) edits) c;
      (n', batches) = readSession (written effs) sid n;
      cmds = map (\<lambda>(a, x, y). editCommand (playerId c) a x y) edits
    in c' = c \<and> n' = n \<and> concat batches = cmds \<and>
       queue (commandQueue (fold onCommandsFromNetwork batches s)) = queue (commandQueue s) @ cmds)"
proof -
  have "concat (map (\<lambda>(a, x, y). [f a x y]) es) = map (\<lambda>(a, x, y). f a x y) es"
    for f :: "EditAction \<Rightarrow> u64 \<Rightarrow> u64 \<Rightarrow> PlayerCommand" and es
    by (induction es) auto
  then show ?thesis using edits_read [OF assms, of emits st edits] by (auto simp: queue_batches)
qed

theorem edits_reach_server_witness:
  "(let (c', effs) = runPosted (\<lambda>_. True) Unconnected [CallPlaceCell 3 4, CallRemoveCell 5 (-6)]
        (newClient\<lparr>playerId := 7, tcpState := Connected\<rparr>)
    in concat (snd (readSession (written effs) 1 (manager sampleRun)))) =
   [\<lparr>cmdPlayerId = 7, cmdType = PlaceCell, cmdX = 3, cmdY = 4\<rparr>,
    \<lparr>cmdPlayerId = 7, cmdType = RemoveCell, cmdX = 5, cmdY = -6\<rparr>]"
  using edits_reach_server [of "newClient\<lparr>playerId := 7, tcpState := Connected\<rparr>" "manager sampleRun" 1
      "\<lambda>_. True" Unconnected "[(Place, 3, 4), (Remove, 5, -6)]"]
  by (auto simp: isConnected_def playerOf_def sampleRun_eq sampleSession_def editCommand_def
      case_prod_beta Let_def)

text \<open>
  C12. The window's judgement is the server's: when the client mirrors the world and knows the
  player's balance, an edit is sent exactly when the server, given the command now, would
  change the cell.
\<close>

theorem window_judges_like_server:
  assumes "server_reachable s" "mirrors (worldModel w) (world s)" "inRange X" "inRange Y"
    and "me w \<noteq> 0" "knownPlayer (resources s) (me w)"
    and "map_of (serverPlayers w) (me w) = Some st" "statBalance st = getBalance (resources s) (me w)"
  shows "snd (sendAction a (word_of_int X) (word_of_int Y) w) \<noteq> [] \<longleftrightarrow>
    cellAt (fst (applyCommand (editCommand (me w) a (word_of_int X) (word_of_int Y)) (world s, resources s))) X Y
      \<noteq> cellAt (world s) X Y"
proof -
  let ?cmd = "editCommand (me w) a (word_of_int X) (word_of_int Y)" and ?cell = "cellAt (world s) X Y"
  let ?r = "resources s" and ?p = "me w"
  have inv: "server_inv s" using assms(1) by (rule server_reachable_server_inv)
  then have alive: "alive ?cell \<longleftrightarrow> owner ?cell \<noteq> 0" by (simp add: server_inv_def okCell_def)
  have shown: "ownerAt (worldModel w) (word_of_int X) (word_of_int Y) = owner ?cell"
    using assms(2-4) alive by (simp add: mirrors_def shown_def)
  have pos: "sint (cmdX ?cmd) = X" "sint (cmdY ?cmd) = Y"
    using assms(3,4) by (simp_all add: editCommand_def sint_inRange)
  have "cellAt (fst (applyCommand ?cmd (world s, ?r))) X Y = fst (commandEffect (editType a) ?p ?cell ?r)"
    using target_applyCommand [of "world s" ?cmd ?r] inv unfolding pos
    by (simp add: server_inv_def wf_server_def editCommand_def)
  moreover have "snd (sendAction a (word_of_int X) (word_of_int Y) w) \<noteq> [] \<longleftrightarrow>
      isAllowed ?p a (owner ?cell) \<and> willSpend a (owner ?cell) \<le> getBalance ?r ?p"
    using assms(7,8) by (simp add: sendAction_calls sendable_def shown)
  moreover have "\<dots> \<longleftrightarrow> fst (commandEffect (editType a) ?p ?cell ?r) \<noteq> ?cell"
  proof -
    have "?cell\<lparr>alive := al, owner := o'\<rparr> = ?cell \<longleftrightarrow> alive ?cell = al \<and> owner ?cell = o'" for al o'
      by (cases ?cell) auto
    then show ?thesis
      using assms(5,6) alive accounts.spend_iff [of ?p kPlaceCost ?r] accounts.award_ok [of ?r ?p kRemoveAward]
      by (cases a) (auto simp: case_prod_beta Let_def kPlaceCost_def kClientPlaceCost_def)
  qed
  ultimately show ?thesis by simp
qed

theorem window_judges_like_server_witness:
  "\<exists>(w :: GameWindow) (s :: GameServer). snd (sendAction Place 3 (-4) w) = [CallPlaceCell 3 (-4)] \<and>
     cellAt (fst (applyCommand (editCommand 7 Place 3 (-4)) (world s, resources s))) 3 (-4)
       \<noteq> cellAt (world s) 3 (-4)"
proof -
  let ?s = "onPlayerJoined 7 (newGameServer BoostNetwork)"
  let ?st = "\<lparr>statPlayerId = 7, statBalance = 10, statLiveCells = 0\<rparr>"
  let ?w = "(newWindow 0 0)\<lparr>lastParams := defaultParams\<lparr>paramPlayerId := 7\<rparr>, serverPlayers := [(7, ?st)]\<rparr>"
  have r: "server_reachable ?s" by (intro server_reachable.intros)
  have m: "worldModel ?w = newWorldModel" "me ?w = 7"
    by (simp_all add: newWindow_def updateNavigationPanel_def frame_simps me_def)
  have world: "mirrors newWorldModel (world ?s)"
    using sessionInv_start by (simp add: sessionInv_def onPlayerJoined_def)
  have known: "knownPlayer (resources ?s) 7" "getBalance (resources ?s) 7 = 10"
    by (simp_all add: onPlayerJoined_def newGameServer_def addPlayer_def newResourceManager_def
        knownPlayer_def getPlayerIds_def getBalance_def kStartBalance_def)
  have call: "snd (sendAction Place 3 (-4) ?w) = [CallPlaceCell 3 (-4)]"
    by (simp add: sendAction_calls sendable_def m ownerAt_def newWorldModel_def kClientPlaceCost_def word_le_nat_alt)
  have "cellAt (fst (applyCommand (editCommand (me ?w) Place (word_of_int 3) (word_of_int (-4)))
      (world ?s, resources ?s))) 3 (-4) \<noteq> cellAt (world ?s) 3 (-4)"
    using window_judges_like_server [OF r, of ?w 3 "-4" ?st Place] world known call
    unfolding m by (simp add: inRange_def)
  then show ?thesis using call unfolding m by (intro exI [of _ ?w] exI [of _ ?s]) simp
qed

end
