(* ===== verification/Client_Streams.thy ===== *)
theory Client_Streams
  imports Server_Streams Client_Edits
begin

section \<open>What the clients write, and the game it makes\<close>

text \<open>
  A client's stream is its handshake and then a message for every edit and every resync
  request. The decoder of \<open>Server_Streams\<close> reads it back, so the edits of every client enter the
  server's game, in the client's order, whatever the other connections carry.
\<close>

subsection \<open>A client's stream\<close>

text \<open>\<open>None\<close> is a resync request.\<close>

type_synonym Request = "(EditAction \<times> u64 \<times> u64) option"

fun requestCall :: "Request \<Rightarrow> RuntimeCall" where
  "requestCall None = CallResync"
| "requestCall (Some (a, x, y)) = editCall a x y"

fun requestEvents :: "PlayerId \<Rightarrow> Request list \<Rightarrow> GameEvent list" where
  "requestEvents p [] = []"
| "requestEvents p (None # rs) = requestEvents p rs"
| "requestEvents p (Some (a, x, y) # rs) = Send [editCommand p a x y] # requestEvents p rs"

definition clientStream :: "(TcpState \<Rightarrow> bool) \<Rightarrow> TcpState \<Rightarrow> Request list \<Rightarrow> GameNetworkClient \<Rightarrow> byte list" where
  "clientStream emits st rs c =
     handshakeBytes (playerId c) @ written (snd (Client_Edits.runPosted emits st (map requestCall rs) c))"

lemma commandsOf_command:
  assumes "t \<in> {kCmdPlace, kCmdRemove, kCmdToggle}"
  shows "commandsOf p (commandBytes t p x y @ rest) =
    Send [\<lparr>cmdPlayerId = p, cmdType = commandTypeOf t, cmdX = x, cmdY = y\<rparr>] # commandsOf p rest"
proof -
  obtain body where b: "commandBytes t p x y = t # body" "body = tl (commandBytes t p x y)"
    by (simp add: commandBytes_def)
  have "length body = kCommandSize - 1" "readLE body = p" "readLE (drop 8 body) = x" "readLE (drop 16 body) = y"
    unfolding b(2) by (rule commandBytes_fields)+
  then have "commandsOf p (t # body @ rest) =
      Send [\<lparr>cmdPlayerId = p, cmdType = commandTypeOf t, cmdX = x, cmdY = y\<rparr>] # commandsOf p rest"
    using assms by auto
  then show ?thesis by (simp only: b(1) append_Cons)
qed

lemma commandsOf_resync: "commandsOf p (kMsgResyncReq # rest) = commandsOf p rest"
  by (simp add: kMsgResyncReq_def kCmdPlace_def kCmdRemove_def kCmdToggle_def)

lemma requests_decode:
  assumes "isConnected c"
  shows "fst (Client_Edits.runPosted emits st (map requestCall rs) c) = c \<and>
    commandsOf (playerId c) (written (snd (Client_Edits.runPosted emits st (map requestCall rs) c))) =
      requestEvents (playerId c) rs"
proof (induction rs)
  case Nil
  then show ?case by (simp add: runPosted_Nil)
next
  case (Cons r rs)
  show ?case
  proof (cases r)
    case None
    then have "invokeClient emits st (requestCall r) c = (c, [TcpWrite [kMsgResyncReq]])"
      using assms by (simp add: sendResync_def)
    with Cons None show ?thesis by (simp add: runPosted_Cons case_prod_beta Let_def commandsOf_resync del: commandsOf.simps)
  next
    case (Some e)
    obtain a x y where e: "e = (a, x, y)" by (cases e)
    obtain t where t: "t \<in> {kCmdPlace, kCmdRemove, kCmdToggle}" "commandTypeOf t = editType a"
      "invokeClient emits st (editCall a x y) c = (c, [TcpWrite (commandBytes t (playerId c) x y)])"
      using invokeClient_edit [OF assms, of a emits st x y] by (elim bexE conjE)
    with Cons Some e show ?thesis
      by (simp add: runPosted_Cons case_prod_beta Let_def commandsOf_command [OF t(1)] editCommand_def del: commandsOf.simps)
  qed
qed

lemma handshakeBytes_hello: "handshakeBytes p = helloBytes p"
  by (simp add: handshakeBytes_layout helloBytes_def)

text \<open>
  C13. A client's stream means its edits: the bytes a connected client writes, its handshake and the
  messages for any sequence of edits and resync requests, decode at the server to the client's
  player joining and then each edit as one command of that player, in order and with its
  kind and coordinates.
\<close>

theorem client_stream_means_edits:
  assumes "isConnected c"
  shows "decodeStream (clientStream emits st rs c) = Join (playerId c) # requestEvents (playerId c) rs"
  using requests_decode [OF assms] by (simp add: clientStream_def handshakeBytes_hello decode_hello)

theorem client_stream_means_edits_witness:
  "decodeStream (clientStream (\<lambda>_. True) Unconnected [Some (Place, 3, 4), None, Some (Remove, 5, - 6)]
      (newClient\<lparr>playerId := 7, tcpState := Connected\<rparr>)) =
    [Join 7, Send [\<lparr>cmdPlayerId = 7, cmdType = PlaceCell, cmdX = 3, cmdY = 4\<rparr>],
     Send [\<lparr>cmdPlayerId = 7, cmdType = RemoveCell, cmdX = 5, cmdY = - 6\<rparr>]]"
  using client_stream_means_edits [of "newClient\<lparr>playerId := 7, tcpState := Connected\<rparr>" "\<lambda>_. True" Unconnected
      "[Some (Place, 3, 4), None, Some (Remove, 5, - 6)]"]
  by (simp add: isConnected_def editCommand_def)

subsection \<open>Prefixes\<close>

lemma commandsOf_prefix: "\<exists>rest. commandsOf p (xs @ ys) = commandsOf p xs @ rest"
proof (induction p xs rule: commandsOf.induct)
  case (2 p t bs)
  show ?case
  proof (cases "t \<noteq> kCmdPlace \<and> t \<noteq> kCmdRemove \<and> t \<noteq> kCmdToggle")
    case True
    with 2(1) show ?thesis by simp
  next
    case False
    show ?thesis
    proof (cases "length bs < kCommandSize - 1")
      case True
      with False show ?thesis by auto
    next
      case long: False
      from 2(2) [OF False long] obtain rest where
        "commandsOf p (drop (kCommandSize - 1) bs @ ys) = commandsOf p (drop (kCommandSize - 1) bs) @ rest" by blast
      with False long show ?thesis by auto
    qed
  qed
qed simp

lemma decodeStream_prefix: "\<exists>rest. decodeStream (xs @ ys) = decodeStream xs @ rest"
proof (cases "length xs < kHandshakeSize")
  case False
  with commandsOf_prefix [of "readLE (drop 4 (take kHandshakeSize xs))" "drop kHandshakeSize xs" ys]
  show ?thesis by (auto simp: decodeStream_def Let_def)
qed (simp add: decodeStream_short)

text \<open>
  C14. Every client's edits are played in its order: on a server with any other connections, the
  events that a client's connection has contributed to the game are an initial part of the
  client's joining and its edits, each once and in order; while the session reads, the server can
  go on to all of them.
\<close>

theorem edits_play_in_order:
  assumes "system_run u" "isConnected c" "wrote u sid = clientStream emits st rs c"
  defines "all \<equiv> Join (playerId c) # requestEvents (playerId c) rs"
  shows "(\<exists>k. map snd (filter (\<lambda>e. fst e = Some sid) (history u)) = take k all) \<and>
    (reading u sid \<longrightarrow> (\<exists>u'. server_step\<^sup>*\<^sup>* u u' \<and> map snd (filter (\<lambda>e. fst e = Some sid) (history u')) = all))"
proof -
  have all: "decodeStream (wrote u sid) = all"
    using requests_decode [OF assms(2)] by (simp add: assms(3) all_def clientStream_def handshakeBytes_hello decode_hello)
  have "eventsOf u sid = decodeStream (consumed u sid)" using system_run_inv [OF assms(1)] by (simp add: sys_inv_def)
  moreover obtain rest where "decodeStream (consumed u sid @ unread u sid) = decodeStream (consumed u sid) @ rest"
    using decodeStream_prefix by blast
  moreover have "consumed u sid @ unread u sid = wrote u sid" by (simp add: consumed_def unread_def)
  ultimately have "eventsOf u sid = take (length (eventsOf u sid)) all" using all by simp
  moreover have "\<exists>u'. server_step\<^sup>*\<^sup>* u u' \<and> eventsOf u' sid = all" if "reading u sid"
    using reads_everything [OF assms(1) that] all by auto
  ultimately show ?thesis unfolding eventsOf_def by blast
qed

theorem edits_play_in_order_witness:
  "\<exists>u' :: nat ServerSystem. system_run u' \<and> map snd (filter (\<lambda>e. fst e = Some 0) (history u')) =
    [Join 7, Send [\<lparr>cmdPlayerId = 7, cmdType = PlaceCell, cmdX = 3, cmdY = 4\<rparr>]]"
proof -
  let ?c = "newClient\<lparr>playerId := 7, tcpState := Connected\<rparr>"
  let ?bs = "clientStream (\<lambda>_. True) Unconnected [Some (Place, 3, 4)] ?c"
  let ?u = "greetedSystem ?bs"
  note bs = clientStream_def [of "\<lambda>_. True" Unconnected "[Some (Place, 3, 4)]" ?c, unfolded handshakeBytes_hello]
  have r: "system_run ?u" unfolding bs by (rule greetedSystem_run [OF stream_greets(1)])
  have g: "reading ?u 0" "wrote ?u 0 = ?bs" unfolding bs by (rule greetedSystem_reading [OF stream_greets])+
  have c: "isConnected ?c" by (simp add: isConnected_def)
  have ev: "Join (playerId ?c) # requestEvents (playerId ?c) [Some (Place, 3, 4)] =
      [Join 7, Send [\<lparr>cmdPlayerId = 7, cmdType = PlaceCell, cmdX = 3, cmdY = 4\<rparr>]]"
    by (simp add: editCommand_def)
  from edits_play_in_order [OF r c g(2)] g(1) obtain u' where u': "server_step\<^sup>*\<^sup>* ?u u'"
    "map snd (filter (\<lambda>e. fst e = Some 0) (history u')) =
      Join (playerId ?c) # requestEvents (playerId ?c) [Some (Place, 3, 4)]"
    by (elim exE conjE impE)
  show ?thesis using system_run_steps [OF u'(1) r] u'(2) unfolding ev by (intro exI conjI)
qed

end
