(* ===== verification/Quiet_Ticks.thy ===== *)
theory Quiet_Ticks
  imports Mirror Game_Runs
begin

section \<open>Which ticks send an update\<close>

text \<open>
  A tick queues an update exactly when some chunk's dirty list is not empty. \<open>Dirty_Tracking\<close>
  shows that every change is on those lists; here is the other direction for a generation:
  when no cell changes, no list grows. So a world that stands still is silent.
\<close>

declare One_nat_def [simp del] \<comment> \<open>positions are written \<open>x + 1\<close>\<close>

text \<open>Nothing is waiting to be sent.\<close>

definition clean :: "World \<Rightarrow> bool" where
  "clean w \<longleftrightarrow> (\<forall>k. dirtyCells (chunkOr k w) = [])"

text \<open>The rule of the game changes no cell and no command is waiting.\<close>

definition still :: "Game \<Rightarrow> bool" where
  "still g \<longleftrightarrow> waiting g = [] \<and> lifeStep (board g) = board g"

subsection \<open>Empty updates\<close>

lemma encodeAll_Nil: "encodeAll q f ps = [] \<longleftrightarrow> ps = []"
proof -
  have "encodePacket q f c es \<noteq> []" for c es by (rule length_greater_0_conv [THEN iffD1]) simp
  then show ?thesis by (cases ps) (auto simp: encodeAll_def)
qed

lemma groups_empty: "groups 125 xs = [] \<longleftrightarrow> xs = []"
  by (cases xs) (simp_all add: groups.simps)

lemma deltaPackets_Nil: "deltaPackets cs = [] \<longleftrightarrow> (\<forall>(c, ch) \<in> set cs. dirtyCells ch = [])"
  by (auto simp: deltaPackets_def groups_empty dirtyEntries_def)

lemma clean_iff:
  assumes "wf_world w"
  shows "clean w \<longleftrightarrow> (\<forall>(c, ch) \<in> set (chunks w). dirtyCells ch = [])"
proof
  assume "clean w"
  then show "\<forall>(c, ch) \<in> set (chunks w). dirtyCells ch = []"
    using chunk_of_entry [OF assms] by (fastforce simp: clean_def)
next
  assume a: "\<forall>(c, ch) \<in> set (chunks w). dirtyCells ch = []"
  have "dirtyCells (chunkOr k w) = []" for k
  proof (cases "tryGetChunk k w")
    case (Some ch)
    then have "(k, ch) \<in> set (chunks w)" by (simp add: tryGetChunk_def map_of_SomeD)
    with a Some show ?thesis by (auto simp: chunkOr_def)
  qed (simp add: chunkOr_def newChunk_def)
  then show "clean w" by (simp add: clean_def)
qed

lemma tickUpdate_Nil:
  assumes "wf_server s" "networkManager s \<noteq> NoNetwork"
  shows "tickUpdate s = [] \<longleftrightarrow> clean (fst (afterCommands s))"
  using clean_iff [OF wf_afterCommands(1) [OF assms(1)]]
  by (simp add: tickUpdate_eq [OF assms(2)] encodeAll_Nil deltaPackets_Nil)

lemma clean_new: "clean newWorld"
  by (simp add: clean_def chunkOr_def newWorld_def tryGetChunk_def newChunk_def)

lemma clean_onTick:
  "networkManager s \<noteq> NoNetwork \<Longrightarrow> clean (world (fst (onTick s)))"
  by (auto simp: clean_def onTick_state chunkOr_def tryGetChunk_cleared newChunk_def split: option.split)
    (simp add: clearDirty_def)

text \<open>A tick that changes a cell sends it.\<close>

lemma change_is_sent:
  assumes "wf_server s" "networkManager s \<noteq> NoNetwork"
    and "cellAt (world (fst (onTick s))) X Y \<noteq> cellAt (world s) X Y"
  shows "tickUpdate s \<noteq> []"
proof -
  have "wf_world (world s)" using assms(1) by (simp add: wf_server_def)
  from changed_is_dirty [OF this] assms(3) obtain ch where
    "tryGetChunk (keyAt X Y) (fst (afterCommands s)) = Some ch" "dirtyCells ch \<noteq> []"
    by (metis cellAt_onTick empty_iff list.set(1))
  then have "\<not> clean (fst (afterCommands s))" by (auto simp: clean_def chunkOr_def intro!: exI [of _ "keyAt X Y"])
  with tickUpdate_Nil [OF assms(1,2)] show ?thesis by simp
qed

subsection \<open>A generation that changes nothing marks nothing\<close>

definition sameDirty :: "World \<Rightarrow> World \<Rightarrow> bool" where
  "sameDirty w w' \<longleftrightarrow> (\<forall>k. dirtyCells (chunkOr k w') = dirtyCells (chunkOr k w))"

lemma sameDirty_trans: "sameDirty a b \<Longrightarrow> sameDirty b c \<Longrightarrow> sameDirty a c"
  by (simp add: sameDirty_def)

lemma sameDirty_fold:
  "(\<And>k w. k \<in> set ks \<Longrightarrow> sameDirty w (f k w)) \<Longrightarrow> sameDirty w (fold f ks w)"
proof (induction ks arbitrary: w)
  case (Cons k ks)
  then have "sameDirty w (f k w)" "sameDirty (f k w) (fold f ks (f k w))" by simp_all
  then show ?case using sameDirty_trans by simp
qed (simp add: sameDirty_def)

lemma sameDirty_exchange: "sameDirty w (exchangeBorders w)"
proof -
  have ghosts: "dirtyCells (fold (\<lambda>((sx, sy), v) ch. setGhostCell ch sx sy v) ws c) = dirtyCells c" for ws c
    by (induction ws arbitrary: c) auto
  have "sameDirty w (exchangeChunk c w)" for c w
    by (auto simp: sameDirty_def exchangeChunk_def chunkOr_def tryGetChunk_modifyChunk ghosts split: option.split)
  then have "sameDirty w (fold exchangeChunk ks w)" for ks w by (rule sameDirty_fold)
  moreover have "sameDirty w (ensureSimulationMarginUnlocked w)"
    unfolding ensureSimulationMarginUnlocked_def by (rule sameDirty_fold) (simp add: sameDirty_def)
  ultimately show ?thesis using sameDirty_trans by (simp add: exchangeBorders_def Let_def)
qed

lemma step_marks_changes:
  assumes "wf_chunk ch" "\<And>x y. x < 64 \<Longrightarrow> y < 64 \<Longrightarrow> getCell (swapBuffers (calculateNext ch)) x y = getCell ch x y"
  shows "dirtyCells (swapBuffers (calculateNext ch)) = dirtyCells ch"
proof -
  have "\<not> snd (stepCell (currentBuffer ch) p)" if "p \<in> set (row_major 64 64)" for p
  proof -
    obtain x y where "p = (x, y)" by (cases p)
    with that have p: "p = (x, y)" "x < 64" "y < 64" by (simp_all add: set_row_major)
    with assms(2) [OF p(2,3)] getCell_next [OF assms(1) p(2,3)] show ?thesis
      by (simp add: stepCell_changed getCell_def)
  qed
  then show ?thesis by (simp add: calculateNext_eq filter_empty_conv)
qed

lemma cell_of_chunk:
  assumes "x < 64" "y < 64"
  shows "cellAt w (64 * sint (coordX k) + int x) (64 * sint (coordY k) + int y) = getCell (chunkOr k w) x y"
proof -
  have "keyAt (64 * sint (coordX k) + int x) (64 * sint (coordY k) + int y) = k"
    by (rule keyAt_block) (use assms in simp_all)
  then show ?thesis using assms by (simp add: cellAt_chunkOr)
qed

lemma still_marks_nothing:
  assumes "wf_world w" "\<And>X Y. cellAt (simulateGeneration w) X Y = cellAt w X Y"
  shows "sameDirty w (simulateGeneration w)"
proof -
  have "dirtyCells (chunkOr k (simulateGeneration w)) = dirtyCells (chunkOr k (exchangeBorders w))" for k
  proof (cases "tryGetChunk k (exchangeBorders w)")
    case (Some ch)
    then have c: "chunkOr k (exchangeBorders w) = ch" "chunkOr k (simulateGeneration w) = swapBuffers (calculateNext ch)"
      by (simp_all add: chunkOr_def tryGetChunk_simulate [OF assms(1)])
    have "getCell (swapBuffers (calculateNext ch)) x y = getCell ch x y" if "x < 64" "y < 64" for x y
      unfolding c(2) [symmetric] unfolding c(1) [symmetric] cell_of_chunk [OF that, symmetric]
      by (simp only: assms(2) exchangeBorders_facts(2) [OF assms(1)])
    moreover have "wf_chunk ch" using Some exchangeBorders_facts(1) [OF assms(1)] by (rule wf_worldD [rotated])
    ultimately show ?thesis using step_marks_changes by (simp add: c)
  qed (simp add: chunkOr_def tryGetChunk_simulate [OF assms(1)])
  then have "sameDirty (exchangeBorders w) (simulateGeneration w)" by (simp add: sameDirty_def)
  with sameDirty_exchange show ?thesis by (rule sameDirty_trans)
qed

lemma still_tick:
  assumes "wf_server s" "networkManager s \<noteq> NoNetwork" "still (absGame s)" "clean (world s)"
  shows "tickUpdate s = []" "still (absGame (fst (onTick s)))"
    "board (absGame (fst (onTick s))) = board (absGame s)" "clean (world (fst (onTick s)))"
proof -
  have w: "wf_world (world s)" using assms(1) by (simp add: wf_server_def)
  have q: "queue (commandQueue s) = []" and board: "lifeStep (cellAt (world s)) = cellAt (world s)"
    using assms(3) by (simp_all add: still_def absGame_def)
  have "cellAt (simulateGeneration (world s)) X Y = cellAt (world s) X Y" for X Y
    using fun_cong [OF fun_cong [OF board, of X], of Y] by (simp add: simulateGeneration_life [OF w] lifeStep_def)
  from still_marks_nothing [OF w this] have "clean (simulateGeneration (world s))"
    using assms(4) by (simp add: sameDirty_def clean_def)
  then show "tickUpdate s = []" by (simp add: tickUpdate_Nil [OF assms(1,2)] afterCommands_def q)
  have tick: "absGame (fst (onTick s)) = gameStep Tick (absGame s)" by (rule absGame_tick [OF assms(1)])
  show same: "board (absGame (fst (onTick s))) = board (absGame s)"
    unfolding tick using assms(3) by (simp add: still_def)
  show "still (absGame (fst (onTick s)))"
    unfolding still_def same using assms(3) by (simp add: still_def absGame_def onTick_state emptyQueue_def)
  show "clean (world (fst (onTick s)))" by (rule clean_onTick [OF assms(2)])
qed

end
