(* ===== verification/Resync_Repair.thy ===== *)
theory Resync_Repair
  imports Snapshot Game_Runs
begin

section \<open>A resync request repairs the picture\<close>

text \<open>
  The whole way of a resync: the client's request is one byte, the session's handler marks
  the player, the next queued update sends the marked player the snapshot instead of the
  delta, and the client shows the chunks of the snapshot as the server has them. The parts
  are those of \<open>Client_Network\<close>, \<open>Boost_Network\<close>, \<open>Game_Server\<close> and \<open>Snapshot\<close>.
\<close>

subsection \<open>One entry per player in the session table\<close>

lemma sessions_onAccept: "sessions (fst (onAccept ec sid ep n)) = sessions n"
  by (simp add: onAccept_def split: option.splits)

lemma sessions_onHandshake:
  "sessions (fst (onHandshake ec buf sid n)) = sessions n \<or>
     (\<exists>p. sessions (fst (onHandshake ec buf sid n)) = AList.update p sid (sessions n))"
  by (auto simp: onHandshake_def Let_def split: option.splits)

lemma sessions_onMessageType:
  "sessions (fst (onMessageType ec t sid n)) = sessions n \<or>
     (\<exists>p. sessions (fst (onMessageType ec t sid n)) = AList.delete p (sessions n))"
  by (auto simp: onMessageType_def removeSession_def split: option.splits)

lemma sessions_onCommandBody:
  "sessions (fst (onCommandBody ec t buf sid n)) = sessions n \<or>
     (\<exists>p. sessions (fst (onCommandBody ec t buf sid n)) = AList.delete p (sessions n))"
  by (auto simp: onCommandBody_def removeSession_def Let_def)

lemma net_step_distinct:
  assumes "net_step st st'" "distinct (map fst (sessions (manager st)))"
  shows "distinct (map fst (sessions (manager st')))"
  using assms(1)
proof cases
  case (handshake sid ec buf)
  then show ?thesis
    using assms(2) sessions_onHandshake [of ec buf sid "manager st"]
    by (auto simp: finish_def distinct_update)
next
  case (msgType sid ec t)
  then show ?thesis
    using assms(2) sessions_onMessageType [of ec t sid "manager st"]
    by (auto simp: finish_def distinct_delete)
next
  case (body sid t ec buf)
  then show ?thesis
    using assms(2) sessions_onCommandBody [of ec t buf sid "manager st"]
    by (auto simp: finish_def distinct_delete)
next
  case (post provider n' effs)
  then show ?thesis
    using assms(2) runPosted_sameTables [of provider "manager st" n' effs]
    by (simp add: sameTables_def)
next
  case stop
  then show ?thesis using assms(2) by (simp add: stopNetwork_def)
qed (use assms(2) in \<open>simp_all add: finish_def sessions_onAccept broadcastWorldUpdate_def broadcastServerStats_def\<close>)

lemma net_reachable_distinct: "net_reachable st \<Longrightarrow> distinct (map fst (sessions (manager st)))"
proof (induction rule: net_reachable.induct)
  case start
  show ?case
    by (simp add: netStart_def startNetwork_def newNetManager_def setAddPlayerCallback_def
        setCommandCallback_def Let_def)
next
  case (step st st')
  then show ?case by (blast intro: net_step_distinct)
qed

subsection \<open>What reaches one endpoint\<close>

text \<open>The datagrams a broadcast sends to an endpoint, in the order of sending.\<close>

definition datagramsTo :: "'ep \<Rightarrow> 'ep NetEffect list \<Rightarrow> byte list list" where
  "datagramsTo ep effs =
     concat (map (\<lambda>e. case e of SendUdp ep' d \<Rightarrow> if ep' = ep then [d] else [] | _ \<Rightarrow> []) effs)"

lemma datagramsTo_append [simp]: "datagramsTo ep (es @ es') = datagramsTo ep es @ datagramsTo ep es'"
  by (simp add: datagramsTo_def)

lemma datagramsTo_SendUdp: "datagramsTo ep (map (SendUdp ep') ds) = (if ep' = ep then ds else [])"
  by (induction ds) (auto simp: datagramsTo_def)

lemma datagramsTo_broadcast:
  "datagramsTo ep (concat (map (\<lambda>(p, ep', needs). map (SendUdp ep') (if needs then fs else ds)) infos)) =
     concat (map (\<lambda>(p, ep', needs). if needs then fs else ds) (filter (\<lambda>i. fst (snd i) = ep) infos))"
proof (induction infos)
  case Nil
  then show ?case by (simp add: datagramsTo_def)
next
  case (Cons i infos)
  then show ?case by (cases i) (auto simp: datagramsTo_SendUdp)
qed

lemma sessionInfos_own:
  assumes "distinct (map fst (sessions n))" "map_of (sessions n) p = Some sid"
    and "map_of (udpEndpoints n) p = Some ep" "\<And>q. map_of (udpEndpoints n) q = Some ep \<Longrightarrow> q = p"
    and "map_of (sessionObjs n) sid = Some s"
  shows "filter (\<lambda>i. fst (snd i) = ep) (sessionInfos n) = [(p, ep, needsFullSnapshot s)]"
proof -
  define info where "info = (\<lambda>(q, sid'). case (map_of (udpEndpoints n) q, map_of (sessionObjs n) sid') of
      (Some ep', Some s') \<Rightarrow> [(q, ep', needsFullSnapshot s')] | _ \<Rightarrow> [])"
  from assms(2) have "(p, sid) \<in> set (sessions n)" by (rule map_of_SomeD)
  then obtain xs ys where split: "sessions n = xs @ (p, sid) # ys" by (meson split_list)
  have none: "filter (\<lambda>i. fst (snd i) = ep) (concat (map info zs)) = []" if "p \<notin> fst ` set zs" for zs
  proof -
    have "fst (snd i) \<noteq> ep" if "z \<in> set zs" "i \<in> set (info z)" for z i
      using that \<open>p \<notin> fst ` set zs\<close> assms(4)
      by (auto simp: info_def split: prod.splits option.splits)
        (metis fst_conv imageI)
    then show ?thesis by (auto simp: filter_empty_conv)
  qed
  have "p \<notin> fst ` set xs" "p \<notin> fst ` set ys" using assms(1) split by auto
  then have "filter (\<lambda>i. fst (snd i) = ep) (concat (map info (sessions n))) =
      filter (\<lambda>i. fst (snd i) = ep) (info (p, sid))"
    using none by (simp add: split)
  then show ?thesis
    using assms(3,5) by (simp add: sessionInfos_def info_def)
qed

lemma broadcast_to_one:
  assumes "sendPayloadTo delta = Some ds" "sendPayloadTo (f q) = Some fs"
    and "distinct (map fst (sessions n))" "map_of (sessions n) p = Some sid"
    and "map_of (udpEndpoints n) p = Some ep" "\<And>q. map_of (udpEndpoints n) q = Some ep \<Longrightarrow> q = p"
    and "map_of (sessionObjs n) sid = Some s"
  shows "\<exists>n' effs. doUdpBroadcast (Some f) delta q n = Some (n', effs) \<and>
    datagramsTo ep effs = (if needsFullSnapshot s then fs else ds)"
proof -
  have own: "filter (\<lambda>i. fst (snd i) = ep) (sessionInfos n) = [(p, ep, needsFullSnapshot s)]"
    by (rule sessionInfos_own [OF assms(3-7)])
  then have "sessionInfos n \<noteq> []" by auto
  then have "doUdpBroadcast (Some f) delta q n =
      Some (fold (\<lambda>(p, ep, needs) n. if needs then clearNeedsFull p n else n) (sessionInfos n) n,
        concat (map (\<lambda>(p, ep, needs). map (SendUdp ep) (if needs then fs else ds)) (sessionInfos n)))"
    unfolding doUdpBroadcast_def Let_def
    by (simp, intro sendInfos_delivers) (simp_all add: assms(1,2))
  with own show ?thesis by (simp add: datagramsTo_broadcast)
qed

subsection \<open>The repair\<close>

text \<open>The manager after a session's handler has read the byte of a resync request.\<close>

definition afterResync :: "byte \<Rightarrow> nat \<Rightarrow> 'ep NetManager \<Rightarrow> 'ep NetManager" where
  "afterResync t sid n = fst (onMessageType False t sid n)"

lemma afterResync_eq:
  assumes "playerOf n sid = p" "map_of (sessions n) p = Some sid'"
  shows "afterResync kMsgResyncReq sid n = modifySession sid' (\<lambda>s. s\<lparr>needsFullSnapshot := True\<rparr>) n"
  using assms by (simp add: afterResync_def onMessageType_def)

lemma repaired:
  assumes "wf_world w" "inRange X" "inRange Y"
    and "fullEntries (chunkOr (keyAt X Y) w) \<noteq> []" "length (fullEntries (chunkOr (keyAt X Y) w)) \<le> 125"
  shows "ownerAt (fold (applyPacket s kFlagFull) (fullPackets (chunks w)) m) (word_of_int X) (word_of_int Y) =
    shown (cellAt w X Y)"
proof -
  let ?x = "word_of_nat (nat (X mod 64)) :: byte" and ?y = "word_of_nat (nat (Y mod 64)) :: byte"
  have xy: "unat ?x < 64" "unat ?y < 64"
    using unat_byte [of "nat (X mod 64)"] unat_byte [of "nat (Y mod 64)"] mod_64_nat by metis+
  have "shownAt w (keyOf (keyAt X Y) ?x ?y) = shown (cellAt w X Y)"
    unfolding key_cover [OF assms(2,3), symmetric] shownAt_def
    by (simp add: sint_inRange assms(2,3))
  then show ?thesis
    using snapshot_fits [OF assms(1) xy assms(5), of m s] assms(4)
    unfolding ownerAt_ownerIn key_cover [OF assms(2,3)] by presburger
qed

text \<open>
  C8. A resync request repairs the picture of a client that has lost datagrams. Whatever its
  model shows, when a session of player \<open>p\<close> reads the one byte a connected client sends for a
  resync, the next queued update (any tick's delta) sends \<open>p\<close>'s endpoint, when no other player is
  registered there, the snapshot of the server's last tick; its datagrams, delivered in
  order, make the client show every position of every chunk that has between 1 and 125 live
  cells as the server has it.
\<close>

theorem resync_repairs:
  assumes "net_reachable st" "playerOf (manager st) sid = p" "map_of (sessions (manager st)) p = Some sid'"
    and "map_of (udpEndpoints (manager st)) p = Some ep"
    and "\<forall>q. map_of (udpEndpoints (manager st)) q = Some ep \<longrightarrow> q = p"
    and "wf_server s" "networkManager s0 \<noteq> NoNetwork"
    and "sendResync cl = [TcpWrite [t]]" "inRange X" "inRange Y"
    and "1 \<le> length (fullEntries (chunkOr (keyAt X Y) (world (fst (onTick s)))))"
    and "length (fullEntries (chunkOr (keyAt X Y) (world (fst (onTick s))))) \<le> 125"
  shows "\<exists>n' effs. doUdpBroadcast (Some (\<lambda>q. getFullSnapshotForSeq q (fst (onTick s)))) (tickUpdate s0) q
      (afterResync t sid (manager st)) = Some (n', effs) \<and>
    ownerAt (deliver (snd (onUdpReadyRead (datagramsTo ep effs) cl)) m) (word_of_int X) (word_of_int Y) =
      shown (cellAt (world (fst (onTick s))) X Y)"
proof -
  let ?n = "manager st" and ?w = "world (fst (onTick s))"
  let ?n1 = "afterResync t sid ?n"
  have t: "t = kMsgResyncReq" using assms(8) by (simp add: sendResync_def split: if_splits)
  note n1 = afterResync_eq [OF assms(2,3), folded t]
  have "registered ?n" using net_reachable_inv [OF assms(1)] by (simp add: net_inv_def)
  then obtain so where so: "map_of (sessionObjs ?n) sid' = Some so"
    using assms(3) unfolding registered_def identity_def by fastforce
  have "map_of (sessionObjs ?n1) sid' = Some (so\<lparr>needsFullSnapshot := True\<rparr>)"
    by (simp add: n1 map_of_modifySession so)
  moreover have "sendPayloadTo (tickUpdate s0) = Some
      (map (\<lambda>(c, es). encodePacket (broadcastSeq s0 + 1) kFlagDelta c es) (deltaPackets (chunks (fst (afterCommands s0)))))"
    using assms(7) by (simp add: tickUpdate_eq sendPayloadTo_encodeAll smallPackets_delta)
  moreover have "sendPayloadTo (getFullSnapshotForSeq q (fst (onTick s))) =
      Some (map (\<lambda>(c, es). encodePacket q kFlagFull c es) (fullPackets (chunks ?w)))"
    by (simp add: getFullSnapshotForSeq_onTick serializeFull_eq sendPayloadTo_encodeAll smallPackets_full)
  ultimately have "\<exists>n' effs. doUdpBroadcast (Some (\<lambda>q. getFullSnapshotForSeq q (fst (onTick s)))) (tickUpdate s0) q ?n1 =
        Some (n', effs) \<and>
      datagramsTo ep effs = (if needsFullSnapshot (so\<lparr>needsFullSnapshot := True\<rparr>)
        then map (\<lambda>(c, es). encodePacket q kFlagFull c es) (fullPackets (chunks ?w))
        else map (\<lambda>(c, es). encodePacket (broadcastSeq s0 + 1) kFlagDelta c es)
          (deltaPackets (chunks (fst (afterCommands s0)))))"
    using net_reachable_distinct [OF assms(1)] assms(3,4)
    by (intro broadcast_to_one [where p = p and sid = sid' and ep = ep])
      (simp_all only: n1 modifySession_frame assms(5) [rule_format])
  then obtain n' effs where
    run: "doUdpBroadcast (Some (\<lambda>q. getFullSnapshotForSeq q (fst (onTick s)))) (tickUpdate s0) q ?n1 =
      Some (n', effs)" and
    sent: "datagramsTo ep effs = map (\<lambda>(c, es). encodePacket q kFlagFull c es) (fullPackets (chunks ?w))"
    by auto
  have "wf_world ?w" using wf_onTick [OF assms(6)] by (simp add: wf_server_def)
  moreover have "fullEntries (chunkOr (keyAt X Y) ?w) \<noteq> []" using assms(11) by auto
  ultimately show ?thesis
    using run sent repaired [OF _ assms(9,10), of ?w q m] assms(12)
    by (simp add: deliver_onUdpReadyRead smallPackets_full)
qed

lemma sampleServer_entries:
  "fullEntries (chunkOr (coord 0 (-1)) (world (fst (onTick sampleServer)))) =
     [\<lparr>entryX = 3, entryY = 60, entryAlive = 1, entryOwner = 7\<rparr>]"
proof -
  let ?ch = "chunkOr (coord 0 (-1)) (world (fst (onTick sampleServer)))"
  have cells: "getCell ?ch x y = (if x = 3 \<and> y = 60 then \<lparr>alive = True, owner = 7\<rparr> else deadCell)"
    if "x < 64" "y < 64" for x y :: nat
  proof -
    have d: "(int y - 64) div 64 = - 1" using that by linarith
    have "keyAt (int x) (int y - 64) = coord 0 (-1)" using that by (simp add: keyAt_def d)
    then have "getCell ?ch x y = cellAt (world (fst (onTick sampleServer))) (int x) (int y - 64)"
      using that by (simp add: cellAt_chunkOr)
    moreover have "(int y - 64) mod 2 ^ 38 = int y - 64 + 2 ^ 38"
      using mod_add_self2 [of "int y - 64" "2 ^ 38"] mod_pos_pos_trivial [of "int y - 64 + 2 ^ 38" "2 ^ 38"] that
      by simp
    then have "sameCoord (int x) 3 \<longleftrightarrow> x = 3" "sameCoord (int y - 64) (- 4) \<longleftrightarrow> y = 60"
      using that by (auto simp: sameCoord_def)
    ultimately show ?thesis by (simp add: sampleServer_cells)
  qed
  let ?e = "\<lparr>entryX = 3, entryY = 60, entryAlive = 1, entryOwner = 7\<rparr> :: Entry"
  have "e = ?e" if "e \<in> set (fullEntries ?ch)" for e
    using that cells unfolding mem_fullEntries by (auto simp: deadCell_def split: if_splits)
  moreover have "?e \<in> set (fullEntries ?ch)"
    using cells [of 3 60] unfolding mem_fullEntries
    by (intro exI [of _ "3 :: nat"] exI [of _ "60 :: nat"] conjI) simp_all
  ultimately have set: "set (fullEntries ?ch) = {?e}" by blast
  moreover have "distinct (fullEntries ?ch)" using distinct_positions [of ?ch] by (simp add: distinct_map)
  ultimately have "length (fullEntries ?ch) = 1" by (metis distinct_card is_singletonI is_singleton_altdef)
  with set show ?thesis by (cases "fullEntries ?ch") auto
qed

theorem resync_repairs_witness:
  "\<exists>n' effs. doUdpBroadcast (Some (\<lambda>q. getFullSnapshotForSeq q (fst (onTick sampleServer))))
      (tickUpdate (newGameServer BoostNetwork)) 9 (afterResync kMsgResyncReq 0 (manager sampleRun)) = Some (n', effs) \<and>
    ownerAt (deliver (snd (onUdpReadyRead (datagramsTo 2 effs) (newClient\<lparr>tcpState := Connected\<rparr>)))
      (newWorldModel\<lparr>aliveCells := [(CellKey 4 (- 4), 9)]\<rparr>)) 4 (- 4) = 0"
proof -
  have k: "keyAt 4 (- 4) = coord 0 (- 1)" by (simp add: keyAt_def)
  have "\<exists>n' effs. doUdpBroadcast (Some (\<lambda>q. getFullSnapshotForSeq q (fst (onTick sampleServer))))
      (tickUpdate (newGameServer BoostNetwork)) 9 (afterResync kMsgResyncReq 0 (manager sampleRun)) = Some (n', effs) \<and>
    ownerAt (deliver (snd (onUdpReadyRead (datagramsTo 2 effs) (newClient\<lparr>tcpState := Connected\<rparr>)))
      (newWorldModel\<lparr>aliveCells := [(CellKey 4 (- 4), 9)]\<rparr>)) (word_of_int 4) (word_of_int (- 4)) =
    shown (cellAt (world (fst (onTick sampleServer))) 4 (- 4))"
    by (rule resync_repairs [where p = 7 and sid' = 1])
      (simp_all add: sampleRun_reachable wf_sampleServer sampleServer_entries k inRange_def sendResync_def isConnected_def,
       simp_all add: sampleRun_eq playerOf_def sampleSession_def newGameServer_def)
  then show ?thesis by (simp add: sampleServer_cells sameCoord_def shown_def deadCell_def)
qed

end
