(* ===== verification/Sample_Runs.thy ===== *)
theory Sample_Runs
  imports Client_Streams Quiet_Ticks Resync_Repair
begin

section \<open>Commands on a connection, and a run of the server with one player\<close>

text \<open>
  A session that has read everything reads each further command of its player in two steps and
  hands it to the server. With it, a run of the whole server is put together: player 7 connects
  from endpoint 1, places cells and a tick passes.
\<close>

lemma datagramsTo_finish:
  "datagramsTo ep (netLog (finish op r st)) = datagramsTo ep (netLog st) @ datagramsTo ep (snd r)"
proof -
  have "datagramsTo ep (filter (\<lambda>e. \<not> isAwait e) effs) = datagramsTo ep effs" for effs :: "'a NetEffect list"
  proof (induction effs)
    case (Cons e effs)
    then show ?case by (cases e) (simp_all add: datagramsTo_def)
  qed simp
  then show ?thesis by (simp add: finish_def)
qed

subsection \<open>One command\<close>

text \<open>What reading some commands changes.\<close>

definition readsOn :: "nat \<Rightarrow> PlayerCommand list \<Rightarrow> 'ep ServerSystem \<Rightarrow> 'ep ServerSystem \<Rightarrow> bool" where
  "readsOn sid cmds u u' \<longleftrightarrow> server_step\<^sup>*\<^sup>* u u' \<and> manager (net u') = manager (net u) \<and>
     core u' = fold serverStep (map (\<lambda>c. Send [c]) cmds) (core u) \<and>
     (\<forall>ep. datagramsTo ep (netLog (net u')) = datagramsTo ep (netLog (net u)))"

lemma command_read:
  fixes u :: "'ep ServerSystem"
  assumes "AwaitType sid \<in> set (pendingOps (net u))" "ioRunning (manager (net u))" "commandCallbackSet (manager (net u))"
    and "playerOf (manager (net u)) sid = p" "t \<in> {kCmdPlace, kCmdRemove, kCmdToggle}"
    and unread: "unread u sid = commandBytes t p x y @ rest"
  shows "\<exists>u'. readsOn sid [\<lparr>cmdPlayerId = p, cmdType = commandTypeOf t, cmdX = x, cmdY = y\<rparr>] u u' \<and>
    AwaitType sid \<in> set (pendingOps (net u')) \<and> unread u' sid = rest"
proof -
  let ?n = "manager (net u)" and ?cmd = "\<lparr>cmdPlayerId = p, cmdType = commandTypeOf t, cmdX = x, cmdY = y\<rparr>"
  define body where "body = tl (commandBytes t p x y)"
  have b: "commandBytes t p x y = t # body" by (simp add: body_def commandBytes_def)
  note fields = commandBytes_fields [of t p x y, folded body_def]
  define u1 where "u1 = handled (AwaitType sid) sid 1 (?n, [AwaitBody sid t]) u"
  have read: "onMessageType False t sid ?n = (?n, [AwaitBody sid t])"
    using assms(5) by (auto simp: onMessageType_def kCmdPlace_def kCmdRemove_def kCmdToggle_def kMsgResyncReq_def)
  have "server_step u u1"
    unfolding u1_def read [symmetric]
    by (rule server_step.message [of sid u t "body @ rest"]) (use assms(1,2) in \<open>simp_all add: unread b\<close>)
  moreover have u1: "manager (net u1) = ?n" "AwaitBody sid t \<in> set (pendingOps (net u1))" "core u1 = core u"
    "unread u1 sid = body @ rest" "datagramsTo ep (netLog (net u1)) = datagramsTo ep (netLog (net u))" for ep
    using unread_handled [of "AwaitType sid" sid 1 "(?n, [AwaitBody sid t])" u]
    by (simp_all add: u1_def unread b handled_def Let_def manager_finish datagramsTo_finish)
      (simp_all add: finish_def datagramsTo_def)
  define r :: "'ep NetManager \<times> 'ep NetEffect list" where "r = (?n, [DeliverCommands [?cmd], AwaitType sid])"
  define u2 where "u2 = handled (AwaitBody sid t) sid (kCommandSize - 1) r u1"
  have "take (kCommandSize - 1) (unread u1 sid) = body" by (simp add: u1(4) fields)
  then have "onCommandBody False t (take (kCommandSize - 1) (unread u1 sid)) sid (manager (net u1)) = r"
    using assms(3,4) by (simp add: u1(1) onCommandBody_def fields r_def Let_def)
  then have "server_step u1 u2"
    unfolding u2_def using server_step.body [of sid t u1] u1(1,2,4) assms(2) fields by simp
  moreover have "manager (net u2) = ?n" "AwaitType sid \<in> set (pendingOps (net u2))"
    "core u2 = serverStep (Send [?cmd]) (core u)" "unread u2 sid = rest"
    "datagramsTo ep (netLog (net u2)) = datagramsTo ep (netLog (net u))" for ep
    using unread_handled [of "AwaitBody sid t" sid "kCommandSize - 1" r u1]
    by (simp_all add: u2_def r_def u1 fields handled_def Let_def manager_finish datagramsTo_finish)
      (simp_all add: finish_def datagramsTo_def)
  ultimately show ?thesis
    unfolding readsOn_def by (intro exI [of _ u2]) (simp add: converse_rtranclp_into_rtranclp)
qed

lemma commands_read:
  assumes "AwaitType sid \<in> set (pendingOps (net u))" "ioRunning (manager (net u))" "commandCallbackSet (manager (net u))"
    and "playerOf (manager (net u)) sid = p" "t \<in> {kCmdPlace, kCmdRemove, kCmdToggle}"
    and "unread u sid = concat (map (\<lambda>(x, y). commandBytes t p x y) ps)"
  shows "\<exists>u'. readsOn sid (map (\<lambda>(x, y). \<lparr>cmdPlayerId = p, cmdType = commandTypeOf t, cmdX = x, cmdY = y\<rparr>) ps) u u'"
  using assms
proof (induction ps arbitrary: u)
  case Nil
  then show ?case by (intro exI [of _ u]) (simp add: readsOn_def)
next
  case (Cons e ps)
  obtain x y where e: "e = (x, y)" by (cases e)
  let ?cmd = "\<lparr>cmdPlayerId = p, cmdType = commandTypeOf t, cmdX = x, cmdY = y\<rparr>"
  have "unread u sid = commandBytes t p x y @ concat (map (\<lambda>(x, y). commandBytes t p x y) ps)"
    using Cons.prems(6) by (simp add: e)
  from command_read [OF Cons.prems(1-5) this] obtain u1 where u1: "readsOn sid [?cmd] u u1"
    "AwaitType sid \<in> set (pendingOps (net u1))" "unread u1 sid = concat (map (\<lambda>(x, y). commandBytes t p x y) ps)"
    by (elim exE conjE)
  have "manager (net u1) = manager (net u)" using u1(1) by (simp add: readsOn_def)
  with Cons.IH [of u1] Cons.prems(2-5) u1(2,3) obtain u2 where
    "readsOn sid (map (\<lambda>(x, y). \<lparr>cmdPlayerId = p, cmdType = commandTypeOf t, cmdX = x, cmdY = y\<rparr>) ps) u1 u2" by auto
  with u1(1) show ?case
    unfolding readsOn_def by (intro exI [of _ u2]) (auto simp: e)
qed

subsection \<open>A tick\<close>

lemma toNetwork_posts:
  "\<exists>q ts. fold toNetwork cs n = n\<lparr>nmSeqNum := q, NetManager.posted := NetManager.posted n @ ts\<rparr> \<and>
     (\<forall>u. BroadcastWorldUpdate u \<in> set cs \<and> u \<noteq> [] \<longrightarrow> (\<exists>q. UdpBroadcast u q \<in> set ts))"
proof (induction cs arbitrary: n)
  case Nil
  show ?case by (intro exI [of _ "nmSeqNum n"] exI [of _ "[]"]) simp
next
  case (Cons c cs)
  obtain q1 ts1 where 1: "toNetwork c n = n\<lparr>nmSeqNum := q1, NetManager.posted := NetManager.posted n @ ts1\<rparr>"
    "\<forall>u. c = BroadcastWorldUpdate u \<and> u \<noteq> [] \<longrightarrow> (\<exists>q. UdpBroadcast u q \<in> set ts1)"
  proof (cases c)
    case (BroadcastWorldUpdate u)
    then show ?thesis
      by (cases "u = []")
        (rule that [of "[]" "nmSeqNum n"], simp_all add: broadcastWorldUpdate_def,
         rule that [of "[UdpBroadcast u (nmSeqNum n + 1)]" "nmSeqNum n + 1"], simp_all add: broadcastWorldUpdate_def)
  next
    case (BroadcastServerStats payload)
    then show ?thesis
      by (intro that [of "if payload = [] then [] else [StatsBroadcast payload]" "nmSeqNum n"])
        (simp_all add: broadcastServerStats_def)
  qed (intro that [of "[]" "nmSeqNum n"], simp_all)+
  obtain q2 ts2 where 2: "fold toNetwork cs (toNetwork c n) =
      (toNetwork c n)\<lparr>nmSeqNum := q2, NetManager.posted := NetManager.posted (toNetwork c n) @ ts2\<rparr>"
    "\<forall>u. BroadcastWorldUpdate u \<in> set cs \<and> u \<noteq> [] \<longrightarrow> (\<exists>q. UdpBroadcast u q \<in> set ts2)"
    using Cons.IH [of "toNetwork c n"] by blast
  have "fold toNetwork (c # cs) n = n\<lparr>nmSeqNum := q2, NetManager.posted := NetManager.posted n @ ts1 @ ts2\<rparr>"
    using 2(1) by (simp add: 1(1))
  moreover have "\<forall>u. BroadcastWorldUpdate u \<in> set (c # cs) \<and> u \<noteq> [] \<longrightarrow> (\<exists>q. UdpBroadcast u q \<in> set (ts1 @ ts2))"
    using 1(2) 2(2) by fastforce
  ultimately show ?case by blast
qed

lemma tick_posts:
  assumes "networkManager (core u) \<noteq> NoNetwork" "tickUpdate (core u) \<noteq> []"
  shows "\<exists>u' q ts. server_step u u' \<and> core u' = fst (onTick (core u)) \<and>
    manager (net u') = (manager (net u))\<lparr>nmSeqNum := q, NetManager.posted := NetManager.posted (manager (net u)) @ ts\<rparr> \<and>
    (\<exists>delta q. UdpBroadcast delta q \<in> set ts) \<and> netLog (net u') = netLog (net u)"
proof -
  have "BroadcastWorldUpdate (tickUpdate (core u)) \<in> set (snd (onTick (core u)))"
    using assms unfolding tickUpdate_eq [OF assms(1)] onTick_calls Let_def by simp
  with toNetwork_posts [of "snd (onTick (core u))" "manager (net u)"] assms(2) obtain q ts where
    "fold toNetwork (snd (onTick (core u))) (manager (net u)) =
      (manager (net u))\<lparr>nmSeqNum := q, NetManager.posted := NetManager.posted (manager (net u)) @ ts\<rparr>"
    "\<exists>delta q. UdpBroadcast delta q \<in> set ts" by blast
  then show ?thesis
    by (intro exI [of _ "u\<lparr>core := fst (onTick (core u)),
      net := (net u)\<lparr>manager := fold toNetwork (snd (onTick (core u))) (manager (net u))\<rparr>,
      history := history u @ [(None, Tick)]\<rparr>"] exI [of _ q] exI [of _ ts] conjI server_step.tick) simp_all
qed

subsection \<open>Player 7\<close>

definition sevenManager :: "nat NetManager" where
  "sevenManager = \<lparr>nmRunning = True, ioRunning = True, acceptorOpen = True, udpOpen = True,
     commandCallbackSet = True, addPlayerCallbackSet = True,
     sessionObjs = [(0, \<lparr>sessPlayerId = 7, handshakeDone = True, needsFullSnapshot = True, socketOpen = True, peer = Some 1\<rparr>)],
     sessions = [(7, 0)], udpEndpoints = [(7, 1)], nmSeqNum = 0, posted = []\<rparr>"

lemma greeted_seven:
  fixes bs defines "u \<equiv> greetedSystem (helloBytes 7 @ bs)"
  shows "manager (net u) = sevenManager" "AwaitType 0 \<in> set (pendingOps (net u))" "unread u 0 = bs"
    "core u = onPlayerJoined 7 (fst (startServer kTcpPort kUdpPort (newGameServer BoostNetwork)))"
    "datagramsTo ep (netLog (net u)) = []"
  by (simp_all add: u_def greetedSystem_def handled_def Let_def finish_def sampleSystem_defs onHandshake_def
      modifySession_def sevenManager_def kHandshakeSize_def datagramsTo_def)

definition placed :: "(u64 \<times> u64) list \<Rightarrow> GameServer" where
  "placed ps = fold serverStep (map (\<lambda>c. Send [c]) (map (\<lambda>(x, y). \<lparr>cmdPlayerId = 7, cmdType = PlaceCell, cmdX = x, cmdY = y\<rparr>) ps))
     (onPlayerJoined 7 (fst (startServer kTcpPort kUdpPort (newGameServer BoostNetwork))))"

lemma seven_places:
  "\<exists>u :: nat ServerSystem. system_run u \<and> manager (net u) = sevenManager \<and> core u = placed ps \<and>
     (\<forall>ep. datagramsTo ep (netLog (net u)) = [])"
proof -
  let ?u = "greetedSystem (helloBytes 7 @ concat (map (\<lambda>(x, y). commandBytes kCmdPlace 7 x y) ps))"
  note g = greeted_seven [where bs = "concat (map (\<lambda>(x, y). commandBytes kCmdPlace 7 x y) ps)"]
  have "\<exists>u'. readsOn 0 (map (\<lambda>(x, y). \<lparr>cmdPlayerId = 7, cmdType = commandTypeOf kCmdPlace, cmdX = x, cmdY = y\<rparr>) ps) ?u u'"
    by (rule commands_read) (simp_all add: g, simp_all add: sevenManager_def playerOf_def)
  then obtain u' where u': "readsOn 0 (map (\<lambda>(x, y). \<lparr>cmdPlayerId = 7, cmdType = PlaceCell, cmdX = x, cmdY = y\<rparr>) ps) ?u u'"
    by (auto simp: commandTypeOf_def)
  have "system_run u'"
    using u' system_run_steps greetedSystem_run [OF stream_greets(1)] unfolding readsOn_def by blast
  moreover have "core u' = placed ps"
    using u' by (simp add: readsOn_def placed_def g(4))
  ultimately show ?thesis using u' g(1,5) by (intro exI [of _ u']) (simp add: readsOn_def)
qed

end
