(* ===== verification/Grid_View.thy ===== *)
theory Grid_View
  imports Client_Window
begin

section \<open>InfiniteGridView: clicks, colours and the animation of cells\<close>

text \<open>
  The parts of the view with a logic of their own: telling a click from a drag, the colours
  of owners and pending edits, and the fading of cells in and out. Where the view asks Qt for
  the scene position of a pixel, and where it computes with \<open>float\<close>, the operations are
  arguments: \<open>zero\<close>, \<open>grow\<close> (add the speed, at most 1), \<open>shrink\<close> (subtract it, at least 0), \<open>gone\<close>
  (at most 0.001) and \<open>nonpos\<close>. What is painted is in \<open>Grid_Paint\<close>.
\<close>

subsection \<open>Clicks and drags\<close>

datatype MouseButton = LeftButton | OtherButton

record GridView =
  leftPressed :: bool
  dragDetected :: bool
  leftPressPos :: "int \<times> int"

definition newGridView :: GridView where
  "newGridView = \<lparr>leftPressed = False, dragDetected = False, leftPressPos = (0, 0)\<rparr>"

definition mousePressEvent :: "MouseButton \<Rightarrow> int \<times> int \<Rightarrow> GridView \<Rightarrow> GridView" where
  "mousePressEvent button pos v =
     (if button = LeftButton
      then v\<lparr>leftPressed := True, dragDetected := False, leftPressPos := pos\<rparr> else v)"

definition manhattanLength :: "int \<times> int \<Rightarrow> int \<times> int \<Rightarrow> int" where
  "manhattanLength p q = \<bar>fst p - fst q\<bar> + \<bar>snd p - snd q\<bar>"

definition mouseMoveEvent :: "int \<times> int \<Rightarrow> GridView \<Rightarrow> GridView" where
  "mouseMoveEvent pos v =
     (if leftPressed v \<and> manhattanLength pos (leftPressPos v) > 4 then v\<lparr>dragDetected := True\<rparr> else v)"

text \<open>\<open>floorScene\<close> is the scene position of a pixel, rounded down.\<close>

definition mouseReleaseEvent ::
  "(int \<times> int \<Rightarrow> u64 \<times> u64) \<Rightarrow> MouseButton \<Rightarrow> int \<times> int \<Rightarrow> GridView \<Rightarrow> GridView \<times> (u64 \<times> u64) list"
where
  "mouseReleaseEvent floorScene button pos v =
     (if button = LeftButton then v\<lparr>leftPressed := False, dragDetected := False\<rparr> else v,
      if button = LeftButton \<and> leftPressed v \<and> \<not> dragDetected v then [floorScene pos] else [])"

datatype MouseEvent = Press MouseButton "int \<times> int" | Move "int \<times> int" | Release MouseButton "int \<times> int"

fun mouseEvent ::
  "(int \<times> int \<Rightarrow> u64 \<times> u64) \<Rightarrow> MouseEvent \<Rightarrow> GridView \<Rightarrow> GridView \<times> (u64 \<times> u64) list" where
  "mouseEvent floorScene (Press b pos) v = (mousePressEvent b pos v, [])"
| "mouseEvent floorScene (Move pos) v = (mouseMoveEvent pos v, [])"
| "mouseEvent floorScene (Release b pos) v = mouseReleaseEvent floorScene b pos v"

fun mouseEvents ::
  "(int \<times> int \<Rightarrow> u64 \<times> u64) \<Rightarrow> MouseEvent list \<Rightarrow> GridView \<Rightarrow> GridView \<times> (u64 \<times> u64) list" where
  "mouseEvents floorScene [] v = (v, [])"
| "mouseEvents floorScene (e # es) v =
     (let (v1, c1) = mouseEvent floorScene e v; (v2, c2) = mouseEvents floorScene es v1 in (v2, c1 @ c2))"

lemma mouseEvents_append:
  "mouseEvents fl (es @ es') v =
     (let (v1, c1) = mouseEvents fl es v; (v2, c2) = mouseEvents fl es' v1 in (v2, c1 @ c2))"
  by (induction es arbitrary: v) (auto simp: case_prod_beta Let_def)

definition leftIdle :: "MouseEvent list \<Rightarrow> bool" where
  "leftIdle es \<longleftrightarrow> (\<forall>e \<in> set es. \<forall>pos. e \<noteq> Press LeftButton pos \<and> e \<noteq> Release LeftButton pos)"

definition movedFar :: "MouseEvent list \<Rightarrow> int \<times> int \<Rightarrow> bool" where
  "movedFar es p \<longleftrightarrow> (\<exists>pos. Move pos \<in> set es \<and> manhattanLength pos p > 4)"

lemma movedFar_Cons: "movedFar (e # es) p \<longleftrightarrow>
   (case e of Move pos \<Rightarrow> manhattanLength pos p > 4 | _ \<Rightarrow> False) \<or> movedFar es p"
  unfolding movedFar_def by (cases e) auto

lemma mouseEvents_held:
  assumes "leftIdle es" "leftPressed v"
  shows "mouseEvents fl es v =
    (v\<lparr>dragDetected := dragDetected v \<or> movedFar es (leftPressPos v)\<rparr>, [])"
  using assms
proof (induction es arbitrary: v)
  case Nil
  then show ?case by (simp add: movedFar_def)
next
  case (Cons e es)
  have idle: "leftIdle es" using Cons.prems(1) by (simp add: leftIdle_def)
  note IH = Cons.IH [OF idle]
  show ?case
  proof (cases e)
    case (Press b pos)
    then have "b = OtherButton" using Cons.prems(1) by (cases b; cases pos) (auto simp: leftIdle_def)
    with Press IH [OF Cons.prems(2)] show ?thesis by (simp add: mousePressEvent_def movedFar_Cons)
  next
    case (Move pos)
    have "leftPressed (mouseMoveEvent pos v)" "leftPressPos (mouseMoveEvent pos v) = leftPressPos v"
      using Cons.prems(2) by (simp_all add: mouseMoveEvent_def)
    with Move IH [of "mouseMoveEvent pos v"] Cons.prems(2) show ?thesis
      by (auto simp: mouseMoveEvent_def movedFar_Cons)
  next
    case (Release b pos)
    then have "b = OtherButton" using Cons.prems(1) by (cases b; cases pos) (auto simp: leftIdle_def)
    with Release IH [OF Cons.prems(2)] show ?thesis by (simp add: mouseReleaseEvent_def movedFar_Cons)
  qed
qed

text \<open>
  A press of the left button and its release are one click, on the cell under the release,
  exactly when every move in between stayed within four pixels of the press (in the
  Manhattan distance); other buttons do not matter, and whatever happened before does not.
\<close>

theorem click_unless_dragged:
  assumes "leftIdle es"
  shows "snd (mouseEvents floorScene (Press LeftButton p # es @ [Release LeftButton q]) v) =
    (if \<forall>pos. Move pos \<in> set es \<longrightarrow> manhattanLength pos p \<le> 4 then [floorScene q] else [])"
proof -
  let ?v = "mousePressEvent LeftButton p v"
  have "leftPressed ?v" "leftPressPos ?v = p" "\<not> dragDetected ?v"
    by (simp_all add: mousePressEvent_def)
  then show ?thesis
    using mouseEvents_held [OF assms, of ?v floorScene]
    by (auto simp: mouseEvents_append mouseReleaseEvent_def movedFar_def not_less)
qed

theorem click_unless_dragged_witness:
  "snd (mouseEvents (\<lambda>p. (word_of_int (fst p), word_of_int (snd p)))
     [Press LeftButton (10, 10), Move (12, 11), Release LeftButton (12, 11)] newGridView) = [(12, 11)]"
  using click_unless_dragged [of "[Move (12, 11)]" "\<lambda>p. (word_of_int (fst p), word_of_int (snd p))"
      "(10, 10)" "(12, 11)" newGridView]
  by (simp add: leftIdle_def manhattanLength_def)

subsection \<open>Colours\<close>

definition ownerHue :: "u64 \<Rightarrow> u64" where
  "ownerHue ownerId = (ownerId * 2654435761) mod 360"

definition pendingColor :: "nat \<Rightarrow> nat \<times> nat \<times> nat \<times> nat" where
  "pendingColor action =
     (if action = 1 then (70, 128, 230, 170)
      else if action = 2 then (214, 53, 53, 170)
      else (120, 120, 120, 170))"

lemma ownerHue_range: "unat (ownerHue p) < 360"
  by (simp add: ownerHue_def unat_mod)

subsection \<open>The animation of cells\<close>

record 'f CellVisualState =
  life :: 'f
  targetAlive :: bool

type_synonym 'f Visuals = "(CellKey \<times> 'f CellVisualState) list"

definition animTick :: "('f \<Rightarrow> 'f) \<Rightarrow> ('f \<Rightarrow> 'f) \<Rightarrow> ('f \<Rightarrow> bool) \<Rightarrow> 'f Visuals \<Rightarrow> 'f Visuals" where
  "animTick grow shrink gone visuals = concat (map (\<lambda>(key, v).
     let v' = (if targetAlive v then v\<lparr>life := grow (life v)\<rparr> else v\<lparr>life := shrink (life v)\<rparr>)
     in if \<not> targetAlive v' \<and> gone (life v') then [] else [(key, v')]) visuals)"

definition hugeCells :: "WorldModel \<Rightarrow> CellKey list" where
  "hugeCells m = map (\<lambda>c. CellKey (cellX c) (cellY c))
     (visibleCells (- 1000000000) (- 1000000000) 1000000000 1000000000 m)"

definition touchVisual :: "'f \<Rightarrow> ('f \<Rightarrow> bool) \<Rightarrow> CellKey \<Rightarrow> 'f Visuals \<Rightarrow> 'f Visuals" where
  "touchVisual zero nonpos key visuals =
     (let visual = (case map_of visuals key of Some v \<Rightarrow> v | None \<Rightarrow> \<lparr>life = zero, targetAlive = False\<rparr>);
          visual1 = visual\<lparr>targetAlive := True\<rparr>
      in AList.update key
           (if nonpos (life visual1) then visual1\<lparr>life := zero\<rparr> else visual1) visuals)"

definition syncVisualState ::
  "'f \<Rightarrow> ('f \<Rightarrow> bool) \<Rightarrow> WorldModel \<Rightarrow> 'f Visuals \<Rightarrow> 'f Visuals" where
  "syncVisualState zero nonpos m visuals =
     (let aliveNow = set (hugeCells m);
          touched = fold (touchVisual zero nonpos) (hugeCells m) visuals
      in map (\<lambda>(key, v). (key, if key \<notin> aliveNow then v\<lparr>targetAlive := False\<rparr> else v)) touched)"

lemma animTick_append: "animTick g s d (xs @ ys) = animTick g s d xs @ animTick g s d ys"
  by (simp add: animTick_def)

lemma animTicks_append: "(animTick g s d ^^ n) (xs @ ys) = (animTick g s d ^^ n) xs @ (animTick g s d ^^ n) ys"
  by (induction n arbitrary: xs ys) (simp_all add: animTick_append funpow_swap1)

lemma animTicks_Nil: "(animTick g s d ^^ n) [] = []"
  by (induction n) (simp_all add: animTick_def)

lemma keys_animTicks_alive:
  "targetAlive v \<Longrightarrow> map fst ((animTick g s d ^^ n) [(k, v)]) = [k]"
  by (induction n arbitrary: v) (simp_all add: funpow_swap1 animTick_def [of _ _ _ "[_]"] del: funpow.simps(2)
      add: funpow_Suc_right)

lemma animTicks_gone:
  assumes "\<not> targetAlive v" "0 < j" "j \<le> n" "d ((s ^^ j) (life v))"
  shows "(animTick g s d ^^ n) [(k, v)] = []"
  using assms
proof (induction n arbitrary: v j)
  case (Suc n)
  show ?case
  proof (cases "d (s (life v))")
    case True
    with Suc.prems(1) have "animTick g s d [(k, v)] = []" by (simp add: animTick_def)
    then show ?thesis by (simp add: funpow_Suc_right animTicks_Nil del: funpow.simps(2))
  next
    case False
    let ?v = "v\<lparr>life := s (life v)\<rparr>"
    have one: "animTick g s d [(k, v)] = [(k, ?v)]"
      using False Suc.prems(1) by (simp add: animTick_def)
    obtain i where i: "j = Suc i" using Suc.prems(2) by (cases j) auto
    with False Suc.prems(4) have "0 < i" by (cases i) auto
    moreover have "d ((s ^^ i) (life ?v))"
      using Suc.prems(4) by (simp add: i funpow_swap1)
    ultimately have "(animTick g s d ^^ n) [(k, ?v)] = []"
      using Suc.IH [of ?v i] Suc.prems(1,3) i by simp
    then show ?thesis by (simp add: one funpow_Suc_right del: funpow.simps(2))
  qed
qed simp

lemma keys_animTicks:
  assumes "\<forall>(key, v) \<in> set visuals. \<not> targetAlive v \<longrightarrow> (\<exists>j \<le> n. 0 < j \<and> d ((s ^^ j) (life v)))"
  shows "fst ` set ((animTick g s d ^^ n) visuals) = {key. \<exists>v. (key, v) \<in> set visuals \<and> targetAlive v}"
  using assms
proof (induction visuals)
  case Nil
  then show ?case by (simp add: animTicks_Nil)
next
  case (Cons e visuals)
  obtain k v where e: "e = (k, v)" by fastforce
  have "fst ` set ((animTick g s d ^^ n) [(k, v)]) = (if targetAlive v then {k} else {})"
  proof (cases "targetAlive v")
    case True
    then show ?thesis using keys_animTicks_alive [where v = v and k = k] by (metis list.set(1,2) list.set_map)
  next
    case False
    with Cons.prems e obtain j where "j \<le> n" "0 < j" "d ((s ^^ j) (life v))" by auto
    with False show ?thesis by (simp add: animTicks_gone)
  qed
  moreover have "(animTick g s d ^^ n) (e # visuals) = (animTick g s d ^^ n) [(k, v)] @ (animTick g s d ^^ n) visuals"
    using animTicks_append [where xs = "[(k, v)]" and ys = visuals] by (simp add: e)
  moreover have "fst ` set ((animTick g s d ^^ n) visuals) = {key. \<exists>v. (key, v) \<in> set visuals \<and> targetAlive v}"
    using Cons by simp
  ultimately show ?case unfolding e by (simp add: image_Un) auto
qed

lemma touched_other: "k \<notin> set ks \<Longrightarrow> map_of (fold (touchVisual z np) ks vs) k = map_of vs k"
  by (induction ks arbitrary: vs) (auto simp: touchVisual_def Let_def update_conv')

lemma touched_alive:
  assumes "k \<in> set ks \<or> (\<exists>v. map_of vs k = Some v \<and> targetAlive v)"
  shows "\<exists>v. map_of (fold (touchVisual z np) ks vs) k = Some v \<and> targetAlive v"
  using assms
proof (induction ks arbitrary: vs)
  case (Cons key ks)
  have "k \<in> set ks \<or> (\<exists>v. map_of (touchVisual z np key vs) k = Some v \<and> targetAlive v)"
    using Cons.prems by (auto simp: touchVisual_def Let_def update_conv')
  then show ?case using Cons.IH by simp
qed simp

lemma distinct_touched: "distinct (map fst vs) \<Longrightarrow> distinct (map fst (fold (touchVisual z np) ks vs))"
  by (induction ks arbitrary: vs) (simp_all add: touchVisual_def Let_def distinct_update)

text \<open>
  The drawn cells settle on the model's: after the view has synchronised with the model, and
  once every fading life has had the ticks it needs to vanish, the cells that have a visual
  state are exactly the live cells of the model within a billion of the origin.
\<close>

theorem visuals_follow_model:
  assumes "distinct (map fst visuals)"
    and "\<forall>(key, v) \<in> set visuals. \<exists>j \<le> n. 0 < j \<and> gone ((shrink ^^ j) (life v))"
  shows "fst ` set ((animTick grow shrink gone ^^ n) (syncVisualState zero nonpos m visuals)) = set (hugeCells m)"
proof -
  let ?ks = "hugeCells m"
  let ?t = "fold (touchVisual zero nonpos) ?ks visuals"
  let ?s = "syncVisualState zero nonpos m visuals"
  have d: "distinct (map fst ?t)" using assms(1) by (rule distinct_touched)
  have s: "(k, v) \<in> set ?s \<longleftrightarrow> (\<exists>v0. map_of ?t k = Some v0 \<and>
      v = (if k \<notin> set ?ks then v0\<lparr>targetAlive := False\<rparr> else v0))" for k v
  proof -
    have "(k, v) \<in> set ?s \<longleftrightarrow> (\<exists>v0. (k, v0) \<in> set ?t \<and>
        v = (if k \<notin> set ?ks then v0\<lparr>targetAlive := False\<rparr> else v0))"
      unfolding syncVisualState_def Let_def set_map by force
    then show ?thesis using d by simp
  qed
  have dead: "\<not> targetAlive v \<longrightarrow> (\<exists>j \<le> n. 0 < j \<and> gone ((shrink ^^ j) (life v)))"
    if "(k, v) \<in> set ?s" for k v
  proof
    assume "\<not> targetAlive v"
    with that touched_alive [of k ?ks visuals zero nonpos] have "k \<notin> set ?ks" unfolding s by auto
    with that obtain v0 where "map_of visuals k = Some v0" "v = v0\<lparr>targetAlive := False\<rparr>"
      unfolding s by (auto simp: touched_other)
    with assms(2) show "\<exists>j \<le> n. 0 < j \<and> gone ((shrink ^^ j) (life v))" by (force dest: map_of_SomeD)
  qed
  have "fst ` set ((animTick grow shrink gone ^^ n) ?s) = {key. \<exists>v. (key, v) \<in> set ?s \<and> targetAlive v}"
    by (rule keys_animTicks) (use dead in blast)
  also have "\<dots> = set ?ks"
  proof (intro set_eqI iffI)
    fix k assume "k \<in> set ?ks"
    with touched_alive [of k ?ks visuals zero nonpos] show "k \<in> {key. \<exists>v. (key, v) \<in> set ?s \<and> targetAlive v}"
      unfolding s by auto
  next
    fix k assume "k \<in> {key. \<exists>v. (key, v) \<in> set ?s \<and> targetAlive v}"
    then show "k \<in> set ?ks" by (cases "k \<in> set ?ks") (auto simp: s)
  qed
  finally show ?thesis .
qed

theorem visuals_follow_model_witness:
  "fst ` set ((animTick (\<lambda>l. min 9 (l + 1)) (\<lambda>l. l - 1) (\<lambda>l. l = (0::nat)) ^^ 9)
     (syncVisualState 0 (\<lambda>l. l = 0) (newWorldModel\<lparr>aliveCells := [(CellKey 1 2, 7)]\<rparr>)
        [(CellKey 5 5, \<lparr>life = 9, targetAlive = True\<rparr>)])) = {CellKey 1 2}"
proof -
  have "\<exists>j \<le> 9. 0 < j \<and> ((\<lambda>l. l - 1) ^^ j) 9 = (0::nat)"
    by (intro exI [of _ 9]) (simp add: numeral_eq_Suc)
  then show ?thesis
    using visuals_follow_model [of "[(CellKey 5 5, \<lparr>life = 9, targetAlive = True\<rparr>)]" 9 "\<lambda>l. l = (0::nat)"
        "\<lambda>l. l - 1" "\<lambda>l. min 9 (l + 1)" 0 "\<lambda>l. l = 0" "newWorldModel\<lparr>aliveCells := [(CellKey 1 2, 7)]\<rparr>"]
    by (simp add: hugeCells_def visibleCells_def)
qed

end
