(* ===== verification/Client_App.thy ===== *)
theory Client_App
  imports Client_Edits Grid_View
begin

section \<open>The client as a whole: window, runtime and network thread\<close>

text \<open>
  The window's slots as one step relation, and the client as two threads joined by two
  queues: the calls \<open>ClientRuntime\<close> has posted to the network thread, and the signals the
  network client has emitted and the window has not yet handled (all of its connections are
  queued). Qt delivers each queue in order; how the two threads interleave is open.
\<close>

subsection \<open>The slots of the window as steps\<close>

fun onSignal :: "bool \<Rightarrow> ClientEffect \<Rightarrow> GameWindow \<Rightarrow> GameWindow" where
  "onSignal ms (ConnectionStateChanged msg connected) w = fst (onConnectionStateChanged msg connected w)"
| "onSignal ms (ServerStatsUpdated gen players) w = onServerStatsUpdated players w"
| "onSignal ms (WorldUpdateReceived seqNum full chunkX chunkY cells) w =
     onWorldUpdateReceived ms seqNum full chunkX chunkY cells w"
| "onSignal ms _ w = w"

definition spinsInRange :: "ConnectionDialog \<Rightarrow> bool" where
  "spinsInRange d \<longleftrightarrow> 1 \<le> tcpPortSpin d \<and> tcpPortSpin d \<le> 65535 \<and> 1 \<le> udpPortSpin d \<and> udpPortSpin d \<le> 65535"

inductive user_step :: "GameWindow \<Rightarrow> GameWindow \<times> RuntimeCall list \<Rightarrow> bool" where
  click: "user_step w (onGridCellClicked x y w)"
| action: "user_step w (w\<lparr>actionCombo := a\<rparr>, [])"
| mode: "user_step w (w\<lparr>modeCombo := md\<rparr>, [])"
| apply_edits: "user_step w (applyPendingEdits w)"
| clear_edits: "user_step w (clearPendingEdits w, [])"
| navigate: "user_step w (updateNavigationPanel cx cy w, [])"
| cancel: "user_step w (openConnectionDialog ms None w)"
| accept: "spinsInRange d \<Longrightarrow> snd (acceptDialog toULongLong trimmed random d) = Some params \<Longrightarrow>
    user_step w (openConnectionDialog ms (Some params) w)"
| disconnect: "user_step w (w, [CallDisconnect])"
| resync: "user_step w (w, [CallResync])"

inductive_cases user_stepE: "user_step w (w', calls)"

text \<open>The window's thread runs a handler of the user interface or handles a signal.\<close>

inductive window_step :: "GameWindow \<Rightarrow> GameWindow \<Rightarrow> bool" where
  user: "user_step w (w', calls) \<Longrightarrow> window_step w w'"
| signal: "window_step w (onSignal ms e w)"

inductive window_reachable :: "GameWindow \<Rightarrow> bool" where
  init: "window_reachable (newWindow cx cy)"
| step: "window_reachable w \<Longrightarrow> window_step w w' \<Longrightarrow> window_reachable w'"

text \<open>What the window shows agrees with what it knows.\<close>

definition showsState :: "GameWindow \<Rightarrow> bool" where
  "showsState w \<longleftrightarrow> refreshStatsPanel w = w \<and> refreshPendingList w = w \<and>
     gridOverlay w = map (\<lambda>(k, a). (k, actionCode a)) (pendingEdits w) \<and>
     generationLabel w = generation (worldModel w) \<and> liveCellsLabel w = liveCellsCount (worldModel w)"

definition wf_params :: "ConnectionParams \<Rightarrow> bool" where
  "wf_params p \<longleftrightarrow> paramPlayerId p \<noteq> 0 \<and> paramHost p \<noteq> [] \<and> paramTcpPort p \<noteq> 0 \<and> paramUdpPort p \<noteq> 0"

definition wf_window :: "GameWindow \<Rightarrow> bool" where
  "wf_window w \<longleftrightarrow> wf_model (worldModel w) \<and> distinct (map fst (pendingEdits w)) \<and>
     distinct (map fst (serverPlayers w)) \<and> wf_params (lastParams w)"

subsection \<open>Each slot keeps the labels true\<close>

lemma refresh_idem [simp]:
  "refreshStatsPanel (refreshStatsPanel w) = refreshStatsPanel w"
  "refreshPendingList (refreshPendingList w) = refreshPendingList w"
  by (simp_all add: refreshStatsPanel_def refreshPendingList_def Let_def split: option.split)

text \<open>The two refreshes do not touch, and do not read, each other's labels or the rest.\<close>

lemma refresh_comm:
  "refreshStatsPanel (w\<lparr>statusLabel := v1\<rparr>) = (refreshStatsPanel w)\<lparr>statusLabel := v1\<rparr>"
  "refreshStatsPanel (w\<lparr>actionCombo := v2\<rparr>) = (refreshStatsPanel w)\<lparr>actionCombo := v2\<rparr>"
  "refreshStatsPanel (w\<lparr>modeCombo := v3\<rparr>) = (refreshStatsPanel w)\<lparr>modeCombo := v3\<rparr>"
  "refreshStatsPanel (w\<lparr>pendingEdits := v4\<rparr>) = (refreshStatsPanel w)\<lparr>pendingEdits := v4\<rparr>"
  "refreshStatsPanel (w\<lparr>gridOverlay := v5\<rparr>) = (refreshStatsPanel w)\<lparr>gridOverlay := v5\<rparr>"
  "refreshStatsPanel (w\<lparr>tickLabelShown := v6\<rparr>) = (refreshStatsPanel w)\<lparr>tickLabelShown := v6\<rparr>"
  "refreshStatsPanel (w\<lparr>tickTimerValid := v7\<rparr>) = (refreshStatsPanel w)\<lparr>tickTimerValid := v7\<rparr>"
  "refreshStatsPanel (updateNavigationPanel cx cy w) = updateNavigationPanel cx cy (refreshStatsPanel w)"
  by (simp_all add: refreshStatsPanel_def updateNavigationPanel_def Let_def split: option.split)

lemma refresh_swap: "refreshStatsPanel (refreshPendingList w) = refreshPendingList (refreshStatsPanel w)"
  by (simp add: refreshStatsPanel_def refreshPendingList_def Let_def split: option.split)

lemma pending_comm:
  "refreshPendingList (w\<lparr>statusLabel := v1\<rparr>) = (refreshPendingList w)\<lparr>statusLabel := v1\<rparr>"
  "refreshPendingList (w\<lparr>actionCombo := v2\<rparr>) = (refreshPendingList w)\<lparr>actionCombo := v2\<rparr>"
  "refreshPendingList (w\<lparr>modeCombo := v3\<rparr>) = (refreshPendingList w)\<lparr>modeCombo := v3\<rparr>"
  "refreshPendingList (w\<lparr>gridOverlay := v5\<rparr>) = (refreshPendingList w)\<lparr>gridOverlay := v5\<rparr>"
  "refreshPendingList (w\<lparr>worldModel := v6\<rparr>) = (refreshPendingList w)\<lparr>worldModel := v6\<rparr>"
  "refreshPendingList (w\<lparr>serverPlayers := v7\<rparr>) = (refreshPendingList w)\<lparr>serverPlayers := v7\<rparr>"
  "refreshPendingList (w\<lparr>lastParams := v8\<rparr>) = (refreshPendingList w)\<lparr>lastParams := v8\<rparr>"
  "refreshPendingList (w\<lparr>tickLabelShown := v9\<rparr>) = (refreshPendingList w)\<lparr>tickLabelShown := v9\<rparr>"
  "refreshPendingList (w\<lparr>tickTimerValid := v10\<rparr>) = (refreshPendingList w)\<lparr>tickTimerValid := v10\<rparr>"
  "refreshPendingList (w\<lparr>generationLabel := v11\<rparr>) = (refreshPendingList w)\<lparr>generationLabel := v11\<rparr>"
  "refreshPendingList (w\<lparr>liveCellsLabel := v12\<rparr>) = (refreshPendingList w)\<lparr>liveCellsLabel := v12\<rparr>"
  "refreshPendingList (updateNavigationPanel cx cy w) = updateNavigationPanel cx cy (refreshPendingList w)"
  by (simp_all add: refreshPendingList_def updateNavigationPanel_def)

lemma refreshStatsPanel_labels [frame_simps]:
  "gridOverlay (refreshStatsPanel w) = gridOverlay w"
  "generationLabel (refreshStatsPanel w) = generationLabel w"
  "liveCellsLabel (refreshStatsPanel w) = liveCellsLabel w"
  by (simp_all add: refreshStatsPanel_def Let_def split: option.split)

lemma refreshPendingList_labels [frame_simps]:
  "gridOverlay (refreshPendingList w) = gridOverlay w"
  "generationLabel (refreshPendingList w) = generationLabel w"
  "liveCellsLabel (refreshPendingList w) = liveCellsLabel w"
  by (simp_all add: refreshPendingList_def)

definition pendingShown :: "GameWindow \<Rightarrow> bool" where
  "pendingShown w \<longleftrightarrow> refreshPendingList w = w \<and>
     gridOverlay w = map (\<lambda>(k, a). (k, actionCode a)) (pendingEdits w)"

lemma showsState_split:
  "showsState w \<longleftrightarrow> pendingShown w \<and> refreshStatsPanel w = w \<and>
     generationLabel w = generation (worldModel w) \<and> liveCellsLabel w = liveCellsCount (worldModel w)"
  by (auto simp: showsState_def pendingShown_def)

lemma pendingShown_refreshStatsPanel: "pendingShown w \<Longrightarrow> pendingShown (refreshStatsPanel w)"
  by (simp add: pendingShown_def frame_simps flip: refresh_swap)

lemma overlay_fold:
  fixes es :: "(CellKey \<times> EditAction) list"
  assumes "distinct (map fst es)"
  shows "fold (\<lambda>(k, a). AList.update k (actionCode a)) es [] = map (\<lambda>(k, a). (k, actionCode a)) es"
proof -
  have upd: "AList.update k v xs = xs @ [(k, v)]" if "k \<notin> fst ` set xs" for k v and xs :: "(CellKey \<times> nat) list"
    using that by (induction xs) auto
  have "fold (\<lambda>(k, a). AList.update k (actionCode a)) es xs = xs @ map (\<lambda>(k, a). (k, actionCode a)) es"
    if "distinct (map fst es)" "fst ` set xs \<inter> fst ` set es = {}" for xs
    using that
  proof (induction es arbitrary: xs)
    case (Cons e es)
    obtain k a where e: "e = (k, a)" by fastforce
    with Cons.prems have "k \<notin> fst ` set xs" by auto
    then have "AList.update k (actionCode a) xs = xs @ [(k, actionCode a)]" by (rule upd)
    moreover have "fst ` set (xs @ [(k, actionCode a)]) \<inter> fst ` set es = {}" using Cons.prems e by auto
    ultimately show ?case using Cons.IH [of "xs @ [(k, actionCode a)]"] Cons.prems by (simp add: e)
  qed simp
  from this [of "[]"] assms show ?thesis by simp
qed

lemma showsState_refresh:
  assumes "pendingShown w" "generationLabel w = generation (worldModel w)"
    "liveCellsLabel w = liveCellsCount (worldModel w)"
  shows "showsState (refreshStatsPanel w)"
  using assms pendingShown_refreshStatsPanel [OF assms(1)] by (simp add: showsState_split frame_simps)

lemma showsState_status: "showsState w \<Longrightarrow> showsState (w\<lparr>statusLabel := r\<rparr>)"
  by (simp add: showsState_def refresh_comm pending_comm)

lemma wf_window_cong:
  "worldModel w' = worldModel w \<Longrightarrow> pendingEdits w' = pendingEdits w \<Longrightarrow> serverPlayers w' = serverPlayers w \<Longrightarrow>
   lastParams w' = lastParams w \<Longrightarrow> wf_window w' = wf_window w"
  by (simp add: wf_window_def)

definition window_inv :: "GameWindow \<Rightarrow> bool" where
  "window_inv w \<longleftrightarrow> showsState w \<and> wf_window w"

lemma window_inv_status: "window_inv w \<Longrightarrow> window_inv (w\<lparr>statusLabel := r\<rparr>)"
  by (simp add: window_inv_def showsState_status wf_window_def)

lemma window_inv_sendAction: "window_inv w \<Longrightarrow> window_inv (fst (sendAction a x y w))"
  using sendAction_state [of a x y w] window_inv_status by auto

lemma window_inv_clear: "window_inv w \<Longrightarrow> window_inv (clearPendingEdits w)"
  by (simp add: window_inv_def showsState_def clearPendingEdits_def wf_window_def frame_simps
      refresh_comm pending_comm refresh_swap)

lemma window_inv_apply: "window_inv w \<Longrightarrow> window_inv (fst (applyPendingEdits w))"
proof -
  let ?step = "\<lambda>(key, a) (w', calls). let (w'', c) = sendAction a (keyX key) (keyY key) w' in (w'', calls @ c)"
  have "window_inv w' \<Longrightarrow> window_inv (fst (fold ?step es (w', cs)))" for w' es cs
  proof (induction es arbitrary: w' cs)
    case (Cons e es)
    obtain k a where e: "e = (k, a)" by fastforce
    show ?case
      using Cons.IH [OF window_inv_sendAction [OF Cons.prems, of a "keyX k" "keyY k"]] Cons.prems
      by (simp add: e split_def Let_def)
  qed simp
  then show "window_inv w \<Longrightarrow> window_inv (fst (applyPendingEdits w))"
    by (simp add: applyPendingEdits_def split_def Let_def window_inv_clear)
qed

lemma window_inv_click:
  assumes "window_inv w"
  shows "window_inv (fst (onGridCellClicked x y w))"
proof (cases "modeCombo w = Immediate")
  case True
  with assms show ?thesis by (simp add: onGridCellClicked_def window_inv_sendAction)
next
  case False
  define edits where "edits = (if map_of (pendingEdits w) (CellKey x y) = Some (actionCombo w)
     then AList.delete (CellKey x y) (pendingEdits w)
     else AList.update (CellKey x y) (actionCombo w) (pendingEdits w))"
  let ?w1 = "refreshPendingList (w\<lparr>pendingEdits := edits\<rparr>)"
  let ?w2 = "?w1\<lparr>gridOverlay := fold (\<lambda>(k, a). AList.update k (actionCode a)) (pendingEdits ?w1) []\<rparr>"
  have "distinct (map fst edits)"
    using assms by (simp add: edits_def window_inv_def wf_window_def distinct_update distinct_delete)
  then have "window_inv ?w2"
    using assms by (simp add: window_inv_def showsState_def wf_window_def frame_simps overlay_fold
        refresh_comm pending_comm refresh_swap)
  moreover have "(\<exists>r. fst (onGridCellClicked x y w) = w\<lparr>statusLabel := r\<rparr>) \<or> fst (onGridCellClicked x y w) = ?w2"
    using False by (simp add: onGridCellClicked_def Let_def edits_def) blast
  ultimately show ?thesis using window_inv_status [OF assms] by auto
qed

lemma window_inv_stats:
  assumes "pendingShown w" "wf_window w"
  shows "window_inv (onStatsChanged ms (generation (worldModel w)) (liveCellsCount (worldModel w)) w)"
proof -
  let ?w1 = "w\<lparr>generationLabel := generation (worldModel w), liveCellsLabel := liveCellsCount (worldModel w)\<rparr>"
  obtain w2 where w2: "onStatsChanged ms (generation (worldModel w)) (liveCellsCount (worldModel w)) w = refreshStatsPanel w2"
    "w2 = ?w1 \<or> w2 = ?w1\<lparr>tickLabelShown := True\<rparr> \<or> w2 = ?w1\<lparr>tickTimerValid := True\<rparr>"
    by (simp add: onStatsChanged_def Let_def)
  have "pendingShown ?w1" using assms(1) by (simp add: pendingShown_def pending_comm)
  then have "pendingShown w2" "generationLabel w2 = generation (worldModel w2)"
    "liveCellsLabel w2 = liveCellsCount (worldModel w2)" "wf_window w2"
    using w2(2) assms(2) by (auto simp: pendingShown_def pending_comm wf_window_def)
  then show ?thesis
    unfolding w2(1) by (simp add: window_inv_def showsState_refresh wf_window_def frame_simps)
qed

lemma pendingShown_worldModel: "pendingShown w \<Longrightarrow> pendingShown (w\<lparr>worldModel := m\<rparr>)"
  by (simp add: pendingShown_def pending_comm)

lemma window_inv_worldUpdate:
  assumes "window_inv w"
  shows "window_inv (onWorldUpdateReceived ms s f cx cy cells w)"
proof -
  let ?m = "fst (applyUpdate s f cx cy cells (worldModel w))"
  have sig: "snd (applyUpdate s f cx cy cells (worldModel w)) =
      [WorldChanged, StatsChanged (generation ?m) (liveCellsCount ?m)]"
    by (simp add: applyUpdate_def Let_def liveCellsCount_def)
  have "wf_model ?m" using assms by (simp add: window_inv_def wf_window_def wf_applyUpdate)
  then have "wf_window (w\<lparr>worldModel := ?m\<rparr>)" using assms by (simp add: window_inv_def wf_window_def)
  moreover have "pendingShown (w\<lparr>worldModel := ?m\<rparr>)"
    using assms by (simp add: window_inv_def showsState_split pendingShown_worldModel)
  ultimately show ?thesis
    using window_inv_stats [of "w\<lparr>worldModel := ?m\<rparr>" ms] sig
    by (simp add: onWorldUpdateReceived_def split_def Let_def)
qed

lemma window_inv_refresh:
  assumes "window_inv w" "distinct (map fst ps)"
  shows "window_inv (refreshStatsPanel (w\<lparr>serverPlayers := ps\<rparr>))"
proof -
  have "pendingShown (w\<lparr>serverPlayers := ps\<rparr>)"
    using assms(1) by (simp add: window_inv_def showsState_split pendingShown_def pending_comm)
  then show ?thesis
    using assms by (simp add: window_inv_def showsState_refresh showsState_split [of w] wf_window_def frame_simps)
qed

lemma window_inv_signal:
  assumes "window_inv w"
  shows "window_inv (onSignal ms e w)"
proof (cases e)
  case (ConnectionStateChanged msg connected)
  have "window_inv (w\<lparr>statusLabel := ConnectionStatus msg\<rparr>)" using assms by (rule window_inv_status)
  then show ?thesis
    using window_inv_refresh [of "w\<lparr>statusLabel := ConnectionStatus msg\<rparr>" "[]"]
    by (simp add: ConnectionStateChanged onConnectionStateChanged_def Let_def)
next
  case (ServerStatsUpdated gen players)
  have "distinct (map fst (fold (\<lambda>st. AList.update (statPlayerId st) st) players []))"
    by (induction players rule: rev_induct) (auto simp: distinct_update)
  with ServerStatsUpdated window_inv_refresh [OF assms this] show ?thesis
    by (simp add: onServerStatsUpdated_def)
qed (use assms window_inv_worldUpdate in auto)

lemma accepted_params:
  assumes "spinsInRange d" "snd (acceptDialog toULongLong trimmed random d) = Some params"
  shows "wf_params params"
proof -
  have "word_of_int n \<noteq> (0 :: u16)" if "1 \<le> n" "n \<le> 65535" for n
  proof
    assume "word_of_int n = (0 :: u16)"
    then have "uint (word_of_int n :: u16) = 0" by simp
    then have "n mod 2 ^ 16 = 0" by (simp add: uint_word_of_int)
    with that show False by (simp add: mod_pos_pos_trivial)
  qed
  with assms show ?thesis
    by (auto simp: acceptDialog_def wf_params_def spinsInRange_def split: option.splits if_splits)
qed

lemma window_inv_dialog:
  assumes "window_inv w" "wf_params params"
  shows "window_inv (fst (openConnectionDialog ms (Some params) w))"
proof -
  let ?w1 = "refreshStatsPanel (w\<lparr>lastParams := params\<rparr>)"
  let ?m = "fst (reset (worldModel ?w1))"
  let ?w2 = "onStatsChanged ms (generation ?m) (liveCellsCount ?m) (?w1\<lparr>worldModel := ?m\<rparr>)"
  have "pendingShown (w\<lparr>lastParams := params\<rparr>)"
    using assms(1) by (simp add: window_inv_def showsState_split pendingShown_def pending_comm)
  then have p: "pendingShown (?w1\<lparr>worldModel := ?m\<rparr>)"
    by (intro pendingShown_worldModel pendingShown_refreshStatsPanel)
  have "wf_model ?m" by (simp add: reset_def wf_model_def Let_def)
  then have "wf_window (?w1\<lparr>worldModel := ?m\<rparr>)"
    using assms by (simp add: window_inv_def wf_window_def frame_simps)
  with window_inv_stats [OF p this, of ms] have "window_inv ?w2" by simp
  then have "window_inv (?w2\<lparr>tickLabelShown := False, tickTimerValid := False\<rparr>)"
    by (simp add: window_inv_def showsState_def wf_window_def refresh_comm pending_comm)
  moreover have "fst (openConnectionDialog ms (Some params) w) = ?w2\<lparr>tickLabelShown := False, tickTimerValid := False\<rparr>"
    by (simp add: openConnectionDialog_def reset_def Let_def liveCellsCount_def)
  ultimately show ?thesis by simp
qed

lemma window_inv_user: "window_inv w \<Longrightarrow> user_step w (w', calls) \<Longrightarrow> window_inv w'"
proof (erule user_stepE, goal_cases)
  case 1
  then show ?case using window_inv_click by (metis fst_conv)
next
  case 2
  then show ?case by (simp add: window_inv_def showsState_def wf_window_def refresh_comm pending_comm)
next
  case 3
  then show ?case by (simp add: window_inv_def showsState_def wf_window_def refresh_comm pending_comm)
next
  case 4
  then show ?case using window_inv_apply by (metis fst_conv)
next
  case 5
  then show ?case using window_inv_clear by simp
next
  case (6 cx cy)
  then have "window_inv (updateNavigationPanel cx cy w)"
    by (simp add: window_inv_def showsState_def wf_window_def refresh_comm pending_comm)
      (simp add: updateNavigationPanel_def)
  with 6 show ?case by simp
next
  case 7
  then show ?case by (simp add: openConnectionDialog_def)
next
  case 8
  then show ?case using window_inv_dialog accepted_params by (metis fst_conv)
qed auto

lemma window_inv_step: "window_inv w \<Longrightarrow> window_step w w' \<Longrightarrow> window_inv w'"
  by (auto elim!: window_step.cases intro: window_inv_user window_inv_signal)

lemma window_inv_new: "window_inv (newWindow cx cy)"
proof -
  have "wf_params defaultParams" by (simp add: wf_params_def defaultParams_def)
  moreover have "wf_model newWorldModel" by (rule wf_newWorldModel)
  ultimately show ?thesis
    by (simp add: window_inv_def newWindow_def showsState_def wf_window_def refresh_comm pending_comm refresh_swap)
      (simp add: updateNavigationPanel_def frame_simps newWorldModel_def liveCellsCount_def)
qed

lemma window_reachable_window_inv: "window_reachable w \<Longrightarrow> window_inv w"
  by (induction rule: window_reachable.induct) (use window_inv_new window_inv_step in blast)+

text \<open>
  C23. The window never shows an outdated state: in every state its slots reach, refreshing the
  statistics panel or the pending list changes nothing, the view's overlay is the pending
  edits', and the generation and live cell labels are the model's. The tables have unique
  keys, and the player's identifier, the host and the ports are never zero or empty.
\<close>

theorem window_shows_state:
  assumes "window_reachable w"
  shows "refreshStatsPanel w = w \<and> refreshPendingList w = w \<and>
    gridOverlay w = map (\<lambda>(k, a). (k, actionCode a)) (pendingEdits w) \<and>
    generationLabel w = generation (worldModel w) \<and> liveCellsLabel w = liveCellsCount (worldModel w) \<and>
    wf_window w"
  using window_reachable_window_inv [OF assms] by (simp add: window_inv_def showsState_def)

definition clickedWindow :: GameWindow where
  "clickedWindow = fst (onGridCellClicked 3 4 ((newWindow 0 0)\<lparr>modeCombo := Queued\<rparr>))"

lemma clickedWindow_reachable: "window_reachable clickedWindow"
proof -
  let ?w = "(newWindow 0 0)\<lparr>modeCombo := Queued\<rparr>"
  have "user_step ?w (clickedWindow, snd (onGridCellClicked 3 4 ?w))"
    using user_step.click [of ?w 3 4] by (simp add: clickedWindow_def)
  then have "window_step ?w clickedWindow" by (rule window_step.user)
  moreover have "window_step (newWindow 0 0) ?w" by (rule window_step.user [OF user_step.mode])
  ultimately show ?thesis using window_reachable.init [of 0 0] window_reachable.step by blast
qed

theorem window_shows_state_witness:
  "pendingEdits clickedWindow = [(CellKey 3 4, Toggle)] \<and> gridOverlay clickedWindow = [(CellKey 3 4, 0)]"
proof -
  have n: "worldModel (newWindow 0 0) = newWorldModel" "pendingEdits (newWindow 0 0) = []"
    "serverPlayers (newWindow 0 0) = []"
    by (simp_all add: newWindow_def updateNavigationPanel_def frame_simps)
  have "actionCombo (newWindow 0 0) = Toggle"
    by (simp add: newWindow_def updateNavigationPanel_def refreshStatsPanel_def refreshPendingList_def Let_def)
  then have "pendingEdits clickedWindow = [(CellKey 3 4, Toggle)]"
    by (simp add: clickedWindow_def onGridCellClicked_def n frame_simps newWorldModel_def ownerAt_def Let_def)
  then show ?thesis using window_shows_state [OF clickedWindow_reachable] by simp
qed

subsection \<open>Two threads and two queues\<close>

fun isSignal :: "ClientEffect \<Rightarrow> bool" where
  "isSignal (ConnectionStateChanged _ _) = True"
| "isSignal (ServerStatsUpdated _ _) = True"
| "isSignal (WorldUpdateReceived _ _ _ _ _) = True"
| "isSignal _ = False"

record ClientApp =
  window :: GameWindow
  posted :: "RuntimeCall list"
  netClient :: GameNetworkClient
  signals :: "ClientEffect list"
  socketCalls :: "ClientEffect list"

definition newApp :: "int \<Rightarrow> int \<Rightarrow> ClientApp" where
  "newApp cx cy = \<lparr>window = newWindow cx cy, posted = [], netClient = newClient, signals = [], socketCalls = []\<rparr>"

text \<open>The network thread runs a slot: signals are queued for the window, the rest goes to the sockets.\<close>

definition netRuns :: "GameNetworkClient \<times> ClientEffect list \<Rightarrow> ClientApp \<Rightarrow> ClientApp" where
  "netRuns r app = app\<lparr>netClient := fst r, signals := signals app @ filter isSignal (snd r),
     socketCalls := socketCalls app @ filter (\<lambda>e. \<not> isSignal e) (snd r)\<rparr>"

text \<open>The slots Qt's sockets and the timer call.\<close>

inductive socket_slot ::
  "(TcpState \<Rightarrow> bool) \<Rightarrow> GameNetworkClient \<Rightarrow> GameNetworkClient \<times> ClientEffect list \<Rightarrow> bool"
  for emits c where
  connected: "socket_slot emits c (onTcpConnected bindOk port (c\<lparr>tcpState := Connected\<rparr>))"
| disconnected: "socket_slot emits c (onTcpDisconnected (c\<lparr>tcpState := Unconnected\<rparr>))"
| failed: "socket_slot emits c (onTcpError err c)"
| tick: "socket_slot emits c (reconnectTick emits c)"
| tcp_data: "socket_slot emits c (onTcpReadyRead bytes c)"
| udp_data: "socket_slot emits c (onUdpReadyRead datagrams c)"

text \<open>
  Runs of the whole client, with the effects of the network thread that matter to the
  picture: everything emitted since the last accepted connection dialog, and what was then
  still queued.
\<close>

inductive app_run :: "(TcpState \<Rightarrow> bool) \<Rightarrow> ClientApp \<Rightarrow> ClientEffect list \<Rightarrow> bool" for emits where
  init: "app_run emits (newApp cx cy) []"
| user: "app_run emits app log \<Longrightarrow> user_step (window app) (w', calls) \<Longrightarrow>
    \<forall>h t u p. CallConnect h t u p \<notin> set calls \<Longrightarrow>
    app_run emits (app\<lparr>window := w', posted := posted app @ calls\<rparr>) log"
| connect: "app_run emits app log \<Longrightarrow> user_step (window app) (w', calls) \<Longrightarrow>
    CallConnect h t u p \<in> set calls \<Longrightarrow>
    app_run emits (app\<lparr>window := w', posted := posted app @ calls\<rparr>) (signals app)"
| deliver: "app_run emits app log \<Longrightarrow> signals app = e # es \<Longrightarrow>
    app_run emits (app\<lparr>window := onSignal ms e (window app), signals := es\<rparr>) log"
| call: "app_run emits app log \<Longrightarrow> posted app = c # cs \<Longrightarrow> r = invokeClient emits after c (netClient app) \<Longrightarrow>
    app_run emits (netRuns r (app\<lparr>posted := cs\<rparr>)) (log @ snd r)"
| slot: "app_run emits app log \<Longrightarrow> socket_slot emits (netClient app) r \<Longrightarrow>
    app_run emits (netRuns r app) (log @ snd r)"

lemma worldModel_onSignal: "worldModel (onSignal ms e w) = onWorldUpdate e (worldModel w)"
  by (cases e) (simp_all add: onConnectionStateChanged_def onServerStatsUpdated_def frame_simps Let_def
      worldModel_onWorldUpdateReceived)

lemma worldModel_openDialog:
  "worldModel (fst (openConnectionDialog ms (Some params) w)) = fst (reset (worldModel w))"
  by (simp add: openConnectionDialog_def reset_def Let_def frame_simps onStatsChanged_def)

text \<open>The model after all queued signals: what the window will show once it has caught up.\<close>

definition upcoming :: "ClientApp \<Rightarrow> WorldModel" where
  "upcoming app = deliver (signals app) (worldModel (window app))"

lemma deliver_steps:
  "deliver [] m = m" "deliver (e # es) m = deliver es (onWorldUpdate e m)"
  "deliver (es @ es') m = deliver es' (deliver es m)"
  by (simp_all add: deliver_def)

lemma deliver_signals: "deliver (filter isSignal effs) m = deliver effs m"
proof (induction effs arbitrary: m)
  case (Cons e effs)
  then show ?case by (cases e) (simp_all add: deliver_steps)
qed simp

lemma upcoming_netRuns: "upcoming (netRuns r app) = deliver (snd r) (upcoming app)"
  by (simp add: upcoming_def netRuns_def deliver_steps deliver_signals)

lemma no_connect_calls: "CallConnect h t u p \<notin> set (snd (sendAction a x y w))"
  by (cases a) (simp_all add: sendAction_calls)

lemma user_step_model:
  assumes "user_step w (w', calls)"
  shows "worldModel w' = (if \<exists>h t u p. CallConnect h t u p \<in> set calls then newWorldModel else worldModel w)"
  using assms
proof (cases rule: user_step.cases)
  case (click x y)
  have "worldModel (fst (onGridCellClicked x y w)) = worldModel w"
    by (simp add: onGridCellClicked_def Let_def frame_simps)
  moreover have "CallConnect h t u p \<notin> set (snd (onGridCellClicked x y w))" for h t u p
    using no_connect_calls by (simp add: onGridCellClicked_def Let_def)
  ultimately show ?thesis using click by (metis fst_conv snd_conv)
next
  case apply_edits
  have "worldModel (fst (fold (\<lambda>(key, a) (w', calls). let (w'', c) = sendAction a (keyX key) (keyY key) w'
      in (w'', calls @ c)) es (w', cs))) = worldModel w'" for es w' cs
    by (induction es arbitrary: w' cs) (auto simp: split_def Let_def frame_simps)
  then have "worldModel (fst (applyPendingEdits w)) = worldModel w"
    by (simp add: applyPendingEdits_def clearPendingEdits_def frame_simps split_def Let_def)
  moreover have "CallConnect h t u p \<noteq> editCall a x y" for h t u p a x y by (cases a) simp_all
  then have "CallConnect h t u p \<notin> set (snd (applyPendingEdits w))" for h t u p
    by (auto simp: applyPendingEdits_calls split: if_splits)
  ultimately show ?thesis using apply_edits by (metis fst_conv snd_conv)
next
  case (accept d toULongLong trimmed random params ms)
  have "CallConnect (paramHost params) (paramTcpPort params) (paramUdpPort params) (paramPlayerId params) \<in>
      set (snd (openConnectionDialog ms (Some params) w))"
    by (simp add: openConnectionDialog_def case_prod_beta Let_def)
  moreover have "fst (reset m) = newWorldModel" for m
    by (cases m) (simp add: reset_def newWorldModel_def Let_def)
  ultimately show ?thesis using accept worldModel_openDialog by (metis fst_conv snd_conv)
qed (simp_all add: clearPendingEdits_def frame_simps updateNavigationPanel_def openConnectionDialog_def)

text \<open>
  C10. The window catches up: however its thread and the network thread interleave, once the
  queued signals are handled the picture is what the updates since the last connect make of
  the empty model, each applied once and in the order they arrived. Among them are the
  updates of the old connection that were still queued when the dialog was accepted.
\<close>

theorem window_catches_up:
  assumes "app_run emits app log"
  shows "upcoming app = deliver log newWorldModel \<and>
    (signals app = [] \<longrightarrow> worldModel (window app) = deliver log newWorldModel)"
proof -
  have "upcoming app = deliver log newWorldModel"
    using assms
  proof (induction rule: app_run.induct)
    case (init cx cy)
    then show ?case
      by (simp add: upcoming_def newApp_def deliver_steps newWindow_def updateNavigationPanel_def frame_simps)
  next
    case (user app log w' calls)
    then show ?case using user_step_model [OF user.hyps(2)] by (simp add: upcoming_def)
  next
    case (connect app log w' calls h t u p)
    then show ?case using user_step_model [OF connect.hyps(2)] by (auto simp: upcoming_def)
  next
    case (deliver app log e es ms)
    then show ?case by (simp add: upcoming_def worldModel_onSignal deliver_steps)
  next
    case (call app log c cs r "after")
    then show ?case by (simp add: upcoming_netRuns deliver_steps) (simp add: upcoming_def)
  next
    case (slot app log r)
    then show ?case by (simp add: upcoming_netRuns deliver_steps)
  qed
  then show ?thesis by (metis upcoming_def deliver_steps(1))
qed

definition samplePacket :: "byte list" where
  "samplePacket = encodePacket 3 kFlagDelta (coord 0 0) [\<lparr>entryX = 1, entryY = 2, entryAlive = 1, entryOwner = 7\<rparr>]"

lemma samplePacket_read:
  "applyDatagram samplePacket newClient = (newClient\<lparr>lastSeqNum := Some 3\<rparr>,
     [WorldUpdateReceived 3 False 0 0 [\<lparr>cellX = 1, cellY = 2, cellOwnerId = 7\<rparr>]])"
  using parse_encodePacket [of "[\<lparr>entryX = 1, entryY = 2, entryAlive = 1, entryOwner = 7\<rparr>]" 3 kFlagDelta "coord 0 0" "[]"]
  by (simp add: samplePacket_def applyDatagram_def newClient_def kFlagDelta_def kFlagFull_def toUpdate_def
      entryUpdate_def Let_def)

lemma sample_run:
  "app_run emits (netRuns (onUdpReadyRead [samplePacket] newClient) (newApp 0 0))
     [WorldUpdateReceived 3 False 0 0 [\<lparr>cellX = 1, cellY = 2, cellOwnerId = 7\<rparr>]]"
  using app_run.slot [OF app_run.init, of emits 0 0 "onUdpReadyRead [samplePacket] newClient"]
    socket_slot.udp_data [of emits newClient "[samplePacket]"]
  by (simp add: newApp_def samplePacket_read)

theorem window_catches_up_witness:
  "\<exists>app. app_run (\<lambda>_. True) app [WorldUpdateReceived 3 False 0 0 [\<lparr>cellX = 1, cellY = 2, cellOwnerId = 7\<rparr>]] \<and>
     ownerAt (upcoming app) 1 2 = 7"
proof -
  let ?app = "netRuns (onUdpReadyRead [samplePacket] newClient) (newApp 0 0)"
  have "upcoming ?app = deliver [WorldUpdateReceived 3 False 0 0 [\<lparr>cellX = 1, cellY = 2, cellOwnerId = 7\<rparr>]] newWorldModel"
    using window_catches_up [OF sample_run [of "\<lambda>_. True"]] by blast
  then have "ownerAt (upcoming ?app) 1 2 = 7"
    by (simp add: deliver_steps applyUpdate_def putCell_def newWorldModel_def ownerAt_def Let_def)
  then show ?thesis using sample_run by blast
qed

text \<open>
  Cells of the old server reach the new picture: an update that was emitted before the
  connection dialog was accepted, but not yet handled, is applied after the model has been
  reset, so its live cell is shown although the new server never sent it.
\<close>

theorem old_cells_after_connect:
  assumes "user_step (window app) (w', calls)" "CallConnect h t u p \<in> set calls"
    and "signals app = [WorldUpdateReceived s full cx cy [\<lparr>cellX = x, cellY = y, cellOwnerId = q\<rparr>]]" "q \<noteq> 0"
  shows "worldModel w' = newWorldModel \<and>
    ownerAt (upcoming (app\<lparr>window := w', posted := posted app @ calls\<rparr>))
      (scast cx * 64 + x) (scast cy * 64 + y) = q"
proof -
  have "worldModel w' = newWorldModel" using user_step_model [OF assms(1)] assms(2) by auto
  then show ?thesis
    using assms(3,4)
    by (simp add: upcoming_def deliver_steps applyUpdate_def putCell_def newWorldModel_def ownerAt_def
        kChunkWidth_def kChunkHeight_def Let_def)
qed

theorem old_cells_after_connect_witness:
  "\<exists>w'. worldModel w' = newWorldModel \<and>
     ownerAt (upcoming ((netRuns (onUdpReadyRead [samplePacket] newClient) (newApp 0 0))
       \<lparr>window := w', posted := [CallConnect ''h'' 1 1 5]\<rparr>)) 1 2 = 7"
proof -
  let ?app = "netRuns (onUdpReadyRead [samplePacket] newClient) (newApp 0 0)"
  let ?d = "\<lparr>hostEdit = ''h'', tcpPortSpin = 1, udpPortSpin = 1, playerIdEdit = ''5''\<rparr>"
  let ?ps = "\<lparr>paramHost = ''h'', paramTcpPort = 1, paramUdpPort = 1, paramPlayerId = 5\<rparr>"
  have "snd (acceptDialog (\<lambda>_. Some 5) id [] ?d) = Some ?ps" "spinsInRange ?d"
    by (simp_all add: acceptDialog_def spinsInRange_def)
  from user_step.accept [OF this(2,1), of "window ?app" True]
  obtain w' where w': "user_step (window ?app) (w', [CallConnect ''h'' 1 1 5])"
    by (simp add: openConnectionDialog_def case_prod_beta Let_def)
  show ?thesis
    using old_cells_after_connect [OF w', of "''h''" 1 1 5 3 False 0 0 1 2 7]
    by (intro exI [of _ w']) (simp add: netRuns_def newApp_def samplePacket_read)
qed

end
