(* ===== verification/Whole_System.thy ===== *)
theory Whole_System
  imports Client_App Snapshot Game_Runs
begin

section \<open>Server, network and client together\<close>

text \<open>
  The server and one client as a single system: the server's operations (\<open>serverStep\<close>), the
  datagrams on their way, and the client's two threads (\<open>Client_App\<close>). The network is one that
  loses and reorders nothing but delays as it likes; the server's operations, the
  arrival of datagrams, the network thread and the window's thread interleave in any way. The
  client starts with the server, or later with a snapshot. What loss does is in
  \<open>Resync_Repair\<close> and \<open>Snapshot\<close>.
\<close>

record System =
  server :: GameServer
  link :: "byte list list"
  app :: ClientApp

subsection \<open>The client's moves that are not updates\<close>

definition noUpdate :: "ClientEffect list \<Rightarrow> bool" where
  "noUpdate effs \<longleftrightarrow> (\<forall>e \<in> set effs. case e of WorldUpdateReceived _ _ _ _ _ \<Rightarrow> False | _ \<Rightarrow> True)"

lemma noUpdate_simps [simp]:
  "noUpdate []" "noUpdate (es @ es') \<longleftrightarrow> noUpdate es \<and> noUpdate es'"
  "noUpdate (e # es) \<longleftrightarrow> (case e of WorldUpdateReceived _ _ _ _ _ \<Rightarrow> False | _ \<Rightarrow> True) \<and> noUpdate es"
  by (auto simp: noUpdate_def)

lemma deliver_noUpdate: "noUpdate effs \<Longrightarrow> deliver effs m = m"
proof (induction effs)
  case (Cons e effs)
  then show ?case by (cases e) simp_all
qed simp

lemma noUpdate_abortTcp: "noUpdate (snd (abortTcp emits c))"
  by (simp add: abortTcp_def onTcpDisconnected_def Let_def case_prod_beta)

lemma noUpdate_connectToHost: "noUpdate (snd (connectToHost c))"
  by (simp add: connectToHost_def)

lemma noUpdate_invokeClient: "noUpdate (snd (invokeClient emits after call c))"
  by (cases call) (simp_all add: connectToServer_def disconnectFromServer_def sendPlaceCell_def
      sendRemoveCell_def sendToggleCell_def sendCommand_def sendResync_def Let_def case_prod_beta
      noUpdate_abortTcp noUpdate_connectToHost)

text \<open>
  The user does anything but accept a connection dialog, a posted call runs, a signal is
  handled, or a slot of the socket or the timer runs that is not the reader of updates.
\<close>

inductive client_move :: "(TcpState \<Rightarrow> bool) \<Rightarrow> ClientApp \<Rightarrow> ClientApp \<Rightarrow> bool" for emits where
  user: "user_step (window a) (w', calls) \<Longrightarrow> \<forall>h t u p. CallConnect h t u p \<notin> set calls \<Longrightarrow>
    client_move emits a (a\<lparr>window := w', posted := posted a @ calls\<rparr>)"
| deliver: "signals a = e # es \<Longrightarrow>
    client_move emits a (a\<lparr>window := onSignal ms e (window a), signals := es\<rparr>)"
| call: "posted a = c # cs \<Longrightarrow>
    client_move emits a (netRuns (invokeClient emits after c (netClient a)) (a\<lparr>posted := cs\<rparr>))"
| slot: "socket_slot emits (netClient a) r \<Longrightarrow> noUpdate (snd r) \<Longrightarrow> client_move emits a (netRuns r a)"

lemma upcoming_client_move: "client_move emits a a' \<Longrightarrow> upcoming a' = upcoming a"
proof (induction rule: client_move.induct)
  case (user a w' calls)
  then show ?case using user_step_model [OF user(1)] by (simp add: upcoming_def)
next
  case (deliver a e es ms)
  then show ?case by (simp add: upcoming_def worldModel_onSignal)
next
  case (call a c cs "after")
  then show ?case
    by (simp add: upcoming_netRuns deliver_noUpdate noUpdate_invokeClient) (simp add: upcoming_def)
next
  case (slot a r)
  then show ?case by (simp add: upcoming_netRuns deliver_noUpdate)
qed

subsection \<open>The system's steps\<close>

inductive system_step :: "(TcpState \<Rightarrow> bool) \<Rightarrow> System \<Rightarrow> System \<Rightarrow> bool" for emits where
  join: "system_step emits sys (sys\<lparr>server := serverStep (Join p) (server sys)\<rparr>)"
| commands: "system_step emits sys (sys\<lparr>server := serverStep (Send cmds) (server sys)\<rparr>)"
| tick: "sendPayloadTo (tickUpdate (server sys)) = Some ds \<Longrightarrow>
    system_step emits sys (sys\<lparr>server := serverStep Tick (server sys), link := link sys @ ds\<rparr>)"
| arrive: "link sys = ds @ rest \<Longrightarrow>
    system_step emits sys (sys\<lparr>link := rest, app := netRuns (onUdpReadyRead ds (netClient (app sys))) (app sys)\<rparr>)"
| client: "client_move emits (app sys) a \<Longrightarrow> system_step emits sys (sys\<lparr>app := a\<rparr>)"

text \<open>
  A system starts with the server, with nothing shown and nothing sent; or with a server that
  has been running when the client's model has just been reset and the snapshot of the last
  tick is on its way, every chunk of which fits one packet.
\<close>

inductive system_reachable :: "(TcpState \<Rightarrow> bool) \<Rightarrow> System \<Rightarrow> bool" for emits where
  fresh: "system_reachable emits \<lparr>server = newGameServer BoostNetwork, link = [], app = newApp cx cy\<rparr>"
| joined: "server_reachable s \<Longrightarrow> networkManager s \<noteq> NoNetwork \<Longrightarrow>
    \<forall>(c, ch) \<in> set (chunks (world (fst (onTick s)))). length (fullEntries ch) \<le> kMaxCellsPerPacket \<Longrightarrow>
    sendPayloadTo (getFullSnapshotForSeq q (fst (onTick s))) = Some ds \<Longrightarrow>
    app_run emits a effs \<Longrightarrow> upcoming a = newWorldModel \<Longrightarrow>
    system_reachable emits \<lparr>server = fst (onTick s), link = ds, app = a\<rparr>"
| step: "system_reachable emits sys \<Longrightarrow> system_step emits sys sys' \<Longrightarrow> system_reachable emits sys'"

subsection \<open>The picture the client is heading for\<close>

text \<open>What the datagrams make of a picture does not depend on the rest of the client's state.\<close>

definition arriving :: "byte list list \<Rightarrow> WorldModel \<Rightarrow> WorldModel" where
  "arriving ds m = deliver (snd (onUdpReadyRead ds newClient)) m"

lemma deliver_datagram: "deliver (snd (applyDatagram d c)) m = deliver (snd (applyDatagram d c')) m"
proof -
  have "deliver (sendResync c) m = m" for c by (simp add: sendResync_def)
  then show ?thesis by (auto simp: applyDatagram_def Let_def split: option.splits)
qed

lemma deliver_datagrams: "deliver (snd (onUdpReadyRead ds c)) m = arriving ds m"
  unfolding arriving_def
proof (induction ds arbitrary: c m)
  case (Cons d ds)
  have "deliver (snd (onUdpReadyRead (d # ds) c)) m =
      deliver (snd (onUdpReadyRead ds newClient)) (deliver (snd (applyDatagram d newClient)) m)" for c
    using Cons.IH deliver_datagram [of d c m newClient] by (simp add: Let_def case_prod_beta)
  then show ?case by metis
qed simp

lemma arriving_append: "arriving (ds @ ds') m = arriving ds' (arriving ds m)"
proof -
  have "snd (onUdpReadyRead (ds @ ds') c) =
      snd (onUdpReadyRead ds c) @ snd (onUdpReadyRead ds' (fst (onUdpReadyRead ds c)))" for c
    by (induction ds arbitrary: c) (simp_all add: Let_def case_prod_beta)
  then show ?thesis by (simp add: arriving_def [of "ds @ ds'"] deliver_datagrams)
qed

definition heading :: "System \<Rightarrow> WorldModel" where
  "heading sys = arriving (link sys) (upcoming (app sys))"

lemma heading_step:
  assumes "system_step emits sys sys'" "sessionInv (server sys) (heading sys)"
  shows "sessionInv (server sys') (heading sys')"
  using assms
proof (induction rule: system_step.induct)
  case (join sys p)
  then show ?case using sessionInv_inputs [of "server sys" "heading sys" "[]" "[p]"]
    by (simp add: heading_def onCommandsFromNetwork_def)
next
  case (commands sys cmds)
  then show ?case using sessionInv_inputs [of "server sys" "heading sys" cmds "[]"]
    by (simp add: heading_def)
next
  case (tick sys ds)
  then show ?case using sessionInv_tick [of "server sys" "heading sys" newClient]
    by (simp add: heading_def arriving_append deliver_datagrams)
next
  case (arrive sys ds rest)
  then show ?case by (simp add: heading_def upcoming_netRuns deliver_datagrams arriving_append)
next
  case (client sys a)
  then show ?case by (simp add: heading_def upcoming_client_move)
qed

lemma system_inv: "system_reachable emits sys \<Longrightarrow> sessionInv (server sys) (heading sys)"
proof (induction rule: system_reachable.induct)
  case (fresh cx cy)
  have "upcoming (newApp cx cy) = newWorldModel"
    by (simp add: upcoming_def newApp_def newWindow_def updateNavigationPanel_def frame_simps)
  then show ?case using sessionInv_start by (simp add: heading_def arriving_def)
next
  case (joined s q ds a effs)
  let ?s = "fst (onTick s)" and ?m = "newWorldModel"
  have inv: "server_inv ?s" by (intro server_inv_tick server_reachable_server_inv joined.hyps(1))
  then have wf: "wf_world (world ?s)" by (simp add: server_inv_def wf_server_def)
  have "fst (reset newWorldModel) = newWorldModel" by (simp add: reset_def newWorldModel_def Let_def)
  then obtain m' where m': "afterSnapshot q (world ?s) newClient ?m = Some m'" "mirrors m' (world ?s)"
    using afterSnapshot_mirrors [OF wf joined.hyps(3), of q newClient newWorldModel] by auto
  have "sendPayloadTo (serializeFull q (chunks (world ?s))) = Some ds"
    using joined.hyps(4) by (simp add: getFullSnapshotForSeq_onTick)
  with m'(1) have "m' = arriving ds ?m" by (simp add: afterSnapshot_def deliver_datagrams)
  with m'(2) joined.hyps(2,6) inv show ?case
    by (simp add: heading_def sessionInv_def server_inv_def onTick_state)
next
  case (step sys sys')
  then show ?case by (blast intro: heading_step)
qed

text \<open>Arrivals and the handling of signals alone settle the system, whatever its state.\<close>

lemma signals_handled:
  "\<exists>a'. (client_move emits)\<^sup>*\<^sup>* a a' \<and> signals a' = [] \<and> worldModel (window a') = upcoming a"
proof (induction "signals a" arbitrary: a)
  case Nil
  then show ?case by (auto simp: upcoming_def)
next
  case (Cons e es)
  let ?a = "a\<lparr>window := onSignal False e (window a), signals := es\<rparr>"
  have move: "client_move emits a ?a" using Cons.hyps(2) by (intro client_move.deliver) simp
  have "es = signals ?a" by simp
  from Cons.hyps(1) [OF this] obtain a' where "(client_move emits)\<^sup>*\<^sup>* ?a a'" "signals a' = []"
    "worldModel (window a') = upcoming ?a" by blast
  with move upcoming_client_move [OF move] show ?case by (metis converse_rtranclp_into_rtranclp)
qed

lemma client_run:
  "(client_move emits)\<^sup>*\<^sup>* a a' \<Longrightarrow> app sys = a \<Longrightarrow> (system_step emits)\<^sup>*\<^sup>* sys (sys\<lparr>app := a'\<rparr>)"
proof (induction rule: rtranclp_induct)
  case base
  then show ?case by (cases sys) auto
next
  case (step b c)
  have "system_step emits (sys\<lparr>app := b\<rparr>) ((sys\<lparr>app := b\<rparr>)\<lparr>app := c\<rparr>)"
    using step.hyps(2) by (intro system_step.client) simp
  with step show ?case by (simp add: rtranclp.rtrancl_into_rtrancl)
qed

lemma settles:
  "\<exists>sys'. (system_step emits)\<^sup>*\<^sup>* sys sys' \<and> server sys' = server sys \<and> link sys' = [] \<and>
     signals (app sys') = []"
proof -
  let ?sys = "sys\<lparr>link := [], app := netRuns (onUdpReadyRead (link sys) (netClient (app sys))) (app sys)\<rparr>"
  have first: "system_step emits sys ?sys" by (rule system_step.arrive) simp
  obtain a' where a': "(client_move emits)\<^sup>*\<^sup>* (app ?sys) a'" "signals a' = []"
    using signals_handled [of emits "app ?sys"] by blast
  with first client_run [OF a'(1) refl] have "(system_step emits)\<^sup>*\<^sup>* sys (?sys\<lparr>app := a'\<rparr>)"
    by (meson converse_rtranclp_into_rtranclp)
  with a'(2) show ?thesis by (intro exI [of _ "?sys\<lparr>app := a'\<rparr>"]) simp
qed

lemma reachable_run:
  "(system_step emits)\<^sup>*\<^sup>* sys sys' \<Longrightarrow> system_reachable emits sys \<Longrightarrow> system_reachable emits sys'"
  by (induction rule: rtranclp_induct) (auto intro: system_reachable.step)

lemma settled_mirrors:
  assumes "system_reachable emits sys" "link sys = []" "signals (app sys) = []"
  shows "mirrors (worldModel (window (app sys))) (world (server sys))"
  using system_inv [OF assms(1)] assms(2,3)
  by (simp add: sessionInv_def heading_def arriving_def upcoming_def)



end
