(* ===== verification/Lossy_Network.thy ===== *)
theory Lossy_Network
  imports Whole_System Resync_Repair
begin

section \<open>A network that loses, repeats and reorders\<close>

text \<open>
  The system of \<open>Whole_System\<close> with UDP as it is: whatever the server has ever sent, deltas of its
  ticks and snapshots, may arrive at the client, in any order, any number of times, or
  never. The client may also accept its connection dialog at any time. The worlds after the ticks
  are recorded to state what the picture can be.
\<close>

record LossySystem =
  lserver :: GameServer
  worlds :: "World list" \<comment> \<open>the empty world and the world after each tick\<close>
  sent :: "byte list list"
  lapp :: ClientApp

inductive lossy_step :: "(TcpState \<Rightarrow> bool) \<Rightarrow> LossySystem \<Rightarrow> LossySystem \<Rightarrow> bool" for emits where
  join: "lossy_step emits sys (sys\<lparr>lserver := serverStep (Join p) (lserver sys)\<rparr>)"
| commands: "lossy_step emits sys (sys\<lparr>lserver := serverStep (Send cmds) (lserver sys)\<rparr>)"
| tick: "sendPayloadTo (tickUpdate (lserver sys)) = Some ds \<Longrightarrow>
    lossy_step emits sys (sys\<lparr>lserver := serverStep Tick (lserver sys),
      worlds := worlds sys @ [world (serverStep Tick (lserver sys))], sent := sent sys @ ds\<rparr>)"
| snapshot: "sendPayloadTo (getFullSnapshotForSeq q (lserver sys)) = Some ds \<Longrightarrow>
    lossy_step emits sys (sys\<lparr>sent := sent sys @ ds\<rparr>)"
| arrive: "set ds \<subseteq> set (sent sys) \<Longrightarrow>
    lossy_step emits sys (sys\<lparr>lapp := netRuns (onUdpReadyRead ds (netClient (lapp sys))) (lapp sys)\<rparr>)"
| connect: "user_step (window (lapp sys)) (w', calls) \<Longrightarrow> CallConnect h t u p \<in> set calls \<Longrightarrow>
    lossy_step emits sys (sys\<lparr>lapp := (lapp sys)\<lparr>window := w', posted := posted (lapp sys) @ calls\<rparr>\<rparr>)"
| client: "client_move emits (lapp sys) a \<Longrightarrow> lossy_step emits sys (sys\<lparr>lapp := a\<rparr>)"

inductive lossy_reachable :: "(TcpState \<Rightarrow> bool) \<Rightarrow> LossySystem \<Rightarrow> bool" for emits where
  start: "lossy_reachable emits \<lparr>lserver = newGameServer BoostNetwork, worlds = [newWorld], sent = [],
    lapp = newApp cx cy\<rparr>"
| started: "lossy_reachable emits \<lparr>lserver = fst (startServer tp up (newGameServer BoostNetwork)),
    worlds = [newWorld], sent = [], lapp = newApp cx cy\<rparr>"
| step: "lossy_reachable emits sys \<Longrightarrow> lossy_step emits sys sys' \<Longrightarrow> lossy_reachable emits sys'"

subsection \<open>Updates that tell what once was\<close>

text \<open>Every live cell of an update had that owner in one of the worlds.\<close>

fun once :: "World list \<Rightarrow> ClientEffect \<Rightarrow> bool" where
  "once ws (WorldUpdateReceived q full cx cy cells) =
     (\<forall>u \<in> set cells. cellOwnerId u \<noteq> 0 \<longrightarrow> (\<exists>w \<in> set ws.
        shownAt w (CellKey ((scast cx :: u64) * word_of_int kChunkWidth + cellX u)
          ((scast cy :: u64) * word_of_int kChunkHeight + cellY u)) = cellOwnerId u))"
| "once ws _ = True"

definition onceShown :: "World list \<Rightarrow> WorldModel \<Rightarrow> bool" where
  "onceShown ws m \<longleftrightarrow> (\<forall>key. ownerIn (aliveCells m) key \<noteq> 0 \<longrightarrow>
     (\<exists>w \<in> set ws. shownAt w key = ownerIn (aliveCells m) key))"

definition onceSent :: "World list \<Rightarrow> byte list \<Rightarrow> bool" where
  "onceSent ws d \<longleftrightarrow> (\<exists>q f c es. d = encodePacket q f c es \<and> length es \<le> 125 \<and>
     (\<exists>w \<in> set ws. \<forall>e \<in> set es. tells w c e))"

lemma once_mono: "once ws e \<Longrightarrow> set ws \<subseteq> set ws' \<Longrightarrow> once ws' e"
  by (cases e) (simp_all, blast)

lemma onceShown_mono: "onceShown ws m \<Longrightarrow> set ws \<subseteq> set ws' \<Longrightarrow> onceShown ws' m"
  unfolding onceShown_def by blast

lemma onceSent_mono: "onceSent ws d \<Longrightarrow> set ws \<subseteq> set ws' \<Longrightarrow> onceSent ws' d"
  unfolding onceSent_def by blast

lemma putCells_source:
  "ownerIn (fold (putCell bx by') us cells) key \<noteq> 0 \<Longrightarrow>
     ownerIn (fold (putCell bx by') us cells) key = ownerIn cells key \<or>
     (\<exists>u \<in> set us. key = CellKey (bx + cellX u) (by' + cellY u) \<and>
        cellOwnerId u = ownerIn (fold (putCell bx by') us cells) key)"
  by (induction us rule: rev_induct) (auto simp: ownerIn_putCell split: if_splits)

lemma onceShown_signal:
  assumes "once ws e" "onceShown ws m"
  shows "onceShown ws (onWorldUpdate e m)"
proof (cases e)
  case (WorldUpdateReceived q full cx cy cells)
  let ?bx = "(scast cx :: u64) * word_of_int kChunkWidth" and ?by = "(scast cy :: u64) * word_of_int kChunkHeight"
  let ?kept = "if full then filter (\<lambda>e. \<not> inChunk cx cy (fst e)) (aliveCells m) else aliveCells m"
  have cells: "aliveCells (onWorldUpdate e m) = fold (putCell ?bx ?by) cells ?kept"
    by (simp add: WorldUpdateReceived applyUpdate_def Let_def)
  have kept: "ownerIn ?kept key = ownerIn (aliveCells m) key \<or> ownerIn ?kept key = 0" for key
    using ownerIn_filter [of "\<lambda>k. \<not> inChunk cx cy k" "aliveCells m" key] by simp
  show ?thesis
    unfolding onceShown_def
  proof (intro allI impI)
    fix key assume nz: "ownerIn (aliveCells (onWorldUpdate e m)) key \<noteq> 0"
    from putCells_source [OF nz [unfolded cells]]
    show "\<exists>w \<in> set ws. shownAt w key = ownerIn (aliveCells (onWorldUpdate e m)) key"
    proof (elim disjE bexE conjE)
      assume old: "ownerIn (fold (putCell ?bx ?by) cells ?kept) key = ownerIn ?kept key"
      with nz kept [of key] assms(2) show ?thesis unfolding cells onceShown_def by metis
    next
      fix u assume u: "u \<in> set cells" "key = CellKey (?bx + cellX u) (?by + cellY u)"
        "cellOwnerId u = ownerIn (fold (putCell ?bx ?by) cells ?kept) key"
      then have o': "cellOwnerId u = ownerIn (aliveCells (onWorldUpdate e m)) key" by (simp only: cells)
      with nz have "cellOwnerId u \<noteq> 0" by simp
      with u(1) assms(1) [unfolded WorldUpdateReceived once.simps]
      have "\<exists>w \<in> set ws. shownAt w (CellKey (?bx + cellX u) (?by + cellY u)) = cellOwnerId u" by blast
      then show ?thesis by (simp only: u(2) [symmetric] o')
    qed
  qed
qed (use assms(2) in simp_all)

lemma once_datagram:
  assumes "onceSent ws d"
  shows "\<forall>e \<in> set (snd (applyDatagram d c)). once ws e"
proof -
  obtain q f k es w where d: "d = encodePacket q f k es" "length es \<le> 125" and w: "w \<in> set ws"
    and tells: "\<forall>e \<in> set es. tells w k e"
    using assms unfolding onceSent_def by blast
  have "once ws (WorldUpdateReceived q full (coordX k) (coordY k) (map (toUpdate \<circ> entryUpdate) es))" for full
  proof -
    have "shownAt w (entryKey k e) = cellOwnerId (toUpdate (entryUpdate e))" if "e \<in> set es" for e
      using tells that by (auto simp: tells_def toUpdate_def entryUpdate_def)
    with w show ?thesis by (auto simp: toUpdate_key)
  qed
  moreover have "\<forall>e \<in> set (sendResync c). once ws e" by (simp add: sendResync_def)
  ultimately show ?thesis
    using parse_encodePacket [OF d(2), of q f k "[]"]
    by (auto simp: d(1) applyDatagram_def Let_def split: option.splits if_splits)
qed

lemma once_datagrams:
  "\<forall>d \<in> set ds. onceSent ws d \<Longrightarrow> \<forall>e \<in> set (snd (onUdpReadyRead ds c)). once ws e"
proof (induction ds arbitrary: c)
  case (Cons d ds)
  then show ?case using once_datagram [of ws d c] by (auto simp: Let_def case_prod_beta)
qed simp

lemma onceSent_payload:
  assumes "smallPackets ps" "w \<in> set ws" "\<forall>(c, es) \<in> set ps. \<forall>e \<in> set es. tells w c e"
  shows "\<forall>d \<in> set (map (\<lambda>(c, es). encodePacket q f c es) ps). onceSent ws d"
  using assms by (fastforce simp: onceSent_def smallPackets_def)

subsection \<open>The invariant\<close>

definition lossy_inv :: "LossySystem \<Rightarrow> bool" where
  "lossy_inv sys \<longleftrightarrow>
     wf_server (lserver sys) \<and> networkManager (lserver sys) \<noteq> NoNetwork \<and> okDirtyWorld (world (lserver sys)) \<and>
     world (lserver sys) \<in> set (worlds sys) \<and>
     (\<forall>q. getFullSnapshotForSeq q (lserver sys) = serializeFull q (chunks (world (lserver sys)))) \<and>
     (\<forall>d \<in> set (sent sys). onceSent (worlds sys) d) \<and>
     (\<forall>e \<in> set (signals (lapp sys)). once (worlds sys) e) \<and>
     onceShown (worlds sys) (worldModel (window (lapp sys)))"

lemma once_noUpdate: "noUpdate effs \<Longrightarrow> \<forall>e \<in> set effs. once ws e"
proof
  fix e assume "noUpdate effs" "e \<in> set effs"
  then show "once ws e" by (cases e) (auto simp: noUpdate_def)
qed

text \<open>What the client itself does keeps its half of the invariant.\<close>

definition client_once :: "World list \<Rightarrow> ClientApp \<Rightarrow> bool" where
  "client_once ws a \<longleftrightarrow> (\<forall>e \<in> set (signals a). once ws e) \<and> onceShown ws (worldModel (window a))"

lemma client_once_netRuns:
  "client_once ws a \<Longrightarrow> \<forall>e \<in> set (snd r). once ws e \<Longrightarrow> client_once ws (netRuns r a)"
  by (auto simp: client_once_def netRuns_def)

lemma client_once_move:
  assumes "client_move emits a a'" "client_once ws a"
  shows "client_once ws a'"
  using assms
proof (induction rule: client_move.induct)
  case (user a w' calls)
  then show ?case using user_step_model [OF user(1)] by (simp add: client_once_def)
next
  case (deliver a e es ms)
  then show ?case by (simp add: client_once_def worldModel_onSignal onceShown_signal)
next
  case (call a c cs "after")
  then have "client_once ws (a\<lparr>posted := cs\<rparr>)" by (simp add: client_once_def)
  then show ?case by (intro client_once_netRuns once_noUpdate noUpdate_invokeClient)
next
  case (slot a r)
  then show ?case by (intro client_once_netRuns once_noUpdate)
qed

lemma lossy_inv_split:
  "lossy_inv sys \<longleftrightarrow>
     wf_server (lserver sys) \<and> networkManager (lserver sys) \<noteq> NoNetwork \<and> okDirtyWorld (world (lserver sys)) \<and>
     world (lserver sys) \<in> set (worlds sys) \<and>
     (\<forall>q. getFullSnapshotForSeq q (lserver sys) = serializeFull q (chunks (world (lserver sys)))) \<and>
     (\<forall>d \<in> set (sent sys). onceSent (worlds sys) d) \<and> client_once (worlds sys) (lapp sys)"
  by (simp add: lossy_inv_def client_once_def)

lemma lossy_inv_tick:
  assumes inv: "lossy_inv sys" and ds: "sendPayloadTo (tickUpdate (lserver sys)) = Some ds"
  shows "lossy_inv (sys\<lparr>lserver := serverStep Tick (lserver sys),
    worlds := worlds sys @ [world (serverStep Tick (lserver sys))], sent := sent sys @ ds\<rparr>)"
proof -
  let ?s = "lserver sys" and ?w = "fst (afterCommands (lserver sys))" and ?ws = "worlds sys @ [world (fst (onTick (lserver sys)))]"
  have s: "wf_server ?s" "networkManager ?s \<noteq> NoNetwork" "okDirtyWorld (world ?s)"
    using inv by (simp_all add: lossy_inv_def)
  then have w: "wf_world (world ?s)" "wf_world ?w" using wf_afterCommands [OF s(1)] by (auto simp: wf_server_def)
  have ok: "okDirtyWorld ?w" by (rule okDirtyWorld_tracks [OF tracks_tick [OF w(1)] s(3)])
  have same: "shownAt (world (fst (onTick ?s))) key = shownAt ?w key" for key
    by (simp add: shownAt_def cellAt_onTick)
  have tells: "\<forall>(c, es) \<in> set (deltaPackets (chunks ?w)). \<forall>e \<in> set es. tells (world (fst (onTick ?s))) c e"
    using delta_tells [OF w(2) ok] by (simp add: tells_def same)
  moreover have "ds = map (\<lambda>(c, es). encodePacket (broadcastSeq ?s + 1) kFlagDelta c es) (deltaPackets (chunks ?w))"
    using ds by (simp add: tickUpdate_eq [OF s(2)] sendPayloadTo_encodeAll smallPackets_delta)
  ultimately have new: "\<forall>d \<in> set ds. onceSent ?ws d"
    using onceSent_payload [OF smallPackets_delta _ tells, of ?ws] by (simp del: set_map)
  have mono: "set (worlds sys) \<subseteq> set ?ws" by auto
  have "client_once ?ws (lapp sys)" "\<forall>d \<in> set (sent sys). onceSent ?ws d"
    using inv once_mono [OF _ mono] onceShown_mono [OF _ mono] onceSent_mono [OF _ mono]
    unfolding lossy_inv_def client_once_def by blast+
  moreover have "networkManager (fst (onTick ?s)) \<noteq> NoNetwork" using s(2) by (simp add: onTick_state)
  ultimately show ?thesis
    using new wf_onTick [OF s(1)] okDirtyWorld_onTick [OF w(1) s(3)]
    by (auto simp: lossy_inv_split getFullSnapshotForSeq_onTick)
qed

lemma lossy_step_inv:
  assumes "lossy_step emits sys sys'" "lossy_inv sys"
  shows "lossy_inv sys'"
  using assms
proof (induction rule: lossy_step.induct)
  case (join sys p)
  then show ?case
    using wf_serverStep [of "lserver sys" "Join p"]
    by (simp add: lossy_inv_split onPlayerJoined_def getFullSnapshotForSeq_def)
next
  case (commands sys cmds)
  then show ?case
    using wf_serverStep [of "lserver sys" "Send cmds"]
    by (simp add: lossy_inv_split onCommandsFromNetwork_def getFullSnapshotForSeq_def)
next
  case (tick sys ds)
  then show ?case by (intro lossy_inv_tick)
next
  case (snapshot q sys ds)
  let ?w = "world (lserver sys)"
  have w: "wf_world ?w" "?w \<in> set (worlds sys)" using snapshot.prems by (auto simp: lossy_inv_def wf_server_def)
  have "ds = map (\<lambda>(c, es). encodePacket q kFlagFull c es) (fullPackets (chunks ?w))"
    using snapshot by (simp add: lossy_inv_def serializeFull_eq sendPayloadTo_encodeAll smallPackets_full)
  with onceSent_payload [OF smallPackets_full w(2) full_tells [OF w(1)]]
  have "\<forall>d \<in> set ds. onceSent (worlds sys) d" by simp
  with snapshot.prems show ?case by (auto simp: lossy_inv_split)
next
  case (arrive ds sys)
  then have "\<forall>d \<in> set ds. onceSent (worlds sys) d" by (auto simp: lossy_inv_def)
  with arrive.prems show ?case
    by (simp add: lossy_inv_split client_once_netRuns once_datagrams)
next
  case (connect sys w' calls h t u p)
  then have "worldModel w' = newWorldModel" using user_step_model [OF connect.hyps(1)] by auto
  with connect.prems show ?case
    by (simp add: lossy_inv_split client_once_def onceShown_def newWorldModel_def ownerIn_def)
next
  case (client sys a)
  then show ?case using client_once_move by (simp add: lossy_inv_split)
qed

lemma lossy_inv_start:
  assumes "cachedFullSnapshot s = []" "networkManager s = BoostNetwork" "world s = newWorld" "wf_server s"
  shows "lossy_inv \<lparr>lserver = s, worlds = [newWorld], sent = [], lapp = newApp cx cy\<rparr>"
proof -
  have "getFullSnapshotForSeq q s = serializeFull q []" for q
    by (rule getFullSnapshotForSeq_serialize [where q = 0])
      (simp add: assms(1) serializeFull_eq fullPackets_def encodeAll_def)
  moreover have "client_once [newWorld] (newApp cx cy)"
    by (simp add: client_once_def newApp_def newWindow_def updateNavigationPanel_def frame_simps
        onceShown_def newWorldModel_def ownerIn_def)
  ultimately show ?thesis
    using assms(2-4) okDirtyWorld_new by (simp add: lossy_inv_split) (simp add: newWorld_def)
qed

lemma started_server:
  "fst (startServer tp up (newGameServer BoostNetwork)) = (newGameServer BoostNetwork)\<lparr>running := True\<rparr>"
  by (simp add: startServer_def refreshFullSnapshotCache_def newGameServer_def newWorld_def allChunksWithCoords_def
      serializeFull_eq fullPackets_def encodeAll_def)

lemma lossy_reachable_inv: "lossy_reachable emits sys \<Longrightarrow> lossy_inv sys"
proof (induction rule: lossy_reachable.induct)
  case (start cx cy)
  show ?case
    by (rule lossy_inv_start) (simp_all add: wf_newGameServer, simp_all add: newGameServer_def)
next
  case (started tp up cx cy)
  show ?case
    unfolding started_server using wf_newGameServer [of BoostNetwork]
    by (intro lossy_inv_start) (simp_all add: newGameServer_def wf_server_def)
next
  case (step sys sys')
  then show ?case by (blast intro: lossy_step_inv)
qed

subsection \<open>What a client can see\<close>

lemma shown_was_live:
  assumes "lossy_reachable emits sys" "inRange X" "inRange Y"
    and "ownerAt (worldModel (window (lapp sys))) (word_of_int X) (word_of_int Y) = p" "p \<noteq> 0"
  shows "\<exists>w \<in> set (worlds sys). alive (cellAt w X Y) \<and> owner (cellAt w X Y) = p"
proof -
  have "onceShown (worlds sys) (worldModel (window (lapp sys)))"
    using lossy_reachable_inv [OF assms(1)] by (simp add: lossy_inv_def)
  then obtain w where w: "w \<in> set (worlds sys)" "shownAt w (CellKey (word_of_int X) (word_of_int Y)) = p"
    using assms(4,5) unfolding onceShown_def ownerAt_ownerIn by metis
  then have "shown (cellAt w X Y) = p" using assms(2,3) by (simp add: shownAt_def sint_inRange)
  with w(1) assms(5) show ?thesis by (auto simp: shown_def split: if_splits)
qed

text \<open>
  No phantom cells: whatever the network loses, repeats or reorders, and however often the
  client connects anew, an owner that the window's model shows at a position in range is the
  owner a live cell had at that position in the world after some tick of the server.
\<close>

theorem shown_cells_were_live:
  assumes "lossy_reachable emits sys" "inRange X" "inRange Y"
    and "ownerAt (worldModel (window (lapp sys))) (word_of_int X) (word_of_int Y) = p" "p \<noteq> 0"
  shows "\<exists>w \<in> set (worlds sys). alive (cellAt w X Y) \<and> owner (cellAt w X Y) = p"
  by (rule shown_was_live [OF assms])

text \<open>A picture that is right wherever a chunk's live cells fit one packet.\<close>

definition showsFitting :: "WorldModel \<Rightarrow> World \<Rightarrow> bool" where
  "showsFitting m w \<longleftrightarrow> (\<forall>X Y. inRange X \<and> inRange Y \<and> fullEntries (chunkOr (keyAt X Y) w) \<noteq> [] \<and>
     length (fullEntries (chunkOr (keyAt X Y) w)) \<le> kMaxCellsPerPacket \<longrightarrow>
     ownerAt m (word_of_int X) (word_of_int Y) = shown (cellAt w X Y))"

lemma repairable:
  assumes "lossy_reachable emits sys"
  shows "\<exists>sys'. (lossy_step emits)\<^sup>*\<^sup>* sys sys' \<and> lserver sys' = lserver sys \<and>
    showsFitting (worldModel (window (lapp sys'))) (world (lserver sys))"
proof -
  let ?s = "lserver sys" and ?w = "world (lserver sys)" and ?ps = "fullPackets (chunks (world (lserver sys)))"
  let ?ds = "map (\<lambda>(c, es). encodePacket 0 kFlagFull c es) ?ps"
  let ?a = "netRuns (onUdpReadyRead ?ds (netClient (lapp sys))) (lapp sys)"
  have inv: "lossy_inv sys" by (rule lossy_reachable_inv [OF assms])
  have wf: "wf_world ?w" using inv by (simp add: lossy_inv_def wf_server_def)
  have "sendPayloadTo (getFullSnapshotForSeq 0 ?s) = Some ?ds"
    using inv by (simp add: lossy_inv_def serializeFull_eq sendPayloadTo_encodeAll smallPackets_full)
  then have "lossy_step emits sys (sys\<lparr>sent := sent sys @ ?ds\<rparr>)" by (rule lossy_step.snapshot)
  moreover have "lossy_step emits (sys\<lparr>sent := sent sys @ ?ds\<rparr>) (sys\<lparr>sent := sent sys @ ?ds, lapp := ?a\<rparr>)"
    using lossy_step.arrive [of ?ds "sys\<lparr>sent := sent sys @ ?ds\<rparr>" emits] by simp
  ultimately have arrived: "(lossy_step emits)\<^sup>*\<^sup>* sys (sys\<lparr>sent := sent sys @ ?ds, lapp := ?a\<rparr>)"
    by (meson converse_rtranclp_into_rtranclp r_into_rtranclp)
  obtain a' where a': "(client_move emits)\<^sup>*\<^sup>* ?a a'" "worldModel (window a') = upcoming ?a"
    using signals_handled by blast
  have "(lossy_step emits)\<^sup>*\<^sup>* (sys\<lparr>sent := sent sys @ ?ds, lapp := ?a\<rparr>) (sys\<lparr>sent := sent sys @ ?ds, lapp := a'\<rparr>)"
    using a'(1)
  proof (induction rule: rtranclp_induct)
    case (step b c)
    have "lossy_step emits (sys\<lparr>sent := sent sys @ ?ds, lapp := b\<rparr>) (sys\<lparr>sent := sent sys @ ?ds, lapp := c\<rparr>)"
      using lossy_step.client [of emits "sys\<lparr>sent := sent sys @ ?ds, lapp := b\<rparr>" c] step.hyps(2) by simp
    with step.IH show ?case by (rule rtranclp.rtrancl_into_rtrancl)
  qed simp
  with arrived have run: "(lossy_step emits)\<^sup>*\<^sup>* sys (sys\<lparr>sent := sent sys @ ?ds, lapp := a'\<rparr>)" by (rule rtranclp_trans)
  have "worldModel (window a') = fold (applyPacket 0 kFlagFull) ?ps (upcoming (lapp sys))"
    by (simp add: a'(2) upcoming_netRuns deliver_onUdpReadyRead smallPackets_full)
  with run show ?thesis
    using repaired [OF wf] by (intro exI [of _ "sys\<lparr>sent := sent sys @ ?ds, lapp := a'\<rparr>"]) (simp add: showsFitting_def kMaxCellsPerPacket_def)
qed

text \<open>
  The picture can always be repaired: from every state of the lossy system, a snapshot's
  datagrams arriving in order and the handling of the queued signals lead, without another tick,
  to a state in which the window shows every position of every chunk with 1 to 125 live cells
  as the server has it.
\<close>

theorem picture_can_be_repaired:
  assumes "lossy_reachable emits sys"
  shows "\<exists>sys'. (lossy_step emits)\<^sup>*\<^sup>* sys sys' \<and> lserver sys' = lserver sys \<and>
    showsFitting (worldModel (window (lapp sys'))) (world (lserver sys))"
  by (rule repairable [OF assms])

subsection \<open>A run\<close>

text \<open>The sample server's tick, and an update of it that the network delivers.\<close>

lemma sample_lossy:
  obtains ds where "lossy_reachable (\<lambda>_. True) \<lparr>lserver = fst (onTick sampleServer),
    worlds = [newWorld, world (fst (onTick sampleServer))], sent = ds, lapp = newApp 0 0\<rparr>"
proof -
  let ?r = "lossy_reachable (\<lambda>_. True)"
  have "?r \<lparr>lserver = newGameServer BoostNetwork, worlds = [newWorld], sent = [], lapp = newApp 0 0\<rparr>"
    by (rule lossy_reachable.start)
  from lossy_reachable.step [OF lossy_reachable.step [OF this lossy_step.join [where p = 7]]
      lossy_step.commands [where cmds = "[placeSample]"]]
  have r: "?r \<lparr>lserver = sampleServer, worlds = [newWorld], sent = [], lapp = newApp 0 0\<rparr>"
    by (simp add: sampleServer_def)
  have "networkManager sampleServer \<noteq> NoNetwork"
    by (simp add: sampleServer_def onCommandsFromNetwork_def onPlayerJoined_def newGameServer_def)
  then obtain ds where "sendPayloadTo (tickUpdate sampleServer) = Some ds"
    by (simp add: tickUpdate_eq sendPayloadTo_encodeAll smallPackets_delta)
  from lossy_reachable.step [OF r lossy_step.tick [of _ ds]] this show ?thesis
    by (intro that [of ds]) simp
qed

lemma sample_repaired:
  assumes "\<And>sys. lossy_reachable (\<lambda>_. True) sys \<Longrightarrow>
    \<exists>sys'. (lossy_step (\<lambda>_. True))\<^sup>*\<^sup>* sys sys' \<and> lserver sys' = lserver sys \<and>
      showsFitting (worldModel (window (lapp sys'))) (world (lserver sys))"
  shows "\<exists>sys. lossy_reachable (\<lambda>_. True) sys \<and> ownerAt (worldModel (window (lapp sys))) 3 (- 4) = 7"
proof -
  obtain ds where r: "lossy_reachable (\<lambda>_. True) \<lparr>lserver = fst (onTick sampleServer),
    worlds = [newWorld, world (fst (onTick sampleServer))], sent = ds, lapp = newApp 0 0\<rparr>"
    using sample_lossy by blast
  let ?w = "world (fst (onTick sampleServer))"
  from assms [OF r] obtain sys' where sys':
    "(lossy_step (\<lambda>_. True))\<^sup>*\<^sup>* \<lparr>lserver = fst (onTick sampleServer),
       worlds = [newWorld, world (fst (onTick sampleServer))], sent = ds, lapp = newApp 0 0\<rparr> sys'"
    "showsFitting (worldModel (window (lapp sys'))) ?w"
    by auto
  have "keyAt 3 (- 4) = coord 0 (- 1)" by (simp add: keyAt_def)
  then have "inRange 3 \<and> inRange (- 4) \<and> fullEntries (chunkOr (keyAt 3 (- 4)) ?w) \<noteq> [] \<and>
      length (fullEntries (chunkOr (keyAt 3 (- 4)) ?w)) \<le> kMaxCellsPerPacket"
    by (simp add: inRange_def sampleServer_entries kMaxCellsPerPacket_def)
  with sys'(2) have "ownerAt (worldModel (window (lapp sys'))) (word_of_int 3) (word_of_int (- 4)) =
      shown (cellAt ?w 3 (- 4))" unfolding showsFitting_def by blast
  then have "ownerAt (worldModel (window (lapp sys'))) 3 (- 4) = 7"
    by (simp add: sampleServer_cells sameCoord_def shown_def)
  moreover have "lossy_reachable (\<lambda>_. True) sys'"
    using sys'(1) r by (induction rule: rtranclp_induct) (auto intro: lossy_reachable.step)
  ultimately show ?thesis by blast
qed

theorem picture_can_be_repaired_witness:
  "\<exists>sys. lossy_reachable (\<lambda>_. True) sys \<and> ownerAt (worldModel (window (lapp sys))) 3 (- 4) = 7"
  by (rule sample_repaired [OF picture_can_be_repaired])

theorem shown_cells_were_live_witness:
  "\<exists>sys. lossy_reachable (\<lambda>_. True) sys \<and> ownerAt (worldModel (window (lapp sys))) 3 (- 4) = 7 \<and>
     (\<exists>w \<in> set (worlds sys). alive (cellAt w 3 (- 4)) \<and> owner (cellAt w 3 (- 4)) = 7)"
proof -
  obtain sys where sys: "lossy_reachable (\<lambda>_. True) sys" "ownerAt (worldModel (window (lapp sys))) 3 (- 4) = 7"
    using sample_repaired [OF repairable] by blast
  have "inRange 3" "inRange (- 4)" by (simp_all add: inRange_def)
  from shown_cells_were_live [OF sys(1) this, of 7] sys show ?thesis by auto
qed

end
