(* ===== verification/Multiplayer.thy ===== *)
theory Multiplayer
  imports Sample_Runs Lossy_Network
begin

section \<open>The whole game: one server, any number of players, lossy links\<close>

text \<open>
  The server with its network manager (\<open>Server_Streams\<close>) and a client with its two threads at
  every endpoint (\<open>Client_App\<close>). On the TCP connections any bytes may be written at any time,
  those of the clients or others. The datagrams of the broadcasts go to the
  endpoints the manager has registered; whatever has been sent to an endpoint may arrive there in any order,
  any number of times, or never. The worlds the server has had are recorded to state
  what the windows can show. For each player the party is a run of the system of
  \<open>Lossy_Network\<close>, which carries that system's theorems over.
\<close>

record 'ep Party =
  host :: "'ep ServerSystem"
  past :: "World list"
  players :: "'ep \<Rightarrow> ClientApp"

definition sentTo :: "'ep \<Rightarrow> 'ep Party \<Rightarrow> byte list list" where
  "sentTo ep g = datagramsTo ep (netLog (net (host g)))"

definition withPlayer :: "'ep \<Rightarrow> ClientApp \<Rightarrow> 'ep Party \<Rightarrow> 'ep Party" where
  "withPlayer ep a g = g\<lparr>players := (players g)(ep := a)\<rparr>"

inductive party_step :: "(TcpState \<Rightarrow> bool) \<Rightarrow> 'ep Party \<Rightarrow> 'ep Party \<Rightarrow> bool" for emits where
  server: "server_step (host g) u \<Longrightarrow>
    party_step emits g (g\<lparr>host := u, past := past g @ [world (core u)]\<rparr>)"
| arrive: "set ds \<subseteq> set (sentTo ep g) \<Longrightarrow>
    party_step emits g (withPlayer ep (netRuns (onUdpReadyRead ds (netClient (players g ep))) (players g ep)) g)"
| connect: "user_step (window (players g ep)) (w', cs) \<Longrightarrow> CallConnect h t u p \<in> set cs \<Longrightarrow>
    party_step emits g (withPlayer ep
      ((players g ep)\<lparr>window := w', ClientApp.posted := ClientApp.posted (players g ep) @ cs\<rparr>) g)"
| client: "client_move emits (players g ep) a \<Longrightarrow> party_step emits g (withPlayer ep a g)"

inductive party_run :: "(TcpState \<Rightarrow> bool) \<Rightarrow> 'ep Party \<Rightarrow> bool" for emits where
  start: "party_run emits \<lparr>host = startSystem, past = [newWorld], players = (\<lambda>ep. newApp (cx ep) (cy ep))\<rparr>"
| step: "party_run emits g \<Longrightarrow> party_step emits g g' \<Longrightarrow> party_run emits g'"

subsection \<open>The game behind the party\<close>

lemma party_system: "party_run emits g \<Longrightarrow> system_run (host g)"
proof (induction rule: party_run.induct)
  case (start cx cy)
  show ?case by (simp add: system_run.start)
next
  case (step g g')
  from step.hyps(2) step.IH show ?case
    by cases (auto simp: withPlayer_def intro: system_run.step)
qed

text \<open>Every recorded world has the cells of the game after some first part of the history.\<close>

definition cellsOfGame :: "GameEvent list \<Rightarrow> World \<Rightarrow> bool" where
  "cellsOfGame es w \<longleftrightarrow> (\<exists>k. \<forall>X Y. cellAt w X Y = board (fold gameStep (take k es) emptyGame) X Y)"

lemma cellsOfGame_append: "cellsOfGame es w \<Longrightarrow> cellsOfGame (es @ es') w"
proof -
  assume "cellsOfGame es w"
  then obtain k where k: "\<forall>X Y. cellAt w X Y = board (fold gameStep (take k es) emptyGame) X Y"
    by (auto simp: cellsOfGame_def)
  have "take (min k (length es)) (es @ es') = take k es" by (cases "k \<le> length es") auto
  with k show ?thesis unfolding cellsOfGame_def by metis
qed

lemma history_grows: "server_step u u' \<Longrightarrow> \<exists>more. history u' = history u @ more"
  by (elim server_stepE) (auto simp: handled_def Let_def)

lemma past_played:
  assumes "party_run emits g"
  shows "\<forall>w \<in> set (past g). cellsOfGame (map snd (history (host g))) w"
  using assms
proof (induction rule: party_run.induct)
  case (start cx cy)
  have "cellAt newWorld X Y = board emptyGame X Y" for X Y
    using absGame_start [of BoostNetwork] by (simp add: absGame_def emptyGame_def newGameServer_def)
  then show ?case by (simp add: cellsOfGame_def startSystem_def)
next
  case (step g g')
  from step.hyps(2) show ?case
  proof cases
    case (server u)
    have "system_run u" using party_system [OF step.hyps(1)] server(2) by (rule system_run.step)
    from core_history [OF this] have "board (absGame (core u)) =
        board (fold gameStep (map snd (history u)) emptyGame)" by simp
    then have "cellAt (world (core u)) X Y =
        board (fold gameStep (take (length (map snd (history u))) (map snd (history u))) emptyGame) X Y" for X Y
      by (simp add: absGame_def)
    then have "cellsOfGame (map snd (history u)) (world (core u))" unfolding cellsOfGame_def by blast
    moreover obtain more where "history u = history (host g) @ more" using history_grows [OF server(2)] by blast
    ultimately show ?thesis using step.IH cellsOfGame_append by (auto simp: server(1))
  qed (use step.IH in \<open>simp_all add: withPlayer_def\<close>)
qed

subsection \<open>What a broadcast sends\<close>

lemma broadcast_runs:
  assumes "sendPayloadTo delta = Some ds" "sendPayloadTo (f q) = Some fs"
  shows "\<exists>n' effs. doUdpBroadcast (Some f) delta q n = Some (n', effs) \<and>
    (\<forall>ep. set (datagramsTo ep effs) \<subseteq> set ds \<union> set fs) \<and>
    (\<forall>ep. (\<forall>p. map_of (udpEndpoints n) p \<noteq> Some ep) \<longrightarrow> datagramsTo ep effs = [])"
proof (cases "sessionInfos n = []")
  case True
  then show ?thesis by (simp add: doUdpBroadcast_def datagramsTo_def)
next
  case False
  then have "doUdpBroadcast (Some f) delta q n =
      Some (fold (\<lambda>(p, ep, needs) n. if needs then clearNeedsFull p n else n) (sessionInfos n) n,
        concat (map (\<lambda>(p, ep, needs). map (SendUdp ep) (if needs then fs else ds)) (sessionInfos n)))"
    unfolding doUdpBroadcast_def Let_def by (simp, intro sendInfos_delivers) (simp_all add: assms)
  moreover have "filter (\<lambda>i. fst (snd i) = ep) (sessionInfos n) = []" if "\<forall>p. map_of (udpEndpoints n) p \<noteq> Some ep" for ep
    using that by (auto simp: filter_empty_conv sessionInfos_def split: option.splits)
  ultimately show ?thesis by (auto simp: datagramsTo_broadcast split: if_splits)
qed

text \<open>The payloads a network manager has still to send, split into datagrams.\<close>

definition queuedOk :: "byte list set \<Rightarrow> 'ep NetManager \<Rightarrow> bool" where
  "queuedOk known n \<longleftrightarrow> (\<forall>delta q. UdpBroadcast delta q \<in> set (NetManager.posted n) \<longrightarrow>
     (\<exists>ds. sendPayloadTo delta = Some ds \<and> set ds \<subseteq> known))"

lemma queuedOk_mono: "queuedOk A n \<Longrightarrow> A \<subseteq> B \<Longrightarrow> set (NetManager.posted n') \<subseteq> set (NetManager.posted n) \<Longrightarrow> queuedOk B n'"
  unfolding queuedOk_def by blast

lemma posted_clear: "NetManager.posted (clearNeedsFull p n) = NetManager.posted n \<and> ioRunning (clearNeedsFull p n) = ioRunning n"
  by (simp add: clearNeedsFull_def split: option.split)

lemma sendInfos_posted:
  "sendInfos f q delta infos full n = Some (n', effs) \<Longrightarrow>
     NetManager.posted n' = NetManager.posted n \<and> ioRunning n' = ioRunning n"
proof (induction infos arbitrary: full n n' effs)
  case Nil
  then show ?case by (cases full) simp
next
  case (Cons info infos)
  obtain p ep needs where info: "info = (p, ep, needs)" by (cases info)
  obtain fd fb where full: "full = (fd, fb)" by (cases full)
  from Cons.prems obtain full' effs' where
    "sendInfos f q delta infos full' (if needs then clearNeedsFull p n else n) = Some (n', effs')"
    unfolding info full by (cases needs) (auto simp: Let_def split: option.splits prod.splits)
  from Cons.IH [OF this] show ?case by (simp add: posted_clear split: if_splits)
qed

lemma broadcast_posted:
  "doUdpBroadcast f delta q n = Some (n', effs) \<Longrightarrow>
     NetManager.posted n' = NetManager.posted n \<and> ioRunning n' = ioRunning n"
  by (auto simp: doUdpBroadcast_def Let_def dest: sendInfos_posted split: if_splits)

text \<open>One posted task runs: never out of the payload's bounds, and what it sends was queued or is a snapshot.\<close>

lemma posted_runs:
  assumes "queuedOk known n" "\<And>q. sendPayloadTo (f q) = Some (full q)"
  shows "\<exists>n' effs. Boost_Network.runPosted (Some f) n = Some (n', effs) \<and> NetManager.posted n' = tl (NetManager.posted n) \<and>
    ioRunning n' = ioRunning n \<and> (\<exists>q. \<forall>ep. set (datagramsTo ep effs) \<subseteq> known \<union> set (full q)) \<and>
    (\<forall>ep. (\<forall>p. map_of (udpEndpoints n) p \<noteq> Some ep) \<longrightarrow> datagramsTo ep effs = [])"
proof (cases "NetManager.posted n")
  case Nil
  then show ?thesis by (simp add: Boost_Network.runPosted_def datagramsTo_def)
next
  case (Cons t ts)
  show ?thesis
  proof (cases t)
    case (UdpBroadcast delta q)
    then have "UdpBroadcast delta q \<in> set (NetManager.posted n)" by (simp add: Cons)
    with assms(1) obtain ds where ds: "sendPayloadTo delta = Some ds" "set ds \<subseteq> known"
      unfolding queuedOk_def by blast
    from broadcast_runs [OF ds(1), of f q "full q" "n\<lparr>NetManager.posted := ts\<rparr>", OF assms(2)]
    obtain n' effs where run: "doUdpBroadcast (Some f) delta q (n\<lparr>NetManager.posted := ts\<rparr>) = Some (n', effs)"
      "\<forall>ep. set (datagramsTo ep effs) \<subseteq> set ds \<union> set (full q)"
      "\<forall>ep. (\<forall>p. map_of (udpEndpoints n) p \<noteq> Some ep) \<longrightarrow> datagramsTo ep effs = []" by auto
    have "Boost_Network.runPosted (Some f) n = Some (n', effs)" by (simp add: Boost_Network.runPosted_def Cons UdpBroadcast run(1))
    moreover have "NetManager.posted n' = tl (NetManager.posted n)" "ioRunning n' = ioRunning n"
      using broadcast_posted [OF run(1)] by (simp_all add: Cons)
    moreover have "\<forall>ep. set (datagramsTo ep effs) \<subseteq> known \<union> set (full q)" using run(2) ds(2) by blast
    ultimately show ?thesis using run(3) by blast
  next
    case (StatsBroadcast payload)
    then have "Boost_Network.runPosted (Some f) n = Some (n\<lparr>NetManager.posted := ts\<rparr>, statsBroadcast payload n)"
      by (simp add: Boost_Network.runPosted_def Cons)
    moreover have "datagramsTo ep (statsBroadcast payload n) = []" for ep
      by (auto simp: datagramsTo_def statsBroadcast_def)
    ultimately show ?thesis by (auto simp: Cons)
  qed
qed

subsection \<open>A player's part of the party\<close>

definition partOf :: "'ep \<Rightarrow> 'ep Party \<Rightarrow> World list \<Rightarrow> byte list list \<Rightarrow> LossySystem" where
  "partOf ep g ws ds = \<lparr>lserver = core (host g), worlds = ws, sent = ds, lapp = players g ep\<rparr>"

definition follows :: "(TcpState \<Rightarrow> bool) \<Rightarrow> 'ep Party \<Rightarrow> 'ep \<Rightarrow> World list \<Rightarrow> byte list list \<Rightarrow> bool" where
  "follows emits g ep ws ds \<longleftrightarrow> lossy_reachable emits (partOf ep g ws ds) \<and> set ws = set (past g) \<and>
     set (sentTo ep g) \<subseteq> set ds \<and> queuedOk (set ds) (manager (net (host g)))"

lemma lossy_events:
  assumes "lossy_reachable emits sys" "Tick \<notin> set es"
  shows "lossy_reachable emits (sys\<lparr>lserver := fold serverStep es (lserver sys)\<rparr>)"
  using assms
proof (induction es arbitrary: sys)
  case (Cons e es)
  have "lossy_step emits sys (sys\<lparr>lserver := serverStep e (lserver sys)\<rparr>)"
    using Cons.prems(2) by (cases e) (auto intro: lossy_step.intros simp del: serverStep.simps)
  with Cons.prems(1) have "lossy_reachable emits (sys\<lparr>lserver := serverStep e (lserver sys)\<rparr>)"
    by (rule lossy_reachable.step)
  from Cons.IH [OF this] Cons.prems(2) show ?case by simp
qed simp

lemma callback_no_tick: "Tick \<notin> set (callback e)"
  by (cases e) simp_all

lemma world_events: "Tick \<notin> set es \<Longrightarrow> world (fold serverStep es s) = world s"
proof (induction es arbitrary: s)
  case (Cons e es)
  then have "world (serverStep e s) = world s" by (cases e) (simp_all add: onPlayerJoined_def onCommandsFromNetwork_def)
  with Cons show ?case by simp
qed simp

text \<open>The handlers of a session queue nothing and send no datagram.\<close>

lemma handlers_post_nothing:
  "NetManager.posted (fst (onAccept ec sid ep n)) = NetManager.posted n"
  "NetManager.posted (fst (onHandshake ec buf sid n)) = NetManager.posted n"
  "NetManager.posted (fst (onMessageType ec t sid n)) = NetManager.posted n"
  "NetManager.posted (fst (onCommandBody ec t buf sid n)) = NetManager.posted n"
  by (simp_all add: onAccept_def onHandshake_def onMessageType_def onCommandBody_def removeSession_def Let_def
      split: option.split)

lemma handlers_send_nothing:
  "datagramsTo ep (snd (onAccept ec sid ep' n)) = []"
  "datagramsTo ep (snd (onHandshake ec buf sid n)) = []"
  "datagramsTo ep (snd (onMessageType ec t sid n)) = []"
  "datagramsTo ep (snd (onCommandBody ec t buf sid n)) = []"
  by (simp_all add: datagramsTo_def onAccept_def onHandshake_def onMessageType_def onCommandBody_def Let_def
      split: option.split)

lemma datagramsTo_Nil: "datagramsTo ep [] = []"
  by (simp add: datagramsTo_def)

lemma failedRead_quiet:
  "NetManager.posted (fst (failedRead op sid n)) = NetManager.posted n"
  "datagramsTo ep (snd (failedRead op sid n)) = []"
  by (cases op; simp add: handlers_post_nothing handlers_send_nothing datagramsTo_Nil)+

lemma datagramsTo_filter: "datagramsTo ep (filter (\<lambda>e. \<not> isAwait e) effs) = datagramsTo ep effs"
proof (induction effs)
  case (Cons e effs)
  then show ?case by (cases e) (simp_all add: datagramsTo_def)
qed simp

lemma follows_handled:
  assumes "follows emits g ep ws ds"
    and "NetManager.posted (fst r) = NetManager.posted (manager (net (host g)))" "datagramsTo ep (snd r) = []"
  shows "follows emits (g\<lparr>host := handled op sid k r (host g),
    past := past g @ [world (core (handled op sid k r (host g)))]\<rparr>) ep ws ds"
proof -
  let ?es = "concat (map callback (snd r))"
  have t: "Tick \<notin> set ?es" using callback_no_tick by auto
  have "lossy_reachable emits (partOf ep g ws ds)" using assms(1) by (simp add: follows_def)
  from lossy_events [OF this t] have run: "lossy_reachable emits
      (partOf ep (g\<lparr>host := handled op sid k r (host g), past := past'\<rparr>) ws ds)" for past'
    by (simp add: partOf_def handled_def Let_def)
  have "world (core (host g)) \<in> set (past g)"
    using lossy_reachable_inv [of emits "partOf ep g ws ds"] assms(1) by (simp add: follows_def lossy_inv_def partOf_def)
  with assms run show ?thesis
    by (auto simp: follows_def sentTo_def handled_def Let_def finish_def datagramsTo_filter world_events [OF t]
        queuedOk_def)
qed

text \<open>A server step that leaves the game alone, and what it may send.\<close>

lemma follows_quiet:
  assumes "follows emits g ep ws ds" "core u = core (host g)"
    and "set (datagramsTo ep (netLog (net u))) \<subseteq> set ds" "queuedOk (set ds) (manager (net u))"
  shows "follows emits (g\<lparr>host := u, past := past g @ [world (core u)]\<rparr>) ep ws ds"
proof -
  have "world (core (host g)) \<in> set (past g)"
    using lossy_reachable_inv [of emits "partOf ep g ws ds"] assms(1) by (simp add: follows_def lossy_inv_def partOf_def)
  with assms show ?thesis by (auto simp: follows_def partOf_def sentTo_def)
qed

definition fullDatagrams :: "u32 \<Rightarrow> GameServer \<Rightarrow> byte list list" where
  "fullDatagrams q s = map (\<lambda>(c, es). encodePacket q kFlagFull c es) (fullPackets (chunks (world s)))"

lemma snapshot_splits:
  "lossy_inv sys \<Longrightarrow> sendPayloadTo (getFullSnapshotForSeq q (lserver sys)) = Some (fullDatagrams q (lserver sys))"
  by (simp add: lossy_inv_def fullDatagrams_def serializeFull_eq sendPayloadTo_encodeAll smallPackets_full)

lemma follows_full:
  assumes "follows emits g ep ws ds"
  shows "sendPayloadTo (getFullSnapshotForSeq q (core (host g))) = Some (fullDatagrams q (core (host g)))"
  using assms snapshot_splits [of "partOf ep g ws ds"] lossy_reachable_inv [of emits "partOf ep g ws ds"]
  by (simp add: follows_def partOf_def)

lemma follows_runs:
  assumes "follows emits g ep ws ds"
  shows "\<exists>n' effs. Boost_Network.runPosted (Some (\<lambda>q. getFullSnapshotForSeq q (core (host g)))) (manager (net (host g))) =
      Some (n', effs) \<and> NetManager.posted n' = tl (NetManager.posted (manager (net (host g)))) \<and>
    ioRunning n' = ioRunning (manager (net (host g))) \<and>
    (\<exists>q. \<forall>ep. set (datagramsTo ep effs) \<subseteq> set ds \<union> set (fullDatagrams q (core (host g)))) \<and>
    (\<forall>ep. (\<forall>p. map_of (udpEndpoints (manager (net (host g)))) p \<noteq> Some ep) \<longrightarrow> datagramsTo ep effs = [])"
proof (rule posted_runs)
  show "queuedOk (set ds) (manager (net (host g)))" using assms by (simp add: follows_def)
qed (rule follows_full [OF assms])

lemma follows_snapshot:
  assumes "follows emits g ep ws ds"
  shows "follows emits g ep ws (ds @ fullDatagrams q (core (host g)))"
proof -
  have r: "lossy_reachable emits (partOf ep g ws ds)" using assms by (simp add: follows_def)
  have "sendPayloadTo (getFullSnapshotForSeq q (core (host g))) = Some (fullDatagrams q (core (host g)))"
    by (rule follows_full [OF assms])
  then have "lossy_reachable emits (partOf ep g ws (ds @ fullDatagrams q (core (host g))))"
    using lossy_reachable.step [OF r lossy_step.snapshot [of q "partOf ep g ws ds"]] by (simp add: partOf_def)
  then show ?thesis
    using assms queuedOk_mono [of "set ds" "manager (net (host g))"] by (auto simp: follows_def)
qed

lemma network_calls:
  "queuedOk known n \<Longrightarrow> \<forall>delta. BroadcastWorldUpdate delta \<in> set cs \<longrightarrow> (\<exists>ds. sendPayloadTo delta = Some ds \<and> set ds \<subseteq> known) \<Longrightarrow>
     queuedOk known (fold toNetwork cs n)"
proof (induction cs arbitrary: n)
  case (Cons c cs)
  have "queuedOk known (toNetwork c n)"
    using Cons.prems by (cases c) (auto simp: queuedOk_def broadcastWorldUpdate_def broadcastServerStats_def)
  with Cons show ?case by simp
qed simp

lemma follows_tick:
  assumes f: "follows emits g ep ws ds"
    and u: "core u = fst (onTick (core (host g)))" "manager (net u) = fold toNetwork (snd (onTick (core (host g)))) (manager (net (host g)))"
      "netLog (net u) = netLog (net (host g))"
  shows "\<exists>ws' ds'. follows emits (g\<lparr>host := u, past := past g @ [world (core u)]\<rparr>) ep ws' ds'"
proof -
  let ?s = "core (host g)" and ?n = "manager (net (host g))"
  have r: "lossy_reachable emits (partOf ep g ws ds)" using f by (simp add: follows_def)
  have nm: "networkManager ?s \<noteq> NoNetwork" using lossy_reachable_inv [OF r] by (simp add: lossy_inv_def partOf_def)
  then obtain es where es: "sendPayloadTo (tickUpdate ?s) = Some es"
    by (simp add: tickUpdate_eq sendPayloadTo_encodeAll smallPackets_delta)
  let ?ws = "ws @ [world (fst (onTick ?s))]" and ?ds = "ds @ es"
  have "sendPayloadTo (tickUpdate (lserver (partOf ep g ws ds))) = Some es" using es by (simp add: partOf_def)
  note ticked = lossy_reachable.step [OF r lossy_step.tick [OF this]]
  have "lossy_reachable emits (partOf ep (g\<lparr>host := u, past := past'\<rparr>) ?ws ?ds)" for past'
    using ticked by (simp add: partOf_def u(1))
  moreover have "queuedOk (set ds) ?n" using f by (simp add: follows_def)
  then have "queuedOk (set ?ds) ?n" by (rule queuedOk_mono) simp_all
  then have "queuedOk (set ?ds) (fold toNetwork (snd (onTick ?s)) ?n)"
  proof (rule network_calls)
    have "delta = tickUpdate ?s" if "BroadcastWorldUpdate delta \<in> set (snd (onTick ?s))" for delta
      using that nm unfolding tickUpdate_eq [OF nm] onTick_calls Let_def by (simp split: if_splits)
    with es show "\<forall>delta. BroadcastWorldUpdate delta \<in> set (snd (onTick ?s)) \<longrightarrow>
        (\<exists>ds'. sendPayloadTo delta = Some ds' \<and> set ds' \<subseteq> set ?ds)" by auto
  qed
  ultimately show ?thesis using f u by (intro exI [of _ ?ws] exI [of _ ?ds]) (auto simp: follows_def sentTo_def)
qed

lemma follows_post:
  assumes f: "follows emits g ep ws ds" and u: "core u = core (host g)"
    and run: "Boost_Network.runPosted (Some (\<lambda>q. getFullSnapshotForSeq q (core (host g)))) (manager (net (host g))) = Some (n', effs)"
      "manager (net u) = n'" "netLog (net u) = netLog (net (host g)) @ effs"
  shows "\<exists>ws' ds'. follows emits (g\<lparr>host := u, past := past g @ [world (core u)]\<rparr>) ep ws' ds'"
proof -
  let ?s = "core (host g)" and ?n = "manager (net (host g))"
  have ok: "queuedOk (set ds) ?n" using f by (simp add: follows_def)
  from follows_runs [OF f] run(1)
  obtain q where "NetManager.posted n' = tl (NetManager.posted ?n)"
    and q: "\<And>ep. set (datagramsTo ep effs) \<subseteq> set ds \<union> set (fullDatagrams q ?s)" by auto
  then have p: "set (NetManager.posted n') \<subseteq> set (NetManager.posted ?n)"
    by (cases "NetManager.posted ?n") auto
  let ?ds = "ds @ fullDatagrams q ?s"
  have f': "follows emits g ep ws ?ds" by (rule follows_snapshot [OF f])
  have "queuedOk (set ?ds) n'" by (rule queuedOk_mono [OF ok _ p]) simp
  moreover have "set (datagramsTo ep (netLog (net u))) \<subseteq> set ?ds"
    using f' q [of ep] by (auto simp: run(3) follows_def sentTo_def)
  ultimately show ?thesis using follows_quiet [OF f' u] run(2) by blast
qed

lemma follows_server:
  assumes f: "follows emits g ep ws ds" and st: "server_step (host g) u"
  shows "\<exists>ws' ds'. follows emits (g\<lparr>host := u, past := past g @ [world (core u)]\<rparr>) ep ws' ds'"
proof -
  have handled_case: ?thesis if "u = handled op sid k r (host g)" "datagramsTo ep (snd r) = []"
    "NetManager.posted (fst r) = NetManager.posted (manager (net (host g)))" for op sid k r
    using follows_handled [OF f that(3,2), of op sid k] unfolding that(1) by (intro exI)
  from st show ?thesis
  proof cases
    case (peer_writes sid bs)
    have "follows emits (g\<lparr>host := u, past := past g @ [world (core u)]\<rparr>) ep ws ds"
      by (rule follows_quiet [OF f]) (use f in \<open>simp_all add: peer_writes follows_def sentTo_def\<close>)
    then show ?thesis by blast
  next
    case (accept sid ec ep')
    have "follows emits (g\<lparr>host := u, past := past g @ [world (core u)]\<rparr>) ep ws ds"
      by (rule follows_quiet [OF f])
        (use f in \<open>simp_all add: accept(1) follows_def sentTo_def finish_def datagramsTo_filter handlers_send_nothing
          queuedOk_def handlers_post_nothing\<close>)
    then show ?thesis by blast
  next
    case (tick)
    show ?thesis by (rule follows_tick [OF f]) (simp_all add: tick)
  next
    case (post n' effs)
    show ?thesis by (rule follows_post [OF f _ post(3)]) (simp_all add: post(1))
  next
    case (handshake sid)
    show ?thesis
      by (rule handled_case [OF handshake(1)]) (simp_all add: handlers_post_nothing handlers_send_nothing)
  next
    case (message sid t bs)
    show ?thesis
      by (rule handled_case [OF message(1)]) (simp_all add: handlers_post_nothing handlers_send_nothing)
  next
    case (body sid t)
    show ?thesis
      by (rule handled_case [OF body(1)]) (simp_all add: handlers_post_nothing handlers_send_nothing)
  next
    case (read_error op sid)
    show ?thesis by (rule handled_case [OF read_error(1)]) (simp_all add: failedRead_quiet)
  qed
qed

lemma follows_step:
  assumes f: "follows emits g ep ws ds" and st: "party_step emits g g'"
  shows "\<exists>ws' ds'. follows emits g' ep ws' ds'"
  using st
proof cases
  case (server u)
  with follows_server [OF f] show ?thesis by simp
next
  case (arrive es ep')
  have "lossy_reachable emits (partOf ep g' ws ds)"
  proof (cases "ep' = ep")
    case True
    with f arrive(2) have "set es \<subseteq> set (sent (partOf ep g ws ds))" by (auto simp: follows_def partOf_def)
    from lossy_reachable.step [OF _ lossy_step.arrive [OF this]] f True show ?thesis
      by (simp add: arrive(1) follows_def partOf_def withPlayer_def)
  qed (use f in \<open>simp add: arrive(1) follows_def partOf_def withPlayer_def\<close>)
  with f show ?thesis by (intro exI [of _ ws] exI [of _ ds]) (simp add: arrive(1) follows_def withPlayer_def sentTo_def)
next
  case (connect ep' w' cs h t u p)
  have "lossy_reachable emits (partOf ep g' ws ds)"
  proof (cases "ep' = ep")
    case True
    with connect(2) have "user_step (window (lapp (partOf ep g ws ds))) (w', cs)" by (simp add: partOf_def)
    from lossy_reachable.step [OF _ lossy_step.connect [OF this connect(3)]] f True show ?thesis
      by (simp add: connect(1) follows_def partOf_def withPlayer_def)
  qed (use f in \<open>simp add: connect(1) follows_def partOf_def withPlayer_def\<close>)
  with f show ?thesis by (intro exI [of _ ws] exI [of _ ds]) (simp add: connect(1) follows_def withPlayer_def sentTo_def)
next
  case (client ep' a)
  have "lossy_reachable emits (partOf ep g' ws ds)"
  proof (cases "ep' = ep")
    case True
    with client(2) have "client_move emits (lapp (partOf ep g ws ds)) a" by (simp add: partOf_def)
    from lossy_reachable.step [OF _ lossy_step.client [OF this]] f True show ?thesis
      by (simp add: client(1) follows_def partOf_def withPlayer_def)
  qed (use f in \<open>simp add: client(1) follows_def partOf_def withPlayer_def\<close>)
  with f show ?thesis by (intro exI [of _ ws] exI [of _ ds]) (simp add: client(1) follows_def withPlayer_def sentTo_def)
qed

lemma party_follows: "party_run emits g \<Longrightarrow> \<exists>ws ds. follows emits g ep ws ds"
proof (induction rule: party_run.induct)
  case (start cx cy)
  let ?g = "\<lparr>host = startSystem, past = [newWorld], players = (\<lambda>ep. newApp (cx ep) (cy ep))\<rparr> :: 'a Party"
  have "lossy_reachable emits (partOf ep ?g [newWorld] [])"
    by (simp add: partOf_def startSystem_def) (rule lossy_reachable.started)
  moreover have "sentTo ep ?g = []" "queuedOk {} (manager (net (host ?g)))"
    by (simp_all add: sentTo_def queuedOk_def datagramsTo_def startSystem_def netStart_def startNetwork_def
        newNetManager_def setAddPlayerCallback_def setCommandCallback_def Let_def)
  ultimately have "follows emits ?g ep [newWorld] []" by (simp add: follows_def)
  then show ?case by blast
next
  case (step g g')
  from step.IH obtain ws ds where "follows emits g ep ws ds" by (elim exE)
  from follows_step [OF this step.hyps(2)] show ?case .
qed

subsection \<open>What the windows show\<close>



subsection \<open>The network manager's own runs\<close>

lemma toNetwork_steps: "net_step\<^sup>*\<^sup>* st (st\<lparr>manager := fold toNetwork cs (manager st)\<rparr>)"
proof (induction cs arbitrary: st)
  case Nil
  show ?case by simp
next
  case (Cons c cs)
  have "net_step\<^sup>*\<^sup>* st (st\<lparr>manager := toNetwork c (manager st)\<rparr>)"
    by (cases c) (auto intro: net_step.broadcast net_step.stats)
  with Cons.IH [of "st\<lparr>manager := toNetwork c (manager st)\<rparr>"] show ?case by simp
qed

lemma failedRead_step:
  assumes "op \<in> set (pendingOps st)" "ioRunning (manager st)" "opSession op = Some sid"
  shows "net_step st (finish op (failedRead op sid (manager st)) st)"
proof (cases op)
  case (AwaitHandshake sid')
  with assms net_step.handshake [of sid st True "[]"] show ?thesis by simp
next
  case (AwaitType sid')
  with assms net_step.msgType [of sid st True 0] show ?thesis by simp
next
  case (AwaitBody sid' t)
  with assms net_step.body [of sid t st True "[]"] show ?thesis by simp
qed (use assms in simp_all)

lemma server_step_net:
  assumes "server_step u u'"
  shows "net_step\<^sup>*\<^sup>* (net u) (net u')"
  using assms
proof cases
  case (handshake sid)
  with net_step.handshake [of sid "net u" False "take kHandshakeSize (unread u sid)"] show ?thesis
    by (simp add: handled_def Let_def)
next
  case (message sid t bs)
  with net_step.msgType [of sid "net u" False t] show ?thesis by (simp add: handled_def Let_def)
next
  case (body sid t)
  with net_step.body [of sid t "net u" False "take (kCommandSize - 1) (unread u sid)"] show ?thesis
    by (simp add: handled_def Let_def)
next
  case (read_error op sid)
  with failedRead_step [of op "net u" sid] show ?thesis by (simp add: handled_def Let_def)
next
  case (tick)
  with toNetwork_steps show ?thesis by simp
next
  case (post n' effs)
  with net_step.post show ?thesis by fastforce
next
  case (accept sid ec ep)
  with net_step.accept [of "net u" sid ec ep] show ?thesis by simp
qed simp

lemma system_net_reachable: "system_run u \<Longrightarrow> net_reachable (net u)"
proof (induction rule: system_run.induct)
  case start
  show ?case by (simp add: startSystem_def net_reachable.start)
next
  case (step u u')
  from server_step_net [OF step.hyps(2)] step.IH show ?case
    by (induction rule: rtranclp_induct) (auto intro: net_reachable.step)
qed

subsection \<open>A player catches up\<close>

text \<open>
  A player is waiting when its session is registered, at an endpoint no other player is
  registered at, and still to be sent a full snapshot: after its handshake, or after a resync request.
\<close>

definition waitsAt :: "'ep \<Rightarrow> 'ep NetManager \<Rightarrow> bool" where
  "waitsAt ep n \<longleftrightarrow> (\<exists>p sid s. map_of (sessions n) p = Some sid \<and> map_of (sessionObjs n) sid = Some s \<and>
     needsFullSnapshot s \<and> (\<forall>q. map_of (udpEndpoints n) q = Some ep \<longleftrightarrow> q = p))"

lemma player_moves:
  "(client_move emits)\<^sup>*\<^sup>* (players g ep) a \<Longrightarrow> (party_step emits)\<^sup>*\<^sup>* g (withPlayer ep a g)"
proof (induction rule: rtranclp_induct)
  case base
  show ?case by (simp add: withPlayer_def)
next
  case (step a a')
  have "party_step emits (withPlayer ep a g) (withPlayer ep a' (withPlayer ep a g))"
    using step.hyps(2) by (intro party_step.client) (simp add: withPlayer_def)
  with step.IH show ?case by (simp add: withPlayer_def)
qed

lemma snapshot_arrives:
  assumes "party_run emits g" "set (fullDatagrams q (core (host g))) \<subseteq> set (sentTo ep g)"
  shows "\<exists>g'. (party_step emits)\<^sup>*\<^sup>* g g' \<and> host g' = host g \<and>
    showsFitting (worldModel (window (players g' ep))) (world (core (host g)))"
proof -
  let ?w = "world (core (host g))" and ?ds = "fullDatagrams q (core (host g))" and ?a = "players g ep"
  let ?a1 = "netRuns (onUdpReadyRead ?ds (netClient ?a)) ?a"
  have "party_step emits g (withPlayer ep ?a1 g)" by (rule party_step.arrive [OF assms(2)])
  moreover obtain a' where a': "(client_move emits)\<^sup>*\<^sup>* ?a1 a'" "worldModel (window a') = upcoming ?a1"
    using signals_handled by blast
  from a'(1) have "(party_step emits)\<^sup>*\<^sup>* (withPlayer ep ?a1 g) (withPlayer ep a' (withPlayer ep ?a1 g))"
    by (intro player_moves) (simp add: withPlayer_def)
  ultimately have run: "(party_step emits)\<^sup>*\<^sup>* g (withPlayer ep a' (withPlayer ep ?a1 g))"
    by (rule converse_rtranclp_into_rtranclp)
  have wf: "wf_world ?w" using core_history [OF party_system [OF assms(1)]] by (simp add: wf_server_def)
  have "worldModel (window a') = fold (applyPacket q kFlagFull) (fullPackets (chunks ?w)) (upcoming ?a)"
    by (simp add: a'(2) upcoming_netRuns fullDatagrams_def deliver_onUdpReadyRead smallPackets_full)
  then have "showsFitting (worldModel (window a')) ?w"
    using repaired [OF wf] by (simp add: showsFitting_def kMaxCellsPerPacket_def)
  with run show ?thesis
    by (intro exI [of _ "withPlayer ep a' (withPlayer ep ?a1 g)"]) (simp add: withPlayer_def)
qed

lemma party_run_steps: "(party_step emits)\<^sup>*\<^sup>* g g' \<Longrightarrow> party_run emits g \<Longrightarrow> party_run emits g'"
  by (induction rule: rtranclp_induct) (auto intro: party_run.step)

lemma post_step:
  assumes "ioRunning (manager (net (host g)))"
    and "Boost_Network.runPosted (Some (\<lambda>q. getFullSnapshotForSeq q (core (host g)))) (manager (net (host g))) = Some (n', effs)"
  shows "\<exists>g'. party_step emits g g' \<and> core (host g') = core (host g) \<and> manager (net (host g')) = n' \<and>
    sentTo ep g' = sentTo ep g @ datagramsTo ep effs"
  using party_step.server [OF server_step.post [OF assms], of emits]
  by (intro exI conjI, assumption) (simp_all add: sentTo_def)

text \<open>The I/O thread can run all posted tasks; who is not registered gets nothing of them.\<close>

lemma posts_drain:
  assumes "party_run emits g" "ioRunning (manager (net (host g)))"
    and "\<forall>p. map_of (udpEndpoints (manager (net (host g)))) p \<noteq> Some ep"
  shows "\<exists>g'. (party_step emits)\<^sup>*\<^sup>* g g' \<and> core (host g') = core (host g) \<and>
    NetManager.posted (manager (net (host g'))) = [] \<and> sentTo ep g' = sentTo ep g"
  using assms
proof (induction "NetManager.posted (manager (net (host g)))" arbitrary: g)
  case Nil
  then show ?case by (intro exI [of _ g]) simp
next
  case (Cons t ts)
  obtain ws ds where f: "follows emits g ep ws ds" using party_follows [OF Cons.prems(1), of ep] by (elim exE)
  from follows_runs [OF f]
  obtain n' effs where
    run: "Boost_Network.runPosted (Some (\<lambda>q. getFullSnapshotForSeq q (core (host g)))) (manager (net (host g))) = Some (n', effs)"
    and "NetManager.posted n' = tl (NetManager.posted (manager (net (host g))))" "ioRunning n' = ioRunning (manager (net (host g)))"
      "\<forall>ep. (\<forall>p. map_of (udpEndpoints (manager (net (host g)))) p \<noteq> Some ep) \<longrightarrow> datagramsTo ep effs = []"
    by (elim exE conjE)
  then have n': "NetManager.posted n' = ts" "ioRunning n'" "datagramsTo ep effs = []"
    using Cons.prems(2,3) Cons.hyps(2) [symmetric] by simp_all
  from post_step [OF Cons.prems(2) run, of emits ep] n'(3) obtain g1 where
    g1: "party_step emits g g1" "core (host g1) = core (host g)" "manager (net (host g1)) = n'" "sentTo ep g1 = sentTo ep g"
    by auto
  have "udpEndpoints n' = udpEndpoints (manager (net (host g)))"
    using runPosted_sameTables [OF run] by (simp add: sameTables_def)
  then have "\<exists>g'. (party_step emits)\<^sup>*\<^sup>* g1 g' \<and> core (host g') = core (host g1) \<and>
      NetManager.posted (manager (net (host g'))) = [] \<and> sentTo ep g' = sentTo ep g1"
    using Cons.prems n' g1 by (intro Cons.hyps(1)) (auto intro: party_run.step)
  with g1 show ?case by (metis converse_rtranclp_into_rtranclp)
qed

lemma snapshot_sent:
  assumes "NetManager.posted (manager (net (host g))) = ts" "UdpBroadcast delta q \<in> set ts"
    and "party_run emits g" "ioRunning (manager (net (host g)))" "waitsAt ep (manager (net (host g)))"
  shows "\<exists>g' q. (party_step emits)\<^sup>*\<^sup>* g g' \<and> core (host g') = core (host g) \<and>
    set (fullDatagrams q (core (host g))) \<subseteq> set (sentTo ep g')"
  using assms
proof (induction ts arbitrary: g)
  case (Cons t ts)
  let ?n = "manager (net (host g))" and ?f = "\<lambda>q. getFullSnapshotForSeq q (core (host g))"
  show ?case
  proof (cases t)
    case (StatsBroadcast payload)
    then have "Boost_Network.runPosted (Some ?f) ?n = Some (?n\<lparr>NetManager.posted := ts\<rparr>, statsBroadcast payload ?n)"
      by (simp add: Boost_Network.runPosted_def Cons.prems(1))
    from post_step [OF Cons.prems(4) this, of emits ep] obtain g' where
      g': "party_step emits g g'" "core (host g') = core (host g)"
        "manager (net (host g')) = ?n\<lparr>NetManager.posted := ts\<rparr>" by blast
    have "\<exists>g'' q. (party_step emits)\<^sup>*\<^sup>* g' g'' \<and> core (host g'') = core (host g') \<and>
        set (fullDatagrams q (core (host g'))) \<subseteq> set (sentTo ep g'')"
      by (rule Cons.IH) (use Cons.prems StatsBroadcast g'(3) party_run.step [OF Cons.prems(3) g'(1)] in
        \<open>simp_all add: waitsAt_def\<close>)
    with g'(1,2) show ?thesis by (metis converse_rtranclp_into_rtranclp)
  next
    case (UdpBroadcast delta' q')
    let ?n1 = "?n\<lparr>NetManager.posted := ts\<rparr>"
    obtain ws ds where f: "follows emits g ep ws ds" using party_follows [OF Cons.prems(3), of ep] by (elim exE)
    have full: "sendPayloadTo (?f q') = Some (fullDatagrams q' (core (host g)))" by (rule follows_full [OF f])
    have "UdpBroadcast delta' q' \<in> set (NetManager.posted ?n)" by (simp add: Cons.prems(1) UdpBroadcast)
    with f obtain es where es: "sendPayloadTo delta' = Some es" unfolding follows_def queuedOk_def by blast
    from Cons.prems(5) obtain p sid s where s: "map_of (sessions ?n) p = Some sid"
      "map_of (sessionObjs ?n) sid = Some s" "needsFullSnapshot s"
      "\<And>q. map_of (udpEndpoints ?n) q = Some ep \<longleftrightarrow> q = p" unfolding waitsAt_def by blast
    have d: "distinct (map fst (sessions ?n))"
      by (rule net_reachable_distinct [OF system_net_reachable [OF party_system [OF Cons.prems(3)]]])
    have "\<exists>n' effs. doUdpBroadcast (Some ?f) delta' q' ?n1 = Some (n', effs) \<and>
        datagramsTo ep effs = (if needsFullSnapshot s then fullDatagrams q' (core (host g)) else es)"
      by (rule broadcast_to_one [where p = p and sid = sid]) (use es full d s in simp_all)
    then obtain n' effs where run: "doUdpBroadcast (Some ?f) delta' q' ?n1 = Some (n', effs)"
      "datagramsTo ep effs = fullDatagrams q' (core (host g))" using s(3) by auto
    then have "Boost_Network.runPosted (Some ?f) ?n = Some (n', effs)"
      by (simp add: Boost_Network.runPosted_def Cons.prems(1) UdpBroadcast)
    from post_step [OF Cons.prems(4) this, of emits ep] obtain g' where
      "party_step emits g g'" "core (host g') = core (host g)" "sentTo ep g' = sentTo ep g @ datagramsTo ep effs"
      by blast
    with run(2) show ?thesis by (intro exI [of _ g'] exI [of _ q']) auto
  qed
qed simp

lemma catches_up:
  assumes "party_run emits g" "ioRunning (manager (net (host g)))" "waitsAt ep (manager (net (host g)))"
    and "UdpBroadcast delta q \<in> set (NetManager.posted (manager (net (host g))))"
  shows "\<exists>g'. (party_step emits)\<^sup>*\<^sup>* g g' \<and> core (host g') = core (host g) \<and>
    showsFitting (worldModel (window (players g' ep))) (world (core (host g)))"
proof -
  obtain g1 q1 where g1: "(party_step emits)\<^sup>*\<^sup>* g g1" "core (host g1) = core (host g)"
    "set (fullDatagrams q1 (core (host g1))) \<subseteq> set (sentTo ep g1)"
    using snapshot_sent [OF refl assms(4,1,2,3)] by auto
  obtain g2 where "(party_step emits)\<^sup>*\<^sup>* g1 g2" "host g2 = host g1"
    "showsFitting (worldModel (window (players g2 ep))) (world (core (host g1)))"
    using snapshot_arrives [OF party_run_steps [OF g1(1) assms(1)] g1(3)] by blast
  with g1(1,2) show ?thesis by (intro exI [of _ g2]) auto
qed


subsection \<open>A party with one player\<close>

text \<open>Player 7 has joined from endpoint 1 and placed a cell, and a tick has queued the update.\<close>

lemma system_party:
  "system_run u \<Longrightarrow> \<exists>ws. party_run emits \<lparr>host = u, past = ws, players = (\<lambda>ep. newApp 0 0)\<rparr>"
proof (induction rule: system_run.induct)
  case start
  show ?case using party_run.start [of emits "\<lambda>ep. 0" "\<lambda>ep. 0"] by blast
next
  case (step u u')
  from step.IH obtain ws where "party_run emits \<lparr>host = u, past = ws, players = (\<lambda>ep. newApp 0 0)\<rparr>" by (elim exE)
  from party_run.step [OF this party_step.server [of _ u']] step.hyps(2) show ?case by auto
qed

lemma placed_sample: "placed [(3, - 4)] = sampleServer\<lparr>running := True\<rparr>"
  by (simp add: placed_def sampleServer_def placeSample_def started_server onPlayerJoined_def onCommandsFromNetwork_def)

lemma onTick_running: "world (fst (onTick (s\<lparr>running := b\<rparr>))) = world (fst (onTick s))"
  by (simp add: onTick_state afterCommands_def)

lemma sample_party:
  obtains g :: "nat Party" where "party_run (\<lambda>_. True) g" "ioRunning (manager (net (host g)))"
    "waitsAt 1 (manager (net (host g)))" "\<exists>delta q. UdpBroadcast delta q \<in> set (NetManager.posted (manager (net (host g))))"
    "world (core (host g)) = world (fst (onTick sampleServer))"
proof -
  obtain u :: "nat ServerSystem" where u: "system_run u" "manager (net u) = sevenManager"
    "core u = sampleServer\<lparr>running := True\<rparr>"
    using seven_places [of "[(3, - 4)]"] by (auto simp: placed_sample)
  have nm: "networkManager (core u) \<noteq> NoNetwork"
    by (simp add: u(3) sampleServer_def onCommandsFromNetwork_def onPlayerJoined_def newGameServer_def)
  have "cellAt (world (fst (onTick (core u)))) 3 (- 4) \<noteq> cellAt (world (core u)) 3 (- 4)"
  proof -
    have "cellAt (world (core u)) 3 (- 4) = deadCell"
      using fun_cong [OF fun_cong [OF arg_cong [OF absGame_sampleServer, of board], of 3], of "- 4"]
      by (simp add: u(3) absGame_def)
    then show ?thesis by (simp add: u(3) onTick_running sampleServer_cells sameCoord_def deadCell_def)
  qed
  moreover have "wf_server (core u)" using core_history [OF u(1)] by simp
  ultimately have "tickUpdate (core u) \<noteq> []" using change_is_sent [OF _ nm] by blast
  from tick_posts [OF nm this, unfolded u(2)] obtain u' q ts where u': "server_step u u'" "core u' = fst (onTick (core u))"
    "manager (net u') = sevenManager\<lparr>nmSeqNum := q, NetManager.posted := NetManager.posted sevenManager @ ts\<rparr>"
    "\<exists>delta q. UdpBroadcast delta q \<in> set ts"
    by blast
  obtain ws where "party_run (\<lambda>_. True) \<lparr>host = u', past = ws, players = (\<lambda>ep. newApp 0 0)\<rparr>"
    using system_party [OF system_run.step [OF u(1) u'(1)], of "\<lambda>_. True"] by (elim exE)
  then show ?thesis
    by (rule that) (use u'(4) in \<open>simp_all add: u' u(3) onTick_running sevenManager_def waitsAt_def\<close>)
qed

lemma fitting_sample:
  assumes "showsFitting m (world (fst (onTick sampleServer)))"
  shows "ownerAt m 3 (- 4) = 7"
proof -
  have "keyAt 3 (- 4) = coord 0 (- 1)" by (simp add: keyAt_def)
  then have "inRange 3 \<and> inRange (- 4) \<and> fullEntries (chunkOr (keyAt 3 (- 4)) (world (fst (onTick sampleServer)))) \<noteq> [] \<and>
      length (fullEntries (chunkOr (keyAt 3 (- 4)) (world (fst (onTick sampleServer))))) \<le> kMaxCellsPerPacket"
    by (simp add: inRange_def sampleServer_entries kMaxCellsPerPacket_def)
  with assms have "ownerAt m (word_of_int 3) (word_of_int (- 4)) = shown (cellAt (world (fst (onTick sampleServer))) 3 (- 4))"
    unfolding showsFitting_def by blast
  then show ?thesis by (simp add: sampleServer_cells sameCoord_def shown_def)
qed




end
