(* ===== verification/Still_World.thy ===== *)
theory Still_World
  imports Multiplayer
begin

section \<open>A world that stands still is hidden from who joins it\<close>

text \<open>
  The network manager sends snapshots only in place of a queued update, and a tick that changes
  no cell queues none (\<open>Quiet_Ticks\<close>). So in a world at rest a player that joins, or
  asks for a resync, is sent nothing until somebody changes a cell.
\<close>

text \<open>Nobody gives the server a command from some point of the history on.\<close>

definition idleSince :: "nat \<Rightarrow> 'ep ServerSystem \<Rightarrow> bool" where
  "idleSince k u \<longleftrightarrow> (\<forall>e \<in> set (drop k (history u)). \<forall>cmds. snd e = Send cmds \<longrightarrow> cmds = [])"

text \<open>The server is at rest: nothing will change, and no update is queued.\<close>

definition atRest :: "'ep ServerSystem \<Rightarrow> bool" where
  "atRest u \<longleftrightarrow> still (absGame (core u)) \<and> (\<forall>delta q. UdpBroadcast delta q \<notin> set (NetManager.posted (manager (net u))))"

subsection \<open>What is always clean\<close>

lemma events_frame:
  "Tick \<notin> set es \<Longrightarrow> networkManager (fold serverStep es s) = networkManager s"
proof (induction es arbitrary: s)
  case (Cons e es)
  then have "networkManager (serverStep e s) = networkManager s"
    by (cases e) (simp_all add: onPlayerJoined_def onCommandsFromNetwork_def)
  with Cons show ?case by simp
qed simp

lemma no_tick: "Tick \<notin> set (concat (map callback effs))"
  using callback_no_tick by auto

lemma system_clean: "system_run u \<Longrightarrow> networkManager (core u) \<noteq> NoNetwork \<and> clean (world (core u))"
proof (induction rule: system_run.induct)
  case start
  show ?case by (simp add: startSystem_def started_server clean_new) (simp add: newGameServer_def clean_new)
next
  case (step u u')
  from step.hyps(2) show ?case
  proof cases
    case (tick)
    with step.IH clean_onTick [of "core u"] show ?thesis by (simp add: onTick_state)
  qed (use step.IH in \<open>simp_all add: handled_def Let_def events_frame [OF no_tick] world_events [OF no_tick]\<close>)
qed

subsection \<open>Rest lasts\<close>

lemma quiet_events:
  "still g \<Longrightarrow> \<forall>e \<in> set es. e \<noteq> Tick \<and> (\<forall>cmds. e = Send cmds \<longrightarrow> cmds = []) \<Longrightarrow>
     still (fold gameStep es g) \<and> board (fold gameStep es g) = board g"
proof (induction es arbitrary: g)
  case (Cons e es)
  have "still (gameStep e g) \<and> board (gameStep e g) = board g"
    using Cons.prems by (cases e) (simp_all add: still_def)
  with Cons.IH [of "gameStep e g"] Cons.prems(2) show ?case by simp
qed simp

lemma rest_handled:
  assumes "system_run u" "atRest u" "idleSince (length (history u)) (handled op sid k r u)"
    and "NetManager.posted (fst r) = NetManager.posted (manager (net u))" "\<And>ep. datagramsTo ep (snd r) = []"
  shows "atRest (handled op sid k r u) \<and> board (absGame (core (handled op sid k r u))) = board (absGame (core u)) \<and>
    (\<forall>ep. datagramsTo ep (netLog (net (handled op sid k r u))) = datagramsTo ep (netLog (net u)))"
proof -
  let ?es = "concat (map callback (snd r))"
  have wf: "wf_server (core u)" using core_history [OF assms(1)] by simp
  have "\<forall>e \<in> set ?es. e \<noteq> Tick \<and> (\<forall>cmds. e = Send cmds \<longrightarrow> cmds = [])"
    using assms(3) no_tick [of "snd r"] by (force simp: idleSince_def handled_def Let_def)
  with quiet_events [of "absGame (core u)" ?es] assms(2) server_game.abst_run [OF wf, of ?es]
  show ?thesis
    using assms(2,4,5) by (simp add: atRest_def handled_def Let_def manager_finish datagramsTo_finish)
qed

lemma quiet_calls:
  "\<forall>delta q. UdpBroadcast delta q \<notin> set (NetManager.posted n) \<Longrightarrow> \<forall>delta. BroadcastWorldUpdate delta \<in> set cs \<longrightarrow> delta = [] \<Longrightarrow>
     \<forall>delta q. UdpBroadcast delta q \<notin> set (NetManager.posted (fold toNetwork cs n))"
proof (induction cs arbitrary: n)
  case (Cons c cs)
  have "\<forall>delta q. UdpBroadcast delta q \<notin> set (NetManager.posted (toNetwork c n))"
    using Cons.prems by (cases c) (auto simp: broadcastWorldUpdate_def broadcastServerStats_def)
  with Cons show ?case by simp
qed simp

lemma quiet_post:
  assumes "\<forall>delta q. UdpBroadcast delta q \<notin> set (NetManager.posted n)" "Boost_Network.runPosted f n = Some (n', effs)"
  shows "set (NetManager.posted n') \<subseteq> set (NetManager.posted n) \<and> (\<forall>ep. datagramsTo ep effs = [])"
proof (cases "NetManager.posted n")
  case (Cons t ts)
  with assms(1) obtain payload where t: "t = StatsBroadcast payload" by (cases t) auto
  with assms(2) Cons show ?thesis
    by (auto simp: Boost_Network.runPosted_def statsBroadcast_def datagramsTo_def)
qed (use assms(2) in \<open>auto simp: Boost_Network.runPosted_def datagramsTo_def\<close>)

lemma rest_step:
  assumes run: "system_run u" and rest: "atRest u" and st: "server_step u u'" and idle: "idleSince (length (history u)) u'"
  shows "atRest u' \<and> board (absGame (core u')) = board (absGame (core u)) \<and>
    (\<forall>ep. datagramsTo ep (netLog (net u')) = datagramsTo ep (netLog (net u)))"
  using st
proof cases
  case (tick)
  have wf: "wf_server (core u)" using core_history [OF run] by simp
  note clean = system_clean [OF run]
  from still_tick [OF wf conjunct1 [OF clean] _ conjunct2 [OF clean]] rest
  have t: "tickUpdate (core u) = []" "still (absGame (fst (onTick (core u))))"
    "board (absGame (fst (onTick (core u)))) = board (absGame (core u))" by (simp_all add: atRest_def)
  have "delta = []" if "BroadcastWorldUpdate delta \<in> set (snd (onTick (core u)))" for delta
    using that t(1) clean unfolding tickUpdate_eq [OF conjunct1 [OF clean]] onTick_calls Let_def by (simp split: if_splits)
  with quiet_calls [of "manager (net u)" "snd (onTick (core u))"] rest t(2,3) show ?thesis
    by (simp add: tick atRest_def)
next
  case (post n' effs)
  with quiet_post [OF _ post(3)] rest show ?thesis by (auto simp: atRest_def)
next
  case (accept sid ec ep)
  with rest show ?thesis
    by (simp add: atRest_def manager_finish datagramsTo_finish handlers_post_nothing handlers_send_nothing)
next
  case (peer_writes sid bs)
  with rest show ?thesis by (simp add: atRest_def)
next
  case (handshake sid)
  show ?thesis
    using rest_handled [OF run rest idle [unfolded handshake(1)]]
    by (simp add: handshake(1) handlers_post_nothing handlers_send_nothing)
next
  case (message sid t bs)
  show ?thesis
    using rest_handled [OF run rest idle [unfolded message(1)]]
    by (simp add: message(1) handlers_post_nothing handlers_send_nothing)
next
  case (body sid t)
  show ?thesis
    using rest_handled [OF run rest idle [unfolded body(1)]]
    by (simp add: body(1) handlers_post_nothing handlers_send_nothing)
next
  case (read_error op sid)
  show ?thesis
    using rest_handled [OF run rest idle [unfolded read_error(1)]] by (simp add: read_error(1) failedRead_quiet)
qed

subsection \<open>Who has been sent nothing sees nothing\<close>

lemma log_grows: "server_step u u' \<Longrightarrow> \<exists>effs. netLog (net u') = netLog (net u) @ effs"
  by (elim server_stepE) (auto simp: handled_def Let_def finish_def)

lemma unsent_sees_nothing:
  "party_run emits g \<Longrightarrow> sentTo ep g = [] \<Longrightarrow> client_once [] (players g ep)"
proof (induction rule: party_run.induct)
  case (start cx cy)
  show ?case
    by (simp add: client_once_def newApp_def newWindow_def updateNavigationPanel_def frame_simps
        onceShown_def newWorldModel_def ownerIn_def)
next
  case (step g g')
  from step.hyps(2) show ?case
  proof cases
    case (server u)
    from log_grows [OF server(2)] obtain effs where "netLog (net u) = netLog (net (host g)) @ effs" by (elim exE)
    with step show ?thesis by (simp add: server(1) sentTo_def)
  next
    case (arrive ds ep')
    with step show ?thesis
      by (cases "ep' = ep") (auto simp: withPlayer_def sentTo_def intro!: client_once_netRuns once_datagrams)
  next
    case (connect ep' w' cs h t u p)
    then have "ep' = ep \<Longrightarrow> worldModel w' = newWorldModel" using user_step_model [OF connect(2)] by auto
    with step show ?thesis
      by (cases "ep' = ep")
        (simp_all add: connect(1) withPlayer_def sentTo_def client_once_def onceShown_def newWorldModel_def ownerIn_def)
  next
    case (client ep' a)
    with step show ?thesis
      by (cases "ep' = ep") (auto simp: withPlayer_def sentTo_def intro: client_once_move)
  qed
qed

lemma rest_lasts:
  assumes "(party_step emits)\<^sup>*\<^sup>* g g'" "party_run emits g" "atRest (host g)"
    and "idleSince (length (history (host g))) (host g')"
  shows "atRest (host g') \<and> board (absGame (core (host g'))) = board (absGame (core (host g))) \<and>
    (\<forall>ep. sentTo ep g' = sentTo ep g) \<and> (\<exists>more. history (host g') = history (host g) @ more)"
  using assms
proof (induction rule: rtranclp_induct)
  case base
  then show ?case by simp
next
  case (step g1 g2)
  have run: "system_run (host g1)" by (rule party_system [OF party_run_steps [OF step.hyps(1) step.prems(1)]])
  from step.hyps(2) show ?case
  proof cases
    case (server u)
    obtain more1 where h1: "history u = history (host g1) @ more1" using history_grows [OF server(2)] by blast
    from step.prems(3) h1 server(1) have i1: "idleSince (length (history (host g))) (host g1)"
      by (auto simp: idleSince_def)
    from step.IH [OF step.prems(1,2) i1] obtain more where
      IH: "atRest (host g1)" "board (absGame (core (host g1))) = board (absGame (core (host g)))"
        "\<forall>ep. sentTo ep g1 = sentTo ep g" "history (host g1) = history (host g) @ more" by blast
    have "idleSince (length (history (host g1))) u"
      using step.prems(3) by (auto simp: server(1) idleSince_def h1 IH(4))
    from rest_step [OF run IH(1) server(2) this] IH h1 show ?thesis by (simp add: server(1) sentTo_def)
  qed (use step in \<open>simp_all add: withPlayer_def sentTo_def idleSince_def\<close>)
qed

text \<open>
  C34. A world at rest is hidden from who joins it: when the rule changes no cell, no command is
  waiting and no update is queued, then, however the party goes on without a command that
  reaches the server (players join, resync requests are read, ticks and statistics pass, clients connect anew), the cells stay as they
  are, no endpoint is sent any datagram, and the window of a player that had been sent none
  shows no cell at all.
\<close>

theorem still_world_is_hidden:
  assumes "party_run emits g" "atRest (host g)" "(party_step emits)\<^sup>*\<^sup>* g g'"
    and "idleSince (length (history (host g))) (host g')"
  shows "board (absGame (core (host g'))) = board (absGame (core (host g))) \<and>
    (\<forall>ep. sentTo ep g' = sentTo ep g) \<and>
    (\<forall>ep x y. sentTo ep g = [] \<longrightarrow> ownerAt (worldModel (window (players g' ep))) x y = 0)"
proof -
  note rest = rest_lasts [OF assms(3,1,2,4)]
  have "ownerAt (worldModel (window (players g' ep))) x y = 0" if "sentTo ep g = []" for ep x y
  proof -
    have "client_once [] (players g' ep)"
      by (rule unsent_sees_nothing [OF party_run_steps [OF assms(3,1)]]) (use rest that in simp)
    then show ?thesis by (auto simp: client_once_def onceShown_def ownerAt_ownerIn)
  qed
  with rest show ?thesis by blast
qed

subsection \<open>A block of four cells\<close>

text \<open>
  Player 7 places a block, which the rule keeps as it is; the tick's update is sent. Whoever joins
  from another endpoint is not told of it.
\<close>

definition inBlock :: "int \<Rightarrow> bool" where
  "inBlock X \<longleftrightarrow> sameCoord X 0 \<or> sameCoord X 1"

definition blockBoard :: Grid where
  "blockBoard = (\<lambda>X Y. if inBlock X \<and> inBlock Y then \<lparr>alive = True, owner = 7\<rparr> else deadCell)"

lemma inBlock_mod: "inBlock X \<longleftrightarrow> X mod 2 ^ 38 = 0 \<or> X mod 2 ^ 38 = 1"
  by (simp add: inBlock_def sameCoord_def)

lemma block_line:
  "(\<not> inBlock (X - 1) \<and> \<not> inBlock X \<and> \<not> inBlock (X + 1)) \<or> (\<not> inBlock (X - 1) \<and> \<not> inBlock X \<and> inBlock (X + 1)) \<or>
   (\<not> inBlock (X - 1) \<and> inBlock X \<and> inBlock (X + 1)) \<or> (inBlock (X - 1) \<and> inBlock X \<and> \<not> inBlock (X + 1)) \<or>
   (inBlock (X - 1) \<and> \<not> inBlock X \<and> \<not> inBlock (X + 1))"
proof -
  obtain N :: int where N: "2 ^ 38 = N" "4 < N" by simp
  define r where "r = X mod N"
  have r: "0 \<le> r" "r < N" using N(2) by (simp_all add: r_def)
  have at: "inBlock (X + d) \<longleftrightarrow> (r + d) mod N = 0 \<or> (r + d) mod N = 1" for d
    by (simp only: inBlock_mod N(1) r_def mod_add_left_eq)
  have next_mod: "(r + 1) mod N = (if r = N - 1 then 0 else r + 1)" using r by simp
  have prev_mod: "(r + - 1) mod N = (if r = 0 then N - 1 else r - 1)"
  proof (cases "r = 0")
    case True
    have "(- 1) mod N = N - 1" using N(2) by (intro zmod_minus1) simp
    with True show ?thesis by simp
  next
    case False
    with r show ?thesis by simp
  qed
  have "inBlock X \<longleftrightarrow> r = 0 \<or> r = 1" by (simp only: inBlock_mod N(1) r_def)
  moreover have "inBlock (X + 1) \<longleftrightarrow> r = N - 1 \<or> r = 0"
    unfolding at next_mod using r by auto
  moreover have "inBlock (X + - 1) \<longleftrightarrow> r = 1 \<or> r = 2"
    unfolding at prev_mod using N(2) by (cases "r = 0") auto
  then have "inBlock (X - 1) \<longleftrightarrow> r = 1 \<or> r = 2" by simp
  ultimately show ?thesis using N(2) by (cases "r = 0"; cases "r = 1"; cases "r = 2") simp_all
qed

lemma block_cell:
  "alive (blockBoard X Y) \<longleftrightarrow> inBlock X \<and> inBlock Y" "isOwned (blockBoard X Y) \<longleftrightarrow> inBlock X \<and> inBlock Y"
  by (simp_all add: blockBoard_def isOwned_def deadCell_def)

lemma block_still: "lifeStep blockBoard = blockBoard"
proof (intro ext)
  fix X Y
  have offsets: "map (\<lambda>(dx, dy). blockBoard (X + dx) (Y + dy)) neighbourOffsets =
      [blockBoard (X - 1) (Y - 1), blockBoard X (Y - 1), blockBoard (X + 1) (Y - 1), blockBoard (X - 1) Y,
       blockBoard (X + 1) Y, blockBoard (X - 1) (Y + 1), blockBoard X (Y + 1), blockBoard (X + 1) (Y + 1)]"
    by (simp add: neighbourOffsets_def)
  let ?n = "length (ownersOf (map (\<lambda>(dx, dy). blockBoard (X + dx) (Y + dy)) neighbourOffsets))"
  have "(inBlock X \<and> inBlock Y \<longrightarrow> ?n = 3) \<and> (\<not> (inBlock X \<and> inBlock Y) \<longrightarrow> ?n \<noteq> 3)"
    unfolding offsets ownersOf_def length_map
    using block_line [of X] block_line [of Y] by (elim disjE conjE) (simp_all add: block_cell)
  then show "lifeStep blockBoard X Y = blockBoard X Y"
    unfolding lifeStep_def lifeRule_def Let_def by (simp add: block_cell)
qed

definition blockCells :: "(u64 \<times> u64) list" where
  "blockCells = [(0, 0), (1, 0), (0, 1), (1, 1)]"

lemma block_placed: "absGame (placed blockCells) = \<lparr>board = (\<lambda>X Y. deadCell), accounts = [7 \<mapsto> 10],
    waiting = map (\<lambda>(x, y). \<lparr>cmdPlayerId = 7, cmdType = PlaceCell, cmdX = x, cmdY = y\<rparr>) blockCells\<rparr>"
proof -
  have wf: "wf_server ((newGameServer BoostNetwork)\<lparr>running := True\<rparr>)"
    using wf_newGameServer [of BoostNetwork] by (simp add: wf_server_def)
  have "absGame ((newGameServer BoostNetwork)\<lparr>running := True\<rparr>) = emptyGame"
    using absGame_start [of BoostNetwork] by (simp add: absGame_def)
  with server_game.abst_run [OF wf, of "Join 7 # map (\<lambda>c. Send [c])
      (map (\<lambda>(x, y). \<lparr>cmdPlayerId = 7, cmdType = PlaceCell, cmdX = x, cmdY = y\<rparr>) blockCells)"]
  show ?thesis by (simp add: placed_def started_server blockCells_def emptyGame_def)
qed

lemma block_ticked: "board (gameStep Tick (absGame (placed blockCells))) = blockBoard"
proof -
  have apart: "\<not> sameCoord 0 1" "\<not> sameCoord 1 0" by (simp_all add: sameCoord_def)
  have "fst (fold gameCommand (waiting (absGame (placed blockCells))) (\<lambda>X Y. deadCell, [7 \<mapsto> 10])) X Y = blockBoard X Y" for X Y
    unfolding block_placed by (simp add: blockCells_def gameCommand_def apart deadCell_def blockBoard_def inBlock_def) blast
  then have "fst (fold gameCommand (waiting (absGame (placed blockCells))) (\<lambda>X Y. deadCell, [7 \<mapsto> 10])) = blockBoard"
    by (intro ext)
  then show ?thesis by (simp add: block_placed lifeStep_dead case_prod_beta Let_def)
qed

theorem still_world_is_hidden_witness:
  "\<exists>g :: nat Party. party_run (\<lambda>_. True) g \<and> board (absGame (core (host g))) = blockBoard \<and>
    ownerAt (worldModel (window (players g 2))) 0 0 = 0"
proof -
  obtain u :: "nat ServerSystem" where u: "system_run u" "manager (net u) = sevenManager"
    "core u = placed blockCells" "\<forall>ep. datagramsTo ep (netLog (net u)) = []"
    using seven_places [of blockCells] by blast
  have wf: "wf_server (core u)" using core_history [OF u(1)] by simp
  note nm = conjunct1 [OF system_clean [OF u(1)]]
  have game: "absGame (fst (onTick (core u))) = gameStep Tick (absGame (core u))" by (rule absGame_tick [OF wf])
  then have board: "board (absGame (fst (onTick (core u)))) = blockBoard" by (simp only: u(3) block_ticked)
  have "tickUpdate (core u) \<noteq> []"
  proof (rule change_is_sent [OF wf nm])
    have "cellAt (world (core u)) 0 0 = deadCell"
      using arg_cong [OF block_placed, of board] by (simp add: u(3) absGame_def fun_eq_iff)
    moreover have "cellAt (world (fst (onTick (core u)))) 0 0 = \<lparr>alive = True, owner = 7\<rparr>"
      using board by (simp add: absGame_def blockBoard_def inBlock_def)
    ultimately show "cellAt (world (fst (onTick (core u)))) 0 0 \<noteq> cellAt (world (core u)) 0 0"
      by (simp add: deadCell_def)
  qed
  from tick_posts [OF nm this] obtain u' q ts where u': "server_step u u'" "core u' = fst (onTick (core u))"
    "manager (net u') = (manager (net u))\<lparr>nmSeqNum := q, NetManager.posted := NetManager.posted (manager (net u)) @ ts\<rparr>"
    "netLog (net u') = netLog (net u)" by blast
  obtain ws where run: "party_run (\<lambda>_. True) \<lparr>host = u', past = ws, players = (\<lambda>ep. newApp 0 0)\<rparr>"
    using system_party [OF system_run.step [OF u(1) u'(1)], of "\<lambda>_. True"] by (elim exE)
  have "\<exists>g' :: nat Party. (party_step (\<lambda>_. True))\<^sup>*\<^sup>* \<lparr>host = u', past = ws, players = (\<lambda>ep. newApp 0 0)\<rparr> g' \<and>
      core (host g') = core u' \<and> NetManager.posted (manager (net (host g'))) = [] \<and> sentTo 2 g' = []"
    using posts_drain [OF run, of 2] u(4) by (simp add: u' u(2) sevenManager_def sentTo_def)
  then obtain g' :: "nat Party" where g': "(party_step (\<lambda>_. True))\<^sup>*\<^sup>* \<lparr>host = u', past = ws, players = (\<lambda>ep. newApp 0 0)\<rparr> g'"
    "core (host g') = core u'" "NetManager.posted (manager (net (host g'))) = []" "sentTo 2 g' = []"
    by (elim exE conjE)
  have r: "party_run (\<lambda>_. True) g'" by (rule party_run_steps [OF g'(1) run])
  have b: "board (absGame (core (host g'))) = blockBoard" using board by (simp add: g'(2) u'(2))
  have "waiting (absGame (core (host g'))) = []" by (simp add: g'(2) u'(2) absGame_def onTick_state emptyQueue_def)
  then have rest: "atRest (host g')" using b g'(3) by (simp add: atRest_def still_def block_still)
  have idle: "idleSince (length (history (host g'))) (host g')" by (simp add: idleSince_def)
  from still_world_is_hidden [OF r rest _ idle] g'(4) r b show ?thesis by blast
qed

end
