(* ===== verification/World_Growth.thy ===== *)
theory World_Growth
  imports Game_Server
begin

section \<open>How the map of chunks grows\<close>

text \<open>
  Chunks are created at two places, by the simulation margin and by commands, and never
  removed. The lemmas follow the list of keys through every operation of a tick.
\<close>

abbreviation keys :: "World \<Rightarrow> ChunkCoord list" where
  "keys w \<equiv> map fst (chunks w)"

definition liveChunks :: "World \<Rightarrow> (ChunkCoord \<times> Chunk) list" where
  "liveChunks w = filter (\<lambda>(c, ch). hasLiveCells ch) (chunks w)"

definition commandChunk :: "PlayerCommand \<Rightarrow> ChunkCoord" where
  "commandChunk cmd = coord (chunkOfGlobal (sint (cmdX cmd))) (chunkOfGlobal (sint (cmdY cmd)))"

text \<open>\<open>w'\<close> has the keys of \<open>w\<close> and at most \<open>n\<close> new ones, all of them in \<open>S\<close>.\<close>

definition grows :: "ChunkCoord set \<Rightarrow> nat \<Rightarrow> World \<Rightarrow> World \<Rightarrow> bool" where
  "grows S n w w' \<longleftrightarrow> (\<exists>new. keys w' = keys w @ new \<and> length new \<le> n \<and> set new \<subseteq> S)"

lemma grows_same: "keys w' = keys w \<Longrightarrow> grows S 0 w w'"
  by (simp add: grows_def)

lemma grows_trans: "grows S m w w' \<Longrightarrow> grows S n w' w'' \<Longrightarrow> grows S (m + n) w w''"
  unfolding grows_def by force

lemma grows_mono: "grows S m w w' \<Longrightarrow> S \<subseteq> T \<Longrightarrow> m \<le> n \<Longrightarrow> grows T n w w'"
  unfolding grows_def by force

lemma grows_keys: "grows S n w w' \<Longrightarrow> keys w' = keys w'' \<Longrightarrow> grows S n w w''"
  by (simp add: grows_def)

lemma grows_getOrCreate: "c \<in> S \<Longrightarrow> grows S 1 w (snd (getOrCreateChunkUnlocked c w))"
  by (auto simp: grows_def getOrCreateChunkUnlocked_def split: option.split)

lemma grows_fold:
  assumes "\<And>x w. x \<in> set xs \<Longrightarrow> grows S 1 w (f x w)"
  shows "grows S (length xs) w (fold f xs w)"
  using assms
proof (induction xs arbitrary: w)
  case Nil
  then show ?case by (simp add: grows_same)
next
  case (Cons x xs)
  then have "grows S 1 w (f x w)" "grows S (length xs) (f x w) (fold f xs (f x w))" by simp_all
  from grows_trans [OF this] show ?case by simp
qed

definition marginOf :: "World \<Rightarrow> ChunkCoord set" where
  "marginOf w = {neighbourCoord c d | c d. c \<in> fst ` set (liveChunks w) \<and> d \<in> set neighbourOffsets}"

lemma length_chunksToCreate: "length (chunksToCreate w) \<le> 8 * length (liveChunks w)"
proof -
  have "length (concat (map (\<lambda>(c, ch). if \<not> hasLiveCells ch then []
      else filter (\<lambda>n. map_of (chunks w) n = None) (map (neighbourCoord c) neighbourOffsets)) cs)) \<le>
    8 * length (filter (\<lambda>(c, ch). hasLiveCells ch) cs)" for cs
  proof (induction cs)
    case (Cons e cs)
    obtain c ch where e: "e = (c, ch)" by fastforce
    have "length (filter P (map f neighbourOffsets)) \<le> 8" for P and f :: "int \<times> int \<Rightarrow> ChunkCoord"
      using length_filter_le [of P "map f neighbourOffsets"] by (simp add: neighbourOffsets_def)
    from add_mono [OF this Cons] Cons show ?case by (simp add: e)
  qed simp
  then show ?thesis by (simp add: chunksToCreate_def liveChunks_def)
qed

lemma set_chunksToCreate: "set (chunksToCreate w) \<subseteq> marginOf w"
  by (force simp: chunksToCreate_def marginOf_def liveChunks_def split: if_splits)

lemma grows_margin: "grows (marginOf w) (8 * length (liveChunks w)) w (ensureSimulationMarginUnlocked w)"
proof -
  have "grows (marginOf w) (length (chunksToCreate w)) w (ensureSimulationMarginUnlocked w)"
    unfolding ensureSimulationMarginUnlocked_def
    by (rule grows_fold) (use grows_getOrCreate set_chunksToCreate in blast)
  then show ?thesis using length_chunksToCreate by (rule grows_mono [OF _ subset_refl])
qed

lemma keys_exchange: "keys (fold exchangeChunk ks w) = keys w"
  by (induction ks arbitrary: w) (simp_all add: exchangeChunk_def keys_modifyChunk)

lemma keys_simulateGeneration: "keys (simulateGeneration w) = keys (ensureSimulationMarginUnlocked w)"
  by (simp add: simulateGeneration_def exchangeBorders_def Let_def keys_exchange)

lemma grows_applyCommand: "commandChunk cmd \<in> S \<Longrightarrow> grows S 1 (fst wr) (fst (applyCommand cmd wr))"
  using grows_getOrCreate [of "commandChunk cmd" S "fst wr"]
  by (cases wr) (simp add: applyCommand_def commandChunk_def Let_def case_prod_beta grows_def keys_modifyChunk)

lemma grows_applyCommands:
  "\<forall>cmd \<in> set cmds. commandChunk cmd \<in> S \<Longrightarrow> grows S (length cmds) (fst wr) (fst (applyCommands cmds wr))"
proof (induction cmds arbitrary: wr)
  case Nil
  then show ?case by (simp add: grows_same)
next
  case (Cons cmd cmds)
  then have "grows S 1 (fst wr) (fst (applyCommand cmd wr))"
    "grows S (length cmds) (fst (applyCommand cmd wr)) (fst (applyCommands cmds (applyCommand cmd wr)))"
    by (simp_all add: grows_applyCommand del: One_nat_def)
  from grows_trans [OF this] show ?case by simp
qed

text \<open>
  C29. How fast the world grows: a tick removes no chunk, and the chunks it adds are neighbours of
  chunks with live cells, at most eight for each, and the chunks the waiting commands
  address, at most one for each.
\<close>

theorem tick_growth:
  "\<exists>new. map fst (chunks (world (fst (onTick s)))) = map fst (chunks (world s)) @ new \<and>
     length new \<le> 8 * length (liveChunks (world s)) + length (queue (commandQueue s)) \<and>
     set new \<subseteq> marginOf (world s) \<union> commandChunk ` set (queue (commandQueue s))"
proof -
  let ?cmds = "queue (commandQueue s)" and ?w1 = "simulateGeneration (world s)"
  let ?S = "marginOf (world s) \<union> commandChunk ` set ?cmds"
  have "grows ?S (8 * length (liveChunks (world s))) (world s) ?w1"
    by (rule grows_mono [OF grows_keys [OF grows_margin keys_simulateGeneration [symmetric]]]) simp_all
  moreover have "grows ?S (length ?cmds) ?w1 (fst (afterCommands s))"
    unfolding afterCommands_def
    using grows_applyCommands [of ?cmds ?S "(?w1, resources s)"] unfolding fst_conv by blast
  ultimately have "grows ?S (8 * length (liveChunks (world s)) + length ?cmds) (world s) (fst (afterCommands s))"
    by (rule grows_trans)
  moreover have "keys (world (fst (onTick s))) = keys (fst (afterCommands s))"
    by (simp add: onTick_state case_prod_beta)
  ultimately show ?thesis by (simp add: grows_def)
qed

end
