(* ===== verification/World_Debug.thy ===== *)
theory World_Debug
  imports Server_World
begin

section \<open>What World::printDebugState prints\<close>

text \<open>
  The data the debug output of a tick is made of, in the order it is printed: the players with
  their balances, the number of chunks, and for each chunk its live cells, in total and by
  owner. Printing them is not modelled.
\<close>

definition chunkDebug :: "Chunk \<Rightarrow> nat \<times> (PlayerId \<times> nat) list" where
  "chunkDebug ch =
     fold (\<lambda>x acc. fold (\<lambda>y (totalAlive, ownerCounts).
         let cell = getCell ch x y
         in if alive cell then (totalAlive + 1, add_at (owner cell) 1 ownerCounts)
            else (totalAlive, ownerCounts)) [0..<ChunkHeight] acc) [0..<ChunkWidth] (0, [])"

definition debugState ::
  "World \<Rightarrow> ResourceManager \<Rightarrow>
   (PlayerId \<times> u64) list \<times> nat \<times> (ChunkCoord \<times> nat \<times> (PlayerId \<times> nat) list) list" where
  "debugState w r = (map (\<lambda>p. (p, getBalance r p)) (getPlayerIds r), length (chunks w),
     map (\<lambda>(c, ch). (c, chunkDebug ch)) (chunks w))"

lemma sum_add_at: "sum_list (map snd (add_at k (n :: nat) m)) = sum_list (map snd m) + n"
proof -
  let ?old = "case map_of m k of None \<Rightarrow> 0 | Some u \<Rightarrow> u"
  have "sum_list (map snd (AList.update k v m)) + ?old = sum_list (map snd m) + v" for v
    by (induction m) (auto split: option.splits)
  from this [of "?old + n"] show ?thesis by (simp add: add_at_def)
qed

text \<open>The owners' counts of a chunk add up to its total.\<close>

lemma chunkDebug_total: "fst (chunkDebug ch) = sum_list (map snd (snd (chunkDebug ch)))"
proof -
  let ?f = "\<lambda>x y (t, m). let cell = getCell ch x y
      in if alive cell then (t + 1, add_at (owner cell) 1 m) else (t :: nat, m)"
  let ?I = "\<lambda>acc. fst acc = sum_list (map snd (snd acc))"
  have "?I acc \<Longrightarrow> ?I (fold (?f x) ys acc)" for x ys acc
    by (induction ys arbitrary: acc) (auto simp: Let_def case_prod_beta sum_add_at)
  then have "?I acc \<Longrightarrow> ?I (fold (\<lambda>x acc. fold (?f x) [0..<ChunkHeight] acc) xs acc)" for xs acc
    by (induction xs arbitrary: acc) auto
  from this [of "(0, [])"] show ?thesis by (simp add: chunkDebug_def)
qed

end
