(* ===== verification/Client_Loops.thy ===== *)
theory Client_Loops
  imports Client_Network
begin

section \<open>The client's reading loops return\<close>

text \<open>
  The two \<open>while (true)\<close> loops on the statistics stream, the parser's and \<open>onTcpReadyRead\<close>'s,
  written as the code has them, as partial functions in which not returning is the result
  \<open>None\<close>. They return on every buffer, with the results of the functions that model them
  elsewhere.
\<close>

partial_function (option) parseLoop ::
  "byte list \<Rightarrow> (ParsedServerStatsMessage option \<times> byte list) option" where
  "parseLoop streamBuffer =
     (if length streamBuffer < kServerStatsHeader then Some (None, streamBuffer)
      else if streamBuffer ! 0 \<noteq> kMsgServerStats then parseLoop (drop 1 streamBuffer)
      else
        let gen = readLE (drop 1 streamBuffer);
            playerCount = unat (readLE (drop 5 streamBuffer) :: u16);
            packetSize = kServerStatsHeader + playerCount * kServerStatsEntry
        in if length streamBuffer < packetSize then Some (None, streamBuffer)
           else Some (Some \<lparr>statsGeneration = gen,
               statsPlayers = parseStatsEntries playerCount (drop kServerStatsHeader streamBuffer)\<rparr>,
             drop packetSize streamBuffer))"

partial_function (option) readLoop ::
  "byte list \<Rightarrow> ClientEffect list \<Rightarrow> (ClientEffect list \<times> byte list) option" where
  "readLoop buffer emitted = (case parseLoop buffer of
     None \<Rightarrow> None
   | Some (None, rest) \<Rightarrow> Some (emitted, rest)
   | Some (Some m, rest) \<Rightarrow>
       readLoop rest (emitted @ [ServerStatsUpdated (statsGeneration m) (statsPlayers m)]))"

lemma parseLoop_returns: "parseLoop b = Some (tryParseServerStatsMessage b)"
proof (induction b rule: tryParseServerStatsMessage.induct)
  case (1 b)
  then show ?case
    by (simp add: parseLoop.simps [of b] tryParseServerStatsMessage.simps [of b] Let_def)
qed

lemma readLoop_readStats:
  "readLoop b emitted = (let (ms, rest) = readStats b
     in Some (emitted @ map (\<lambda>m. ServerStatsUpdated (statsGeneration m) (statsPlayers m)) ms, rest))"
proof (induction b arbitrary: emitted rule: readStats.induct)
  case (1 b)
  obtain om rest where p: "tryParseServerStatsMessage b = (om, rest)" by fastforce
  then show ?case
  proof (cases om)
    case None
    with p show ?thesis by (simp add: readLoop.simps [of b] readStats.simps [of b] parseLoop_returns)
  next
    case (Some m)
    with p 1 [OF p [symmetric] Some] show ?thesis
      by (simp add: readLoop.simps [of b] readStats.simps [of b] parseLoop_returns case_prod_beta Let_def)
  qed
qed

text \<open>
  C33. Reading the statistics stream always returns: whatever bytes the buffer and the socket
  hold, the nested loops of \<open>onTcpReadyRead\<close> end, with the signals and the rest that the
  slot's model has.
\<close>

theorem stats_reader_returns:
  "readLoop (tcpReadBuffer c @ received) [] =
     Some (snd (onTcpReadyRead received c), tcpReadBuffer (fst (onTcpReadyRead received c)))"
  by (simp add: readLoop_readStats onTcpReadyRead_def case_prod_beta Let_def)

end
