(* ===== verification/Connection_Settings.thy ===== *)
theory Connection_Settings
  imports Client_App
begin

section \<open>The connection dialog and its saved settings\<close>

text \<open>
  \<open>QSettings\<close> is a map from keys to variants. What Qt's conversions make of a variant or a text
  (\<open>toString\<close>, \<open>toUInt\<close>, \<open>toULongLong\<close>, \<open>QString::number\<close>, \<open>trimmed\<close>) are arguments, collected
  in a record; the port's \<open>uint\<close> is cut to 16 bits by its assignment to \<open>quint16\<close>.
\<close>

datatype Variant = TextValue string | NumberValue nat

record QtConversions =
  toString :: "Variant \<Rightarrow> string"
  toUInt :: "Variant \<Rightarrow> u32"
  toULongLong :: "string \<Rightarrow> u64 option"
  number :: "u64 \<Rightarrow> string"
  trimmed :: "string \<Rightarrow> string"

type_synonym Settings = "string \<rightharpoonup> Variant"

definition settingsValue :: "Settings \<Rightarrow> string \<Rightarrow> Variant \<Rightarrow> Variant" where
  "settingsValue s key defaultValue = (case s key of None \<Rightarrow> defaultValue | Some v \<Rightarrow> v)"

definition loadConnectionSettings :: "QtConversions \<Rightarrow> u64 \<Rightarrow> Settings \<Rightarrow> ConnectionParams" where
  "loadConnectionSettings q random s =
     (let params = defaultParams\<lparr>paramPlayerId := random\<rparr>
      in \<lparr>paramHost = toString q (settingsValue s ''network/host'' (TextValue (paramHost params))),
          paramTcpPort = ucast (toUInt q (settingsValue s ''network/tcpPort'' (NumberValue (unat (paramTcpPort params))))),
          paramUdpPort = ucast (toUInt q (settingsValue s ''network/udpPort'' (NumberValue (unat (paramUdpPort params))))),
          paramPlayerId = (case toULongLong q (toString q (settingsValue s ''network/playerId''
              (TextValue (number q (paramPlayerId params))))) of None \<Rightarrow> 0 | Some v \<Rightarrow> v)\<rparr>)"

definition saveConnectionSettings :: "QtConversions \<Rightarrow> ConnectionParams \<Rightarrow> Settings \<Rightarrow> Settings" where
  "saveConnectionSettings q params s = s
     (''network/host'' \<mapsto> TextValue (paramHost params),
      ''network/tcpPort'' \<mapsto> NumberValue (unat (paramTcpPort params)),
      ''network/udpPort'' \<mapsto> NumberValue (unat (paramUdpPort params)),
      ''network/playerId'' \<mapsto> TextValue (number q (paramPlayerId params)))"

text \<open>A spin box moves a value outside its range to the nearest end.\<close>

definition spinValue :: "u16 \<Rightarrow> int" where
  "spinValue v = max 1 (min 65535 (uint v))"

definition newDialog :: "QtConversions \<Rightarrow> ConnectionParams \<Rightarrow> ConnectionDialog" where
  "newDialog q defaults = \<lparr>hostEdit = paramHost defaults, tcpPortSpin = spinValue (paramTcpPort defaults),
     udpPortSpin = spinValue (paramUdpPort defaults), playerIdEdit = number q (paramPlayerId defaults)\<rparr>"

text \<open>What Qt documents of its conversions, for one set of parameters.\<close>

definition converts :: "QtConversions \<Rightarrow> ConnectionParams \<Rightarrow> bool" where
  "converts q p \<longleftrightarrow> (\<forall>t \<in> {paramHost p, number q (paramPlayerId p)}. toString q (TextValue t) = t) \<and>
     (\<forall>v \<in> {paramTcpPort p, paramUdpPort p}. toUInt q (NumberValue (unat v)) = ucast v) \<and>
     toULongLong q (number q (paramPlayerId p)) = Some (paramPlayerId p) \<and> trimmed q (paramHost p) = paramHost p"

lemma load_save:
  assumes "converts q p"
  shows "loadConnectionSettings q random (saveConnectionSettings q p s) = p"
proof -
  have "ucast (ucast v :: u32) = v" for v :: u16 by (rule bit_word_eqI) (simp add: bit_simps)
  with assms show ?thesis
    by (simp add: loadConnectionSettings_def saveConnectionSettings_def settingsValue_def converts_def Let_def)
qed

lemma spinValue_word: "v \<noteq> 0 \<Longrightarrow> word_of_int (spinValue v) = v"
proof -
  assume "v \<noteq> 0"
  then have "uint v \<noteq> 0" by (simp add: uint_0_iff)
  then have "0 < uint v" using uint_ge_0 [of v] by linarith
  moreover have "uint v < 65536" using uint_lt2p [of v] by simp
  ultimately have "spinValue v = uint v" by (simp add: spinValue_def)
  then show ?thesis by simp
qed

text \<open>
  Settings survive: after a successful connection, opening the dialog again, in this or the
  next run of the program, and accepting it unchanged gives the same host, ports and
  player, so a player keeps the identifier that was drawn at random the first time.
\<close>

theorem settings_survive:
  assumes "converts q p" "wf_params p"
  shows "snd (acceptDialog (toULongLong q) (trimmed q) text
    (newDialog q (loadConnectionSettings q random (saveConnectionSettings q p s)))) = Some p"
  using assms by (simp add: load_save acceptDialog_def newDialog_def converts_def wf_params_def spinValue_word)

definition sampleConversions :: QtConversions where
  "sampleConversions = \<lparr>toString = (\<lambda>v. case v of TextValue t \<Rightarrow> t | NumberValue _ \<Rightarrow> []),
     toUInt = (\<lambda>v. case v of TextValue _ \<Rightarrow> 0 | NumberValue n \<Rightarrow> word_of_nat n),
     toULongLong = (\<lambda>t. Some (word_of_nat (length t))), number = (\<lambda>v. replicate (unat v) CHR ''1''),
     trimmed = id\<rparr>"

theorem settings_survive_witness:
  "snd (acceptDialog (toULongLong sampleConversions) id [] (newDialog sampleConversions
     (loadConnectionSettings sampleConversions 9 (saveConnectionSettings sampleConversions defaultParams Map.empty)))) =
   Some defaultParams"
proof -
  have "converts sampleConversions defaultParams" "wf_params defaultParams"
    by (simp_all add: converts_def sampleConversions_def defaultParams_def wf_params_def)
  from settings_survive [OF this] show ?thesis by (simp add: sampleConversions_def)
qed

end
