(* ===== verification/Grid_Paint.thy ===== *)
theory Grid_Paint
  imports Grid_View
begin

section \<open>InfiniteGridView: what is painted over the grid\<close>

text \<open>
  \<open>drawForeground\<close> as the sequence of its calls of the painter. The scalar arithmetic of the
  code, on \<open>qreal\<close> and \<open>float\<close>, is a record of operations; so are the view's transformation, the
  rectangle to repaint (its edges rounded, as \<open>visibleCells\<close> takes them) and its overlap test.
\<close>

subsection \<open>Scalars\<close>

record ('f, 'r) Scalars =
  literal :: "int \<Rightarrow> nat \<Rightarrow> 'r" \<comment> \<open>\<open>literal m d\<close> is the constant \<open>m\<close> times \<open>10\<close> to the \<open>- d\<close>\<close>
  ofInt64 :: "u64 \<Rightarrow> 'r"
  widen :: "'f \<Rightarrow> 'r"
  oneF :: 'f
  qAdd :: "'r \<Rightarrow> 'r \<Rightarrow> 'r"
  qSub :: "'r \<Rightarrow> 'r \<Rightarrow> 'r"
  qMul :: "'r \<Rightarrow> 'r \<Rightarrow> 'r"
  qDiv :: "'r \<Rightarrow> 'r \<Rightarrow> 'r"
  qLess :: "'r \<Rightarrow> 'r \<Rightarrow> bool"
  qAbs :: "'r \<Rightarrow> 'r"
  qMin :: "'r \<Rightarrow> 'r \<Rightarrow> 'r"
  qMax :: "'r \<Rightarrow> 'r \<Rightarrow> 'r"

subsection \<open>Painting\<close>

text \<open>\<open>OwnerBrush h a\<close> is the colour of hue \<open>h\<close>, saturation 220 and value 230, with opacity \<open>a\<close>.\<close>

datatype 'f Brush = OwnerBrush u64 'f | HatchBrush "nat \<times> nat \<times> nat \<times> nat"

datatype 'r Rect = Rect (rectX: 'r) (rectY: 'r) (rectW: 'r) (rectH: 'r)

datatype ('f, 'r) PaintCall = SetNoPen | SetBrush "'f Brush" | DrawRect "'r Rect"

definition foregroundSize :: "('f, 'r) Scalars \<Rightarrow> 'r \<Rightarrow> 'r \<Rightarrow> 'r" where
  "foregroundSize sc m11 m22 =
     (let s = qMin sc (qAbs sc m11) (qAbs sc m22);
          scale = (if qLess sc s (literal sc 1 4) then literal sc 1 4 else s);
          minSceneSize = qDiv sc (literal sc 2 0) scale
      in qMax sc (literal sc 1 0) minSceneSize)"

definition lifeOf :: "('f, 'r) Scalars \<Rightarrow> 'f Visuals \<Rightarrow> CellKey \<Rightarrow> 'f" where
  "lifeOf sc visuals key = (case map_of visuals key of Some v \<Rightarrow> life v | None \<Rightarrow> oneF sc)"

definition cellRect :: "('f, 'r) Scalars \<Rightarrow> 'r \<Rightarrow> CellKey \<Rightarrow> 'f \<Rightarrow> 'r Rect" where
  "cellRect sc drawSize key t =
     (let animatedSize = qMul sc drawSize (qAdd sc (literal sc 4 1) (qMul sc (literal sc 6 1) (widen sc t)));
          animatedOffset = qMul sc (qSub sc animatedSize (literal sc 1 0)) (literal sc 5 1)
      in Rect (qSub sc (ofInt64 sc (keyX key)) animatedOffset) (qSub sc (ofInt64 sc (keyY key)) animatedOffset)
           animatedSize animatedSize)"

definition paintCell ::
  "('f, 'r) Scalars \<Rightarrow> 'r \<Rightarrow> 'f Visuals \<Rightarrow> AliveCell \<Rightarrow> ('f, 'r) PaintCall list" where
  "paintCell sc drawSize visuals cell =
     (let key = CellKey (cellX cell) (cellY cell); t = lifeOf sc visuals key
      in [SetBrush (OwnerBrush (ownerHue (cellOwnerId cell)) t), DrawRect (cellRect sc drawSize key t)])"

definition markRect :: "('f, 'r) Scalars \<Rightarrow> 'r \<Rightarrow> CellKey \<Rightarrow> 'r Rect" where
  "markRect sc drawSize key =
     (let offset = qMul sc (qSub sc drawSize (literal sc 1 0)) (literal sc 5 1)
      in Rect (qSub sc (ofInt64 sc (keyX key)) offset) (qSub sc (ofInt64 sc (keyY key)) offset) drawSize drawSize)"

definition paintPending ::
  "('f, 'r) Scalars \<Rightarrow> 'r \<Rightarrow> ('r Rect \<Rightarrow> bool) \<Rightarrow> CellKey \<times> nat \<Rightarrow> ('f, 'r) PaintCall list" where
  "paintPending sc drawSize intersects entry = (case entry of (key, action) \<Rightarrow>
     (let r = markRect sc drawSize key
      in if \<not> intersects r then [] else [SetBrush (HatchBrush (pendingColor action)), DrawRect r]))"

definition drawForeground ::
  "('f, 'r) Scalars \<Rightarrow> 'r \<Rightarrow> 'r \<Rightarrow> int \<times> int \<times> int \<times> int \<Rightarrow> ('r Rect \<Rightarrow> bool) \<Rightarrow>
   WorldModel option \<Rightarrow> 'f Visuals \<Rightarrow> (CellKey \<times> nat) list \<Rightarrow> ('f, 'r) PaintCall list" where
  "drawForeground sc m11 m22 bounds intersects model visuals pending = (case model of
     None \<Rightarrow> []
   | Some m \<Rightarrow>
       (let (leftX, topY, rightX, bottomY) = bounds;
            cells = visibleCells leftX topY rightX bottomY m;
            drawSize = foregroundSize sc m11 m22
        in [SetNoPen] @ concat (map (paintCell sc drawSize visuals) cells) @
           (if pending \<noteq> [] then concat (map (paintPending sc drawSize intersects) pending) else [])))"

subsection \<open>Fills\<close>

text \<open>What a sequence of calls fills: each rectangle with the brush set before it, in order.\<close>

fun fills :: "'f Brush option \<Rightarrow> ('f, 'r) PaintCall list \<Rightarrow> ('f Brush option \<times> 'r Rect) list" where
  "fills b [] = []"
| "fills b (SetNoPen # cs) = fills b cs"
| "fills b (SetBrush b' # cs) = fills (Some b') cs"
| "fills b (DrawRect r # cs) = (b, r) # fills b cs"

lemma fills_cells:
  "\<exists>b'. fills b (concat (map (paintCell sc d vs) cells) @ rest) =
     map (\<lambda>c. (Some (OwnerBrush (ownerHue (cellOwnerId c)) (lifeOf sc vs (CellKey (cellX c) (cellY c)))),
        cellRect sc d (CellKey (cellX c) (cellY c)) (lifeOf sc vs (CellKey (cellX c) (cellY c))))) cells @
     fills b' rest"
  by (induction cells arbitrary: b) (auto simp: paintCell_def Let_def)

lemma fills_pending:
  "fills b (concat (map (paintPending sc d ok) es)) =
     map (\<lambda>(k, a). (Some (HatchBrush (pendingColor a)), markRect sc d k))
       (filter (\<lambda>(k, a). ok (markRect sc d k)) es)"
  by (induction es arbitrary: b) (auto simp: paintPending_def Let_def)

text \<open>The cells to paint are the keys of the model inside the bounds, with their owners.\<close>

definition inBounds :: "int \<times> int \<times> int \<times> int \<Rightarrow> CellKey \<Rightarrow> bool" where
  "inBounds bounds key = (case bounds of (leftX, topY, rightX, bottomY) \<Rightarrow>
     leftX \<le> sint (keyX key) \<and> sint (keyX key) \<le> rightX \<and>
     topY \<le> sint (keyY key) \<and> sint (keyY key) \<le> bottomY)"

lemma visibleCells_keys:
  "visibleCells l t r b m = map (\<lambda>(key, q). \<lparr>cellX = keyX key, cellY = keyY key, cellOwnerId = q\<rparr>)
     (filter (\<lambda>e. inBounds (l, t, r, b) (fst e)) (aliveCells m))"
proof -
  have "concat (map (\<lambda>(key, q). if sint (keyX key) < l \<or> sint (keyX key) > r \<or> sint (keyY key) < t \<or>
        sint (keyY key) > b then [] else [\<lparr>cellX = keyX key, cellY = keyY key, cellOwnerId = q\<rparr>]) es) =
      map (\<lambda>(key, q). \<lparr>cellX = keyX key, cellY = keyY key, cellOwnerId = q\<rparr>)
        (filter (\<lambda>e. inBounds (l, t, r, b) (fst e)) es)" for es
    by (induction es) (auto simp: inBounds_def)
  then show ?thesis by (simp add: visibleCells_def Let_def)
qed

lemma ownerAt_entry:
  assumes "wf_model m" "(key, q) \<in> set (aliveCells m)"
  shows "ownerAt m (keyX key) (keyY key) = q \<and> q \<noteq> 0"
  using assms by (force simp: wf_model_def ownerAt_def)

lemma ownerAt_live:
  "ownerAt m (keyX key) (keyY key) \<noteq> 0 \<Longrightarrow> key \<in> fst ` set (aliveCells m)"
  by (force simp: ownerAt_def dest: map_of_SomeD split: option.splits)


text \<open>Integers for scalars, in tenths and rounded down, are enough for an example.\<close>

definition tenths :: "(int, int) Scalars" where
  "tenths = \<lparr>literal = (\<lambda>m d. m * 10 div 10 ^ d), ofInt64 = (\<lambda>x. 10 * sint x), widen = id, oneF = 10,
     qAdd = (+), qSub = (-), qMul = (\<lambda>a b. a * b div 10), qDiv = (\<lambda>a b. 10 * a div b), qLess = (<), qAbs = abs, qMin = min, qMax = max\<rparr>"


text \<open>
  Fading out is never seen: what is painted does not depend on the animation states of cells
  that are not live in the model, so a cell that dies disappears at once although its life is
  still counted down, tick by tick, in the view.
\<close>

theorem fading_cells_not_painted:
  assumes "wf_model m"
  shows "drawForeground sc m11 m22 bounds intersects (Some m) visuals pending =
    drawForeground sc m11 m22 bounds intersects (Some m)
      (filter (\<lambda>(key, v). ownerAt m (keyX key) (keyY key) \<noteq> 0) visuals) pending"
proof -
  let ?vs = "filter (\<lambda>(key, v). ownerAt m (keyX key) (keyY key) \<noteq> 0) visuals"
  have "map_of (filter (\<lambda>(key, v). P key) vs) key = map_of vs key" if "P key" for P key
    and vs :: "'a Visuals"
    using that by (induction vs) auto
  then have "paintCell sc d visuals c = paintCell sc d ?vs c" if "c \<in> set (visibleCells l t r b m)" for d c l t r b
    using that ownerAt_entry [OF assms]
    by (auto simp: visibleCells_keys paintCell_def lifeOf_def Let_def)
  then have same: "map (paintCell sc d visuals) (visibleCells l t r b m) =
      map (paintCell sc d ?vs) (visibleCells l t r b m)" for d l t r b
    by (intro map_cong) auto
  show ?thesis by (cases bounds) (simp only: drawForeground_def option.case Let_def prod.case same)
qed

theorem fading_cells_not_painted_witness:
  "drawForeground tenths 200 200 (0, 0, 9, 9) (\<lambda>_. True) (Some newWorldModel)
     (syncVisualState 0 (\<lambda>l. l \<le> 0) newWorldModel [(CellKey 1 2, \<lparr>life = 10, targetAlive = True\<rparr>)]) [] =
   drawForeground tenths 200 200 (0, 0, 9, 9) (\<lambda>_. True) (Some newWorldModel) [] [] \<and>
   syncVisualState 0 (\<lambda>l. l \<le> 0) newWorldModel [(CellKey 1 2, \<lparr>life = 10, targetAlive = True\<rparr>)] \<noteq>
     ([] :: int Visuals)"
proof -
  let ?vs = "syncVisualState 0 (\<lambda>l. l \<le> 0) newWorldModel [(CellKey 1 2, \<lparr>life = 10, targetAlive = True\<rparr>)] :: int Visuals"
  have "?vs \<noteq> []" by (simp add: syncVisualState_def hugeCells_def visibleCells_def newWorldModel_def)
  moreover have "filter (\<lambda>(key, v). ownerAt newWorldModel (keyX key) (keyY key) \<noteq> 0) ?vs = []"
    by (simp add: ownerAt_def newWorldModel_def)
  ultimately show ?thesis
    using fading_cells_not_painted [of newWorldModel tenths 200 200 "(0, 0, 9, 9)" "\<lambda>_. True" ?vs "[]"]
    by (simp add: wf_model_def newWorldModel_def)
qed

end
