(* ===== verification/Grid_Zoom.thy ===== *)
theory Grid_Zoom
  imports Complex_Main Grid_Paint
begin

section \<open>InfiniteGridView: zooming and the visible rectangle\<close>

text \<open>
  The handlers that change the view's transformation or announce its visible rectangle. The
  scalars of \<open>Grid_Paint\<close> are extended by the operations these handlers use; \<open>exact\<close> are the
  real numbers, for the properties that hold up to rounding. The transformation only ever
  scales, so it is its two factors \<open>m11\<close> and \<open>m22\<close>; where the viewport lies in the scene is Qt's
  answer, an argument.
\<close>

record ('f, 'r) GridScalars = "('f, 'r) Scalars" +
  qLe :: "'r \<Rightarrow> 'r \<Rightarrow> bool"
  qFloor :: "'r \<Rightarrow> u32"
  ofInt32 :: "u32 \<Rightarrow> 'r"
  qLn :: "'r \<Rightarrow> 'r"
  qPow :: "'r \<Rightarrow> 'r \<Rightarrow> 'r"

definition exact :: "(real, real) GridScalars" where
  "exact = \<lparr>literal = (\<lambda>m d. of_int m / 10 ^ d), ofInt64 = (\<lambda>x. of_int (sint x)), widen = id, oneF = 1,
     qAdd = (+), qSub = (-), qMul = (*), qDiv = (/), qLess = (<), qAbs = abs, qMin = min, qMax = max,
     qLe = (\<le>), qFloor = (\<lambda>r. word_of_int \<lfloor>r\<rfloor>), ofInt32 = (\<lambda>n. of_int (sint n)), qLn = ln, qPow = (powr)\<rparr>"

lemma exact_simps [simp]:
  "literal exact m d = of_int m / 10 ^ d" "qAdd exact = (+)" "qSub exact = (-)" "qMul exact = (*)"
  "qDiv exact = (/)" "qLess exact = (<)" "qLe exact = (\<le>)" "qMin exact = min" "qMax exact = max"
  "qAbs exact = abs" "qLn exact = ln" "qPow exact = (powr)" "ofInt32 exact n = of_int (sint n)"
  "qFloor exact r = word_of_int \<lfloor>r\<rfloor>" "ofInt64 exact x = of_int (sint x)"
  by (simp_all add: exact_def)

subsection \<open>The view's state\<close>

record 'r Camera =
  m11 :: 'r
  m22 :: 'r
  initialScaleApplied :: bool
  lastViewRect :: "'r Rect"
  miniViewRect :: "'r Rect"

definition newCamera :: "('f, 'r, 'z) GridScalars_scheme \<Rightarrow> 'r Camera" where
  "newCamera sc = (let one = literal sc 1 0; null = Rect (literal sc 0 0) (literal sc 0 0) (literal sc 0 0) (literal sc 0 0)
     in \<lparr>m11 = one, m22 = one, initialScaleApplied = False, lastViewRect = null, miniViewRect = null\<rparr>)"

datatype 'r ViewEffect =
  AcceptEvent
| CenterOn 'r 'r
| MoveMiniMap int int
| UpdateMiniMap
| ViewRectChanged "'r Rect"

text \<open>Qt's \<open>scale\<close> and \<open>resetTransform\<close> on a transformation that only scales.\<close>

definition scaleBy :: "('f, 'r, 'z) GridScalars_scheme \<Rightarrow> 'r \<Rightarrow> 'r Camera \<Rightarrow> 'r Camera" where
  "scaleBy sc factor c = c\<lparr>m11 := qMul sc (m11 c) factor, m22 := qMul sc (m22 c) factor\<rparr>"

definition resetTransform :: "('f, 'r, 'z) GridScalars_scheme \<Rightarrow> 'r Camera \<Rightarrow> 'r Camera" where
  "resetTransform sc c = c\<lparr>m11 := literal sc 1 0, m22 := literal sc 1 0\<rparr>"

text \<open>The mini map's \<open>setViewRect\<close>, then the signal.\<close>

definition setViewRect :: "'r Rect \<Rightarrow> 'r Camera \<Rightarrow> 'r Camera \<times> 'r ViewEffect list" where
  "setViewRect rect c = (c\<lparr>miniViewRect := rect\<rparr>, [UpdateMiniMap])"

definition emitViewRectChanged :: "('r Camera \<Rightarrow> 'r Rect) \<Rightarrow> 'r Camera \<Rightarrow> 'r Camera \<times> 'r ViewEffect list" where
  "emitViewRectChanged sceneRect c =
     (let rect = sceneRect c; (c1, effs) = setViewRect rect (c\<lparr>lastViewRect := rect\<rparr>)
      in (c1, effs @ [ViewRectChanged rect]))"

subsection \<open>Events\<close>

definition maxScale :: "('f, 'r, 'z) GridScalars_scheme \<Rightarrow> int \<Rightarrow> 'r" where
  "maxScale sc width =
     (let viewportWidth = literal sc (max 1 width) 0; minVisibleCellsInWidth = literal sc 10 0
      in qMax sc (literal sc 5 0) (qDiv sc viewportWidth minVisibleCellsInWidth))"

definition minScale :: "('f, 'r, 'z) GridScalars_scheme \<Rightarrow> 'r" where
  "minScale sc = literal sc 1 2"

definition wheelEvent ::
  "('f, 'r, 'z) GridScalars_scheme \<Rightarrow> ('r Camera \<Rightarrow> 'r Rect) \<Rightarrow> int \<Rightarrow> int \<Rightarrow> 'r Camera \<Rightarrow>
   'r Camera \<times> 'r ViewEffect list" where
  "wheelEvent sc sceneRect width deltaY c =
     (let currentScale = m11 c; scaleFactor = literal sc 11 1
      in if deltaY > 0 then
           if qLe sc (maxScale sc width) currentScale then (c, [AcceptEvent])
           else let newScale = qMin sc (qMul sc currentScale scaleFactor) (maxScale sc width);
                    factor = qDiv sc newScale currentScale;
                    (c1, effs) = emitViewRectChanged sceneRect (scaleBy sc factor c)
                in (c1, AcceptEvent # effs)
         else
           if qLe sc currentScale (minScale sc) then (c, [AcceptEvent])
           else let newScale = qMax sc (qDiv sc currentScale scaleFactor) (minScale sc);
                    factor = qDiv sc newScale currentScale;
                    (c1, effs) = emitViewRectChanged sceneRect (scaleBy sc factor c)
                in (c1, AcceptEvent # effs))"

definition resizeEvent ::
  "('f, 'r, 'z) GridScalars_scheme \<Rightarrow> ('r Camera \<Rightarrow> 'r Rect) \<Rightarrow> int \<Rightarrow> 'r Camera \<Rightarrow>
   'r Camera \<times> 'r ViewEffect list" where
  "resizeEvent sc sceneRect width c =
     (let (c1, effs1) =
            (if \<not> initialScaleApplied c \<and> width > 0 then
               let targetCellsInWidth = literal sc 30 0; viewportWidth = literal sc (max 1 width) 0;
                   targetScale = qMax sc (literal sc 1 2) (qDiv sc viewportWidth targetCellsInWidth)
               in ((scaleBy sc targetScale (resetTransform sc c))\<lparr>initialScaleApplied := True\<rparr>,
                   [CenterOn (literal sc 0 0) (literal sc 0 0)])
             else (c, []));
          (c2, effs2) = emitViewRectChanged sceneRect c1
      in (c2, effs1 @ [MoveMiniMap 10 10] @ effs2))"

definition scrollContentsBy :: "('r Camera \<Rightarrow> 'r Rect) \<Rightarrow> 'r Camera \<Rightarrow> 'r Camera \<times> 'r ViewEffect list" where
  "scrollContentsBy sceneRect c = emitViewRectChanged sceneRect c"

text \<open>An event with the width the viewport has then.\<close>

datatype ViewEvent = Wheel int int | Resize int | Scrolled

fun viewEvent ::
  "('f, 'r, 'z) GridScalars_scheme \<Rightarrow> ('r Camera \<Rightarrow> 'r Rect) \<Rightarrow> ViewEvent \<Rightarrow> 'r Camera \<Rightarrow>
   'r Camera \<times> 'r ViewEffect list" where
  "viewEvent sc sceneRect (Wheel width deltaY) c = wheelEvent sc sceneRect width deltaY c"
| "viewEvent sc sceneRect (Resize width) c = resizeEvent sc sceneRect width c"
| "viewEvent sc sceneRect Scrolled c = scrollContentsBy sceneRect c"

definition viewEvents ::
  "('f, 'r, 'z) GridScalars_scheme \<Rightarrow> ('r Camera \<Rightarrow> 'r Rect) \<Rightarrow> ViewEvent list \<Rightarrow> 'r Camera \<Rightarrow> 'r Camera" where
  "viewEvents sc sceneRect es c = fold (\<lambda>e c. fst (viewEvent sc sceneRect e c)) es c"

subsection \<open>The limits of the zoom\<close>

lemma emitViewRectChanged_scale [simp]:
  "m11 (fst (emitViewRectChanged f c)) = m11 c" "m22 (fst (emitViewRectChanged f c)) = m22 c"
  "initialScaleApplied (fst (emitViewRectChanged f c)) = initialScaleApplied c"
  by (simp_all add: emitViewRectChanged_def setViewRect_def Let_def)

lemma scaleBy_exact [simp]:
  "m11 (scaleBy exact f c) = m11 c * f" "m22 (scaleBy exact f c) = m22 c * f"
  by (simp_all add: scaleBy_def)

lemma maxScale_exact: "maxScale exact width = max 5 (of_int (max 1 width) / 10)"
  by (simp add: maxScale_def Let_def)

lemma wheel_scale:
  assumes "0 < m11 c" "m22 c = m11 c"
  defines "s \<equiv> m11 c"
  shows "m11 (fst (wheelEvent exact f width d c)) =
      (if d > 0 then (if maxScale exact width \<le> s then s else min (s * 11 / 10) (maxScale exact width))
       else (if s \<le> 1 / 100 then s else max (s * 10 / 11) (1 / 100)))"
    "m22 (fst (wheelEvent exact f width d c)) = m11 (fst (wheelEvent exact f width d c))"
  using assms(1,2) unfolding s_def
  by (simp_all add: wheelEvent_def minScale_def Let_def case_prod_beta)

lemma resize_scale:
  assumes "m22 c = m11 c"
  shows "m11 (fst (resizeEvent exact f width c)) =
      (if \<not> initialScaleApplied c \<and> width > 0 then max (1 / 100) (of_int width / 30) else m11 c)"
    "m22 (fst (resizeEvent exact f width c)) = m11 (fst (resizeEvent exact f width c))"
  using assms by (simp_all add: resizeEvent_def resetTransform_def Let_def case_prod_beta max_def)

fun widthOf :: "ViewEvent \<Rightarrow> int" where
  "widthOf (Wheel width d) = width"
| "widthOf (Resize width) = width"
| "widthOf Scrolled = 0"

definition withinLimits :: "real \<Rightarrow> real Camera \<Rightarrow> bool" where
  "withinLimits w c \<longleftrightarrow> m22 c = m11 c \<and> 1 / 100 \<le> m11 c \<and> m11 c \<le> max 5 (w / 10)"

lemma wheel_limits:
  fixes s m lim :: real
  assumes "1 / 100 \<le> s" "s \<le> lim" "m \<le> lim" "1 / 100 \<le> m"
  shows "1 / 100 \<le> (if m \<le> s then s else min (s * 11 / 10) m)"
    "(if m \<le> s then s else min (s * 11 / 10) m) \<le> lim"
    "1 / 100 \<le> (if s \<le> 1 / 100 then s else max (s * 10 / 11) (1 / 100))"
    "(if s \<le> 1 / 100 then s else max (s * 10 / 11) (1 / 100)) \<le> lim"
  using assms by (auto simp: min_def max_def)

lemma viewEvent_limits:
  assumes "withinLimits w c" "of_int (widthOf e) \<le> w"
  shows "withinLimits w (fst (viewEvent exact f e c))"
proof -
  have c: "0 < m11 c" "m22 c = m11 c" using assms(1) by (auto simp: withinLimits_def)
  show ?thesis
  proof (cases e)
    case (Wheel width d)
    have "maxScale exact width \<le> max 5 (w / 10)"
      using assms(2) Wheel by (auto simp: maxScale_exact max_def)
    moreover have "1 / 100 \<le> maxScale exact width" by (simp add: maxScale_exact)
    moreover have "1 / 100 \<le> m11 c" "m11 c \<le> max 5 (w / 10)" using assms(1) by (simp_all add: withinLimits_def)
    ultimately show ?thesis
      using wheel_limits [where s = "m11 c" and m = "maxScale exact width" and lim = "max 5 (w / 10)"]
      unfolding withinLimits_def Wheel viewEvent.simps wheel_scale [OF c] by (cases "d > 0") simp_all
  next
    case (Resize width)
    with assms resize_scale [OF c(2), of f width] show ?thesis by (auto simp: withinLimits_def)
  next
    case Scrolled
    with assms show ?thesis by (simp add: scrollContentsBy_def withinLimits_def)
  qed
qed

text \<open>
  C27. The zoom stays within its limits: after any wheel turns, resizes and scrolls from the start, up
  to rounding, both axes have the same scale, it is never below a hundredth, and a cell is
  never wider than five pixels or a tenth of the widest viewport seen, whichever is more.
\<close>

theorem zoom_within_limits:
  "let c = viewEvents exact sceneRect es (newCamera exact)
   in m22 c = m11 c \<and> 1 / 100 \<le> m11 c \<and> m11 c \<le> max 5 (of_int (Max (insert 0 (widthOf ` set es))) / 10)"
proof -
  have "withinLimits w (viewEvents exact sceneRect es c)"
    if "withinLimits w c" "\<forall>e \<in> set es. of_int (widthOf e) \<le> w" for w c
    using that by (induction es arbitrary: c) (simp_all add: viewEvents_def viewEvent_limits)
  moreover have "withinLimits w (newCamera exact)" for w
    by (simp add: newCamera_def withinLimits_def Let_def)
  moreover have "\<forall>e \<in> set es. widthOf e \<le> Max (insert 0 (widthOf ` set es))" by simp
  ultimately have "withinLimits (of_int (Max (insert 0 (widthOf ` set es)))) (viewEvents exact sceneRect es (newCamera exact))"
    by (metis of_int_le_iff)
  then show ?thesis unfolding withinLimits_def Let_def .
qed

text \<open>
  Turning the wheel up n times multiplies the scale by 1.1 to the n, up to rounding, until the
  limit of the viewport's width is reached, and then stays there.
\<close>

theorem zoom_in_steps:
  assumes "0 < m11 c" "m22 c = m11 c" "m11 c \<le> maxScale exact width" "0 < d"
  shows "m11 (viewEvents exact sceneRect (replicate n (Wheel width d)) c) =
    min (m11 c * (11 / 10) ^ n) (maxScale exact width)"
  using assms
proof (induction n arbitrary: c)
  case (Suc n)
  let ?c = "fst (wheelEvent exact sceneRect width d c)"
  have s: "m11 ?c = min (m11 c * 11 / 10) (maxScale exact width)" "m22 ?c = m11 ?c"
    using wheel_scale [OF Suc.prems(1,2), of sceneRect width d] Suc.prems by auto
  have "0 < maxScale exact width" by (simp add: maxScale_exact)
  with s Suc.prems have pre: "0 < m11 ?c" "m11 ?c \<le> maxScale exact width" by auto
  have big: "1 \<le> (11 / 10 :: real) ^ n" by simp
  have "m11 (viewEvents exact sceneRect (replicate (Suc n) (Wheel width d)) c) =
      m11 (viewEvents exact sceneRect (replicate n (Wheel width d)) ?c)"
    by (simp add: viewEvents_def)
  also have "\<dots> = min (m11 ?c * (11 / 10) ^ n) (maxScale exact width)"
    by (rule Suc.IH [OF pre(1) s(2) pre(2) Suc.prems(4)])
  also have "\<dots> = min (m11 c * (11 / 10) ^ Suc n) (maxScale exact width)"
  proof (cases "m11 c * 11 / 10 \<le> maxScale exact width")
    case False
    then have "maxScale exact width * 1 \<le> maxScale exact width * (11 / 10) ^ n"
      "maxScale exact width * 1 \<le> (m11 c * 11 / 10) * (11 / 10) ^ n"
      using big \<open>0 < maxScale exact width\<close> by (intro mult_mono; simp)+
    with False show ?thesis by (simp add: s mult.assoc)
  qed (simp add: s mult.assoc)
  finally show ?case .
qed (simp add: viewEvents_def)

theorem zoom_in_steps_witness:
  "m11 (viewEvents exact (\<lambda>_. Rect 0 0 1 1) (replicate 30 (Wheel 100 120)) (newCamera exact)) = 10"
  using zoom_in_steps [of "newCamera exact" 100 120 "\<lambda>_. Rect 0 0 1 1" 30]
  by (simp add: newCamera_def Let_def maxScale_exact power_divide)

text \<open>
  A wheel event without vertical movement, as horizontal scrolling sends it, zooms out: it does
  what a turn downwards does.
\<close>

theorem horizontal_wheel_zooms_out:
  "wheelEvent sc sceneRect width 0 c = wheelEvent sc sceneRect width (- 120) c"
  by (simp add: wheelEvent_def)

end
