(* ===== verification/Grid_Lines.thy ===== *)
theory Grid_Lines
  imports Grid_Zoom World_Refinement "HOL-Library.Monad_Syntax"
begin

section \<open>InfiniteGridView: the grid behind the cells\<close>

text \<open>
  \<open>drawBackground\<close> as the sequence of its calls of the painter. Its loops add a step to a
  \<open>qreal\<close> until it exceeds an edge; such a loop may not end, so \<open>linesFrom\<close> is a partial function
  and \<open>None\<close> is a repaint that never returns.
\<close>

datatype 'r GridCall =
  SetPen "nat \<times> nat \<times> nat"
| DrawLine 'r 'r 'r 'r
| SavePainter
| ResetPainterTransform
| SetLabelFont nat
| SetLabelPen "nat \<times> nat \<times> nat \<times> nat"
| DrawLabel "int \<times> int" u32 u32
| RestorePainterTransform
| RestorePainter

partial_function (option) linesFrom ::
  "('f, 'r, 'z) GridScalars_scheme \<Rightarrow> 'r \<Rightarrow> 'r \<Rightarrow> 'r \<Rightarrow> 'r list option" where
  "linesFrom sc stepSize edge x =
     (if qLe sc x edge then
        do { xs \<leftarrow> linesFrom sc stepSize edge (qAdd sc x stepSize); Some (x # xs) }
      else Some [])"

definition getSuitableGridInterval :: "('f, 'r, 'z) GridScalars_scheme \<Rightarrow> 'r \<Rightarrow> 'r" where
  "getSuitableGridInterval sc sceneInterval =
     (if qLe sc sceneInterval (literal sc 0 0) then literal sc 1 0
      else
        let exponent = ofInt32 sc (qFloor sc (qDiv sc (qLn sc sceneInterval) (qLn sc (literal sc 10 0))));
            base = qPow sc (literal sc 10 0) exponent;
            normalized = qDiv sc sceneInterval base;
            stepFactor =
              (if qLe sc normalized (literal sc 1 0) then literal sc 1 0
               else if qLe sc normalized (literal sc 2 0) then literal sc 2 0
               else if qLe sc normalized (literal sc 5 0) then literal sc 5 0
               else literal sc 10 0)
        in qMul sc stepFactor base)"

definition firstLine :: "('f, 'r, 'z) GridScalars_scheme \<Rightarrow> 'r \<Rightarrow> 'r \<Rightarrow> 'r" where
  "firstLine sc stepSize edge = qMul sc (ofInt32 sc (qFloor sc (qDiv sc edge stepSize))) stepSize"

text \<open>The lines of one step size across a rectangle given by its edges: first the verticals, then the horizontals.\<close>

record 'r Edges =
  edgeLeft :: 'r
  edgeTop :: 'r
  edgeRight :: 'r
  edgeBottom :: 'r

definition vertical :: "'r Edges \<Rightarrow> 'r \<Rightarrow> 'r GridCall" where
  "vertical rect x = DrawLine x (edgeTop rect) x (edgeBottom rect)"

definition horizontal :: "'r Edges \<Rightarrow> 'r \<Rightarrow> 'r GridCall" where
  "horizontal rect y = DrawLine (edgeLeft rect) y (edgeRight rect) y"

definition drawGrid :: "('f, 'r, 'z) GridScalars_scheme \<Rightarrow> 'r \<Rightarrow> 'r Edges \<Rightarrow> 'r GridCall list option" where
  "drawGrid sc stepSize rect =
     do { xs \<leftarrow> linesFrom sc stepSize (edgeRight rect) (firstLine sc stepSize (edgeLeft rect));
          ys \<leftarrow> linesFrom sc stepSize (edgeBottom rect) (firstLine sc stepSize (edgeTop rect));
          Some (map (vertical rect) xs @ map (horizontal rect) ys) }"

definition drawLabels ::
  "('f, 'r, 'z) GridScalars_scheme \<Rightarrow> ('r \<times> 'r \<Rightarrow> int \<times> int) \<Rightarrow> 'r Edges \<Rightarrow> 'r GridCall list option" where
  "drawLabels sc mapFromScene rect =
     (let chunkStep = literal sc 64 0; labelPadding = literal sc 3 0
      in do { xs \<leftarrow> linesFrom sc chunkStep (edgeRight rect) (firstLine sc chunkStep (edgeLeft rect));
              labels \<leftarrow> those (map (\<lambda>x.
                do { ys \<leftarrow> linesFrom sc chunkStep (edgeBottom rect) (firstLine sc chunkStep (edgeTop rect));
                     Some (map (\<lambda>y. DrawLabel (mapFromScene (qAdd sc x labelPadding, qAdd sc y labelPadding))
                       (qFloor sc (qDiv sc x chunkStep)) (qFloor sc (qDiv sc y chunkStep))) ys) }) xs);
              Some ([SavePainter, ResetPainterTransform, SetLabelFont 8, SetLabelPen (90, 90, 90, 160)] @
                concat labels @ [RestorePainterTransform, RestorePainter]) })"

definition backgroundScale :: "('f, 'r, 'z) GridScalars_scheme \<Rightarrow> 'r Camera \<Rightarrow> 'r" where
  "backgroundScale sc c =
     (let s = qMin sc (qAbs sc (m11 c)) (qAbs sc (m22 c))
      in if qLess sc s (literal sc 1 4) then literal sc 1 4 else s)"

definition coarseStep :: "('f, 'r, 'z) GridScalars_scheme \<Rightarrow> 'r \<Rightarrow> 'r Edges \<Rightarrow> 'r" where
  "coarseStep sc scale rect =
     (let sceneInterval = qDiv sc (literal sc 80 0) scale;
          gridStep = getSuitableGridInterval sc sceneInterval;
          estimatedHorizontalLines = qDiv sc (qSub sc (edgeRight rect) (edgeLeft rect)) gridStep;
          estimatedVerticalLines = qDiv sc (qSub sc (edgeBottom rect) (edgeTop rect)) gridStep;
          maxLines = literal sc 5000 0
      in if qLess sc maxLines estimatedHorizontalLines \<or> qLess sc maxLines estimatedVerticalLines
         then qMul sc gridStep
           (qMax sc (qDiv sc estimatedHorizontalLines maxLines) (qDiv sc estimatedVerticalLines maxLines))
         else gridStep)"

definition drawAxes :: "('f, 'r, 'z) GridScalars_scheme \<Rightarrow> 'r Edges \<Rightarrow> 'r GridCall list" where
  "drawAxes sc rect =
     [SetPen (211, 70, 70), vertical rect (literal sc 0 0), horizontal rect (literal sc 0 0)]"

definition drawBackground ::
  "('f, 'r, 'z) GridScalars_scheme \<Rightarrow> ('r \<times> 'r \<Rightarrow> int \<times> int) \<Rightarrow> 'r Edges \<Rightarrow> 'r Camera \<Rightarrow>
   'r GridCall list option" where
  "drawBackground sc mapFromScene rect c =
     (let scale = backgroundScale sc c; cellLevelGrid = qLe sc (literal sc 12 0) scale
      in do { grid \<leftarrow>
                (if cellLevelGrid then
                   do { cells \<leftarrow> drawGrid sc (literal sc 1 0) rect;
                        chunkLines \<leftarrow> drawGrid sc (literal sc 64 0) rect;
                        labels \<leftarrow> drawLabels sc mapFromScene rect;
                        Some ([SetPen (232, 232, 232)] @ cells @ [SetPen (150, 150, 150)] @ chunkLines @ labels) }
                 else
                   do { coarse \<leftarrow> drawGrid sc (coarseStep sc scale rect) rect;
                        Some (SetPen (215, 215, 215) # coarse) });
              Some (grid @ drawAxes sc rect) })"

subsection \<open>When the loops end\<close>

lemma linesFrom_stop: "\<not> qLe sc x edge \<Longrightarrow> linesFrom sc g edge x = Some []"
  by (simp add: linesFrom.simps)

text \<open>
  A grid loop returns exactly when adding the step often enough passes the edge, whatever
  the arithmetic: it hangs when the step is lost in rounding before that.
\<close>

theorem grid_loop_returns:
  "linesFrom sc stepSize edge x \<noteq> None \<longleftrightarrow>
     (\<exists>n. \<not> qLe sc (((\<lambda>x. qAdd sc x stepSize) ^^ n) x) edge)"
proof
  have "\<exists>n. \<not> qLe sc (((\<lambda>x. qAdd sc x stepSize) ^^ n) x) edge" if "linesFrom sc stepSize edge x = Some xs" for xs
    using that
  proof (induction xs arbitrary: x)
    case Nil
    then show ?case by (subst (asm) linesFrom.simps) (auto intro: exI [of _ 0] split: if_splits Option.bind_splits)
  next
    case (Cons a xs)
    then have "linesFrom sc stepSize edge (qAdd sc x stepSize) = Some xs"
      by (subst (asm) (2) linesFrom.simps) (auto split: if_splits Option.bind_splits)
    from Cons.IH [OF this] obtain n where "\<not> qLe sc (((\<lambda>x. qAdd sc x stepSize) ^^ n) (qAdd sc x stepSize)) edge" ..
    then show ?case by (intro exI [of _ "Suc n"]) (simp add: funpow_Suc_right del: funpow.simps(2))
  qed
  then show "linesFrom sc stepSize edge x \<noteq> None \<Longrightarrow> \<exists>n. \<not> qLe sc (((\<lambda>x. qAdd sc x stepSize) ^^ n) x) edge"
    by auto
next
  assume "\<exists>n. \<not> qLe sc (((\<lambda>x. qAdd sc x stepSize) ^^ n) x) edge"
  then obtain n where "\<not> qLe sc (((\<lambda>x. qAdd sc x stepSize) ^^ n) x) edge" ..
  then show "linesFrom sc stepSize edge x \<noteq> None"
  proof (induction n arbitrary: x)
    case 0
    then show ?case by (simp add: linesFrom_stop)
  next
    case (Suc n)
    then have "linesFrom sc stepSize edge (qAdd sc x stepSize) \<noteq> None" by (simp add: funpow_Suc_right del: funpow.simps(2))
    then show ?case by (subst linesFrom.simps) auto
  qed
qed

lemma linesFrom_exact:
  assumes "0 < g"
  shows "linesFrom exact g edge (of_int k * g) = Some (map (\<lambda>i. of_int i * g) [k..\<lfloor>edge / g\<rfloor>])"
proof (induction "nat (\<lfloor>edge / g\<rfloor> - k + 1)" arbitrary: k)
  case 0
  then have "\<lfloor>edge / g\<rfloor> < k" by simp
  then have "\<not> of_int k * g \<le> edge" using assms by (simp add: floor_less_iff pos_divide_less_eq)
  with 0 show ?case by (simp add: linesFrom_stop)
next
  case (Suc n)
  then have k: "k \<le> \<lfloor>edge / g\<rfloor>" by simp
  then have "of_int k * g \<le> edge" using assms by (simp add: le_floor_iff pos_le_divide_eq)
  moreover have "of_int k * g + g = of_int (k + 1) * g" by (simp add: algebra_simps)
  moreover have "n = nat (\<lfloor>edge / g\<rfloor> - (k + 1) + 1)" using Suc(2) by simp
  from Suc(1) [OF this] have "linesFrom exact g edge (of_int (k + 1) * g) =
      Some (map (\<lambda>i. of_int i * g) [k + 1..\<lfloor>edge / g\<rfloor>])" .
  ultimately show ?case using k by (subst linesFrom.simps) (simp add: upto_rec1)
qed

lemma sint_word32: "- (2 ^ 31) \<le> n \<Longrightarrow> n < 2 ^ 31 \<Longrightarrow> sint (word_of_int n :: u32) = n"
  unfolding sint_sbintrunc' by (rule signed_take_bit_int_eq_self) simp_all

lemma drawGrid_exact:
  assumes "0 < g"
  shows "drawGrid exact g rect = Some
    (map (\<lambda>k. vertical rect (of_int k * g)) [sint (qFloor exact (edgeLeft rect / g))..\<lfloor>edgeRight rect / g\<rfloor>] @
     map (\<lambda>k. horizontal rect (of_int k * g)) [sint (qFloor exact (edgeTop rect / g))..\<lfloor>edgeBottom rect / g\<rfloor>])"
  using linesFrom_exact [OF assms] by (simp add: drawGrid_def firstLine_def comp_def del: of_int_sint)

lemma those_map_Some: "those (map (\<lambda>x. Some (f x)) xs) = Some (map f xs)"
  by (induction xs) simp_all

lemma drawLabels_exact:
  "drawLabels exact mapFromScene rect = Some
    ([SavePainter, ResetPainterTransform, SetLabelFont 8, SetLabelPen (90, 90, 90, 160)] @
     concat (map (\<lambda>i. map (\<lambda>j. DrawLabel (mapFromScene (of_int i * 64 + 3, of_int j * 64 + 3)) (word_of_int i) (word_of_int j))
       [sint (qFloor exact (edgeTop rect / 64))..\<lfloor>edgeBottom rect / 64\<rfloor>])
       [sint (qFloor exact (edgeLeft rect / 64))..\<lfloor>edgeRight rect / 64\<rfloor>]) @ [RestorePainterTransform, RestorePainter])"
  using linesFrom_exact [of 64]
  by (simp add: drawLabels_def firstLine_def comp_def those_map_Some del: of_int_sint)

lemma interval_positive: "0 < getSuitableGridInterval exact s"
  by (simp add: getSuitableGridInterval_def Let_def)

lemma coarseStep_positive: "0 < scale \<Longrightarrow> 0 < coarseStep exact scale rect"
proof -
  have "0 < g * max (a / 5000) (b / 5000)" if "0 < g" "5000 < a \<or> 5000 < b" for a b g :: real
    using that by (auto simp: zero_less_mult_iff less_max_iff_disj)
  with interval_positive [of "80 / scale"] show ?thesis by (simp add: coarseStep_def Let_def)
qed

lemma backgroundScale_positive: "0 < backgroundScale exact c"
  by (auto simp: backgroundScale_def Let_def not_less)

text \<open>
  Painting the background ends, up to rounding: for every rectangle and every transformation
  each of its loops passes its edge.
\<close>

theorem background_returns: "drawBackground exact mapFromScene rect c \<noteq> None"
  using drawGrid_exact [of 1 rect] drawGrid_exact [of 64 rect] drawLabels_exact [of mapFromScene rect]
    drawGrid_exact [OF coarseStep_positive [OF backgroundScale_positive], of c rect rect]
  by (simp add: drawBackground_def Let_def)

subsection \<open>The spacing of the lines\<close>

lemma decade:
  assumes "0 < (s::real)"
  shows "10 powr of_int \<lfloor>ln s / ln 10\<rfloor> \<le> s" "s < 10 * 10 powr of_int \<lfloor>ln s / ln 10\<rfloor>"
proof -
  have s: "s = 10 powr (ln s / ln 10)" using assms by (simp add: powr_def)
  have "10 powr of_int \<lfloor>ln s / ln 10\<rfloor> \<le> 10 powr (ln s / ln 10)" by (rule powr_mono) simp_all
  then show "10 powr of_int \<lfloor>ln s / ln 10\<rfloor> \<le> s" using s by simp
  have "10 powr (ln s / ln 10) < 10 powr (of_int \<lfloor>ln s / ln 10\<rfloor> + 1)" by (rule powr_less_mono) simp_all
  then show "s < 10 * 10 powr of_int \<lfloor>ln s / ln 10\<rfloor>" using s by (simp add: powr_add)
qed

lemma decade_range:
  assumes "1 \<le> s" "s \<le> 10 ^ 9"
  shows "0 \<le> \<lfloor>ln s / ln (10::real)\<rfloor>" "\<lfloor>ln s / ln (10::real)\<rfloor> \<le> 9"
proof -
  show "0 \<le> \<lfloor>ln s / ln (10::real)\<rfloor>" using assms by simp
  have "ln s \<le> ln (10 ^ 9)" using assms by simp
  also have "\<dots> = 9 * ln (10::real)" by (simp add: ln_realpow del: power_numeral)
  finally have "ln s / ln (10::real) \<le> 9" by (simp add: pos_divide_le_eq)
  then show "\<lfloor>ln s / ln (10::real)\<rfloor> \<le> 9" by linarith
qed

lemma interval_bounds:
  assumes "1 \<le> s" "s \<le> 10 ^ 9"
  shows "s \<le> getSuitableGridInterval exact s" "2 * getSuitableGridInterval exact s < 5 * s"
proof -
  let ?e = "\<lfloor>ln s / ln 10\<rfloor>"
  define b where "b = (10::real) powr of_int ?e"
  have b: "0 < b" "b \<le> s" "s < 10 * b" using decade [of s] assms(1) by (simp_all add: b_def)
  have "sint (word_of_int ?e :: u32) = ?e" using decade_range [OF assms] by (intro sint_word32) auto
  then have "getSuitableGridInterval exact s =
      (if s / b \<le> 1 then 1 else if s / b \<le> 2 then 2 else if s / b \<le> 5 then 5 else 10) * b"
    using assms(1) b(1) by (simp add: getSuitableGridInterval_def Let_def b_def [symmetric] del: of_int_sint)
  then show "s \<le> getSuitableGridInterval exact s" "2 * getSuitableGridInterval exact s < 5 * s"
    using b by (auto simp: field_simps split: if_splits)
qed

lemma capped_lines:
  fixes g d d' :: real
  assumes "0 < g" "0 \<le> d" "0 \<le> d'"
    and g': "g' = (if 5000 < d / g \<or> 5000 < d' / g then g * max (d / g / 5000) (d' / g / 5000) else g)"
  shows "g \<le> g'" "d / g' \<le> 5000" "d' / g' \<le> 5000" "g' = g \<or> d = 5000 * g' \<or> d' = 5000 * g'"
proof -
  have "g * max (d / g / 5000) (d' / g / 5000) = max (g * (d / g / 5000)) (g * (d' / g / 5000))"
    using assms(1) by (simp only: max_mult_distrib_left) simp
  then have "g' = (if 5000 * g < d \<or> 5000 * g < d' then max d d' / 5000 else g)"
    using assms(1) unfolding g' by (simp add: pos_less_divide_eq max_divide_distrib_right)
  then have "g \<le> g' \<and> d \<le> 5000 * g' \<and> d' \<le> 5000 * g' \<and> (g' = g \<or> d = 5000 * g' \<or> d' = 5000 * g')"
    by (auto simp: max_def split: if_splits)
  then show "g \<le> g'" "d / g' \<le> 5000" "d' / g' \<le> 5000" "g' = g \<or> d = 5000 * g' \<or> d' = 5000 * g'"
    using assms(1) by (simp_all add: pos_divide_le_eq)
qed

lemma floor_diff: "(x :: real) \<le> y + n \<Longrightarrow> \<lfloor>x\<rfloor> - \<lfloor>y\<rfloor> \<le> \<lceil>n\<rceil> + 1"
  by linarith

definition inView :: "real Edges \<Rightarrow> bool" where
  "inView rect \<longleftrightarrow> - (2 ^ 31) \<le> edgeLeft rect \<and> edgeLeft rect \<le> edgeRight rect \<and> edgeLeft rect < 2 ^ 31 \<and>
     - (2 ^ 31) \<le> edgeTop rect \<and> edgeTop rect \<le> edgeBottom rect \<and> edgeTop rect < 2 ^ 31"

lemma floor_word:
  fixes x g :: real
  assumes "- (2 ^ 31) \<le> x" "x < 2 ^ 31" "1 \<le> g"
  shows "sint (word_of_int \<lfloor>x / g\<rfloor> :: u32) = \<lfloor>x / g\<rfloor>"
proof (rule sint_word32)
  have "- (2 ^ 31) * g \<le> x \<and> x < 2 ^ 31 * g" using assms by (simp add: algebra_simps)
  then have "- (2 ^ 31) \<le> x / g \<and> x / g < 2 ^ 31" using assms(3) by (simp add: field_simps)
  then show "- (2 ^ 31) \<le> \<lfloor>x / g\<rfloor>" "\<lfloor>x / g\<rfloor> < 2 ^ 31"
    by (simp_all add: le_floor_iff floor_less_iff)
qed

lemma drawGrid_view:
  assumes "1 \<le> g" "inView rect"
  shows "drawGrid exact g rect = Some
    (map (\<lambda>k. vertical rect (of_int k * g)) [\<lfloor>edgeLeft rect / g\<rfloor>..\<lfloor>edgeRight rect / g\<rfloor>] @
     map (\<lambda>k. horizontal rect (of_int k * g)) [\<lfloor>edgeTop rect / g\<rfloor>..\<lfloor>edgeBottom rect / g\<rfloor>])"
  using assms floor_word [OF _ _ assms(1), of "edgeLeft rect"] floor_word [OF _ _ assms(1), of "edgeTop rect"]
  by (simp add: drawGrid_exact inView_def)

text \<open>
  C26. The coarse grid: when a cell is narrower than twelve pixels, the lines are at all multiples of
  one step between the edges, at most 5002 in each direction; they are at least 80 pixels apart and
  less than 200, unless the cap of 5000 lines has widened them.
\<close>

theorem coarse_grid:
  assumes "inView rect" "backgroundScale exact c < 12"
  shows "\<exists>g. drawBackground exact mapFromScene rect c = Some
      (SetPen (215, 215, 215) #
       map (\<lambda>k. vertical rect (of_int k * g)) [\<lfloor>edgeLeft rect / g\<rfloor>..\<lfloor>edgeRight rect / g\<rfloor>] @
       map (\<lambda>k. horizontal rect (of_int k * g)) [\<lfloor>edgeTop rect / g\<rfloor>..\<lfloor>edgeBottom rect / g\<rfloor>] @
       drawAxes exact rect) \<and>
    \<lfloor>edgeRight rect / g\<rfloor> - \<lfloor>edgeLeft rect / g\<rfloor> < 5002 \<and> \<lfloor>edgeBottom rect / g\<rfloor> - \<lfloor>edgeTop rect / g\<rfloor> < 5002 \<and>
    80 \<le> g * backgroundScale exact c \<and>
    (g * backgroundScale exact c < 200 \<or>
     edgeRight rect - edgeLeft rect = 5000 * g \<or> edgeBottom rect - edgeTop rect = 5000 * g)"
proof -
  define scale where "scale = backgroundScale exact c"
  have scale: "1 / 10000 \<le> scale" "scale < 12"
    using assms(2) by (auto simp: scale_def backgroundScale_def Let_def not_less)
  define s where "s = 80 / scale"
  have s: "1 \<le> s" "s \<le> 10 ^ 9" "s * scale = 80" using scale by (auto simp: s_def field_simps)
  define g where "g = getSuitableGridInterval exact s"
  define g' where "g' = coarseStep exact scale rect"
  define dx where "dx = edgeRight rect - edgeLeft rect"
  define dy where "dy = edgeBottom rect - edgeTop rect"
  note bounds = interval_bounds [OF s(1,2), folded g_def]
  have g: "0 < g" "0 \<le> dx" "0 \<le> dy" using bounds s assms(1) by (simp_all add: dx_def dy_def inView_def)
  have "g' = (if 5000 < dx / g \<or> 5000 < dy / g then g * max (dx / g / 5000) (dy / g / 5000) else g)"
    by (simp add: g'_def g_def s_def dx_def dy_def coarseStep_def Let_def)
  note cap = capped_lines [OF g, folded this]
  have "1 \<le> g'" using cap(1) bounds(1) s(1) by simp
  note lines = drawGrid_view [OF this assms(1)]
  have "80 \<le> g' * scale"
    using s(3) mult_right_mono [of s g' scale] cap(1) bounds(1) scale by simp
  moreover have "g' * scale < 200 \<or> dx = 5000 * g' \<or> dy = 5000 * g'"
  proof -
    have "2 * (g * scale) < 5 * (s * scale)"
      using mult_strict_right_mono [OF bounds(2), of scale] scale by simp
    with s(3) cap(4) show ?thesis by auto
  qed
  moreover have "\<lfloor>edgeRight rect / g'\<rfloor> - \<lfloor>edgeLeft rect / g'\<rfloor> < 5002"
    using floor_diff [of "edgeRight rect / g'" "edgeLeft rect / g'" 5000] cap(2)
    by (simp add: dx_def diff_divide_distrib)
  moreover have "\<lfloor>edgeBottom rect / g'\<rfloor> - \<lfloor>edgeTop rect / g'\<rfloor> < 5002"
    using floor_diff [of "edgeBottom rect / g'" "edgeTop rect / g'" 5000] cap(3)
    by (simp add: dy_def diff_divide_distrib)
  moreover have "drawBackground exact mapFromScene rect c = Some
      (SetPen (215, 215, 215) #
       map (\<lambda>k. vertical rect (of_int k * g')) [\<lfloor>edgeLeft rect / g'\<rfloor>..\<lfloor>edgeRight rect / g'\<rfloor>] @
       map (\<lambda>k. horizontal rect (of_int k * g')) [\<lfloor>edgeTop rect / g'\<rfloor>..\<lfloor>edgeBottom rect / g'\<rfloor>] @
       drawAxes exact rect)"
    using lines scale by (simp add: drawBackground_def Let_def scale_def [symmetric] g'_def [symmetric])
  ultimately show ?thesis unfolding scale_def dx_def dy_def by blast
qed

theorem coarse_grid_witness:
  "\<exists>g calls. drawBackground exact (\<lambda>_. (0, 0)) \<lparr>edgeLeft = -100, edgeTop = -100, edgeRight = 100, edgeBottom = 100\<rparr>
      (newCamera exact) = Some (SetPen (215, 215, 215) # calls) \<and> (80 :: real) \<le> g \<and> g < 200"
proof -
  let ?r = "\<lparr>edgeLeft = -100, edgeTop = -100, edgeRight = 100, edgeBottom = 100\<rparr> :: real Edges"
  have "inView ?r" by (simp add: inView_def)
  moreover have "backgroundScale exact (newCamera exact) = 1"
    by (simp add: backgroundScale_def newCamera_def Let_def)
  ultimately show ?thesis using coarse_grid [of ?r "newCamera exact" "\<lambda>_. (0, 0)"] by auto
qed

lemma in_table: "i \<in> set I \<Longrightarrow> j \<in> set J \<Longrightarrow> f i j \<in> set (concat (map (\<lambda>i. map (f i) J) I))"
  by auto

text \<open>
  Zoomed in, the grid is the server's: every cell in the rectangle has a line at its left and
  its top edge, the corner of its chunk carries a label with the coordinates under which the server
  keeps the chunk, and every label is at the corner of the chunk it names.
\<close>

theorem labels_name_chunks:
  assumes "inView rect" "12 \<le> backgroundScale exact c"
  shows "\<exists>calls. drawBackground exact mapFromScene rect c = Some calls \<and>
    (\<forall>X Y. \<lfloor>edgeLeft rect\<rfloor> \<le> X \<and> X \<le> \<lfloor>edgeRight rect\<rfloor> \<and> \<lfloor>edgeTop rect\<rfloor> \<le> Y \<and> Y \<le> \<lfloor>edgeBottom rect\<rfloor> \<longrightarrow>
       vertical rect (of_int X) \<in> set calls \<and> horizontal rect (of_int Y) \<in> set calls \<and>
       DrawLabel (mapFromScene (of_int (64 * (X div 64)) + 3, of_int (64 * (Y div 64)) + 3))
         (coordX (keyAt X Y)) (coordY (keyAt X Y)) \<in> set calls) \<and>
    (\<forall>p cx cy. DrawLabel p cx cy \<in> set calls \<longrightarrow>
       (\<exists>i j. p = mapFromScene (of_int (64 * i) + 3, of_int (64 * j) + 3) \<and> cx = word_of_int i \<and> cy = word_of_int j))"
proof -
  let ?I = "[\<lfloor>edgeLeft rect / 64\<rfloor>..\<lfloor>edgeRight rect / 64\<rfloor>]"
  let ?J = "[\<lfloor>edgeTop rect / 64\<rfloor>..\<lfloor>edgeBottom rect / 64\<rfloor>]"
  define cells where "cells = map (\<lambda>k. vertical rect (of_int k)) [\<lfloor>edgeLeft rect\<rfloor>..\<lfloor>edgeRight rect\<rfloor>] @
     map (\<lambda>k. horizontal rect (of_int k)) [\<lfloor>edgeTop rect\<rfloor>..\<lfloor>edgeBottom rect\<rfloor>]"
  define corners where "corners = map (\<lambda>k. vertical rect (of_int k * 64)) ?I @ map (\<lambda>k. horizontal rect (of_int k * 64)) ?J"
  define labels :: "real GridCall list" where "labels = concat (map (\<lambda>i. map (\<lambda>j. DrawLabel
    (mapFromScene (of_int i * 64 + 3, of_int j * 64 + 3)) (word_of_int i) (word_of_int j)) ?J) ?I)"
  let ?calls = "([SetPen (232, 232, 232)] @ cells @ [SetPen (150, 150, 150)] @ corners @
    ([SavePainter, ResetPainterTransform, SetLabelFont 8, SetLabelPen (90, 90, 90, 160)] @ labels @ [RestorePainterTransform, RestorePainter])) @
    drawAxes exact rect"
  have "drawLabels exact mapFromScene rect = Some
    ([SavePainter, ResetPainterTransform, SetLabelFont 8, SetLabelPen (90, 90, 90, 160)] @ labels @ [RestorePainterTransform, RestorePainter])"
    unfolding drawLabels_exact labels_def
    using assms(1) floor_word [of "edgeLeft rect" 64] floor_word [of "edgeTop rect" 64] by (simp add: inView_def)
  moreover have "drawGrid exact 1 rect = Some cells" "drawGrid exact 64 rect = Some corners"
    using drawGrid_view [OF _ assms(1), of 1] drawGrid_view [OF _ assms(1), of 64]
    by (simp_all add: cells_def corners_def)
  ultimately have run: "drawBackground exact mapFromScene rect c = Some ?calls"
    using assms(2) by (simp add: drawBackground_def Let_def)
  have label: "DrawLabel (mapFromScene (of_int i * 64 + 3, of_int j * 64 + 3)) (word_of_int i) (word_of_int j) \<in> set labels"
    if "i \<in> set ?I" "j \<in> set ?J" for i j
    unfolding labels_def by (rule in_table [OF that])
  have div: "\<lfloor>x\<rfloor> \<le> X \<Longrightarrow> \<lfloor>x / 64\<rfloor> \<le> X div 64" "X \<le> \<lfloor>x\<rfloor> \<Longrightarrow> X div 64 \<le> \<lfloor>x / 64\<rfloor>" for X and x :: real
    using floor_divide_real_eq_div [of 64 x] by (simp_all add: zdiv_mono1)
  have "vertical rect (of_int X) \<in> set ?calls \<and> horizontal rect (of_int Y) \<in> set ?calls \<and>
      DrawLabel (mapFromScene (of_int (64 * (X div 64)) + 3, of_int (64 * (Y div 64)) + 3))
        (coordX (keyAt X Y)) (coordY (keyAt X Y)) \<in> set ?calls"
    if "\<lfloor>edgeLeft rect\<rfloor> \<le> X \<and> X \<le> \<lfloor>edgeRight rect\<rfloor> \<and> \<lfloor>edgeTop rect\<rfloor> \<le> Y \<and> Y \<le> \<lfloor>edgeBottom rect\<rfloor>" for X Y
  proof -
    have "vertical rect (of_int X) \<in> set cells" "horizontal rect (of_int Y) \<in> set cells"
      using that by (auto simp: cells_def)
    moreover have "DrawLabel (mapFromScene (of_int (64 * (X div 64)) + 3, of_int (64 * (Y div 64)) + 3))
        (coordX (keyAt X Y)) (coordY (keyAt X Y)) \<in> set labels"
      using label [of "X div 64" "Y div 64"] that div by (simp add: keyAt_def mult.commute)
    ultimately show ?thesis by simp
  qed
  moreover have "\<exists>i j. p = mapFromScene (of_int (64 * i) + 3, of_int (64 * j) + 3) \<and> cx = word_of_int i \<and> cy = word_of_int j"
    if "DrawLabel p cx cy \<in> set ?calls" for p cx cy
  proof -
    have "DrawLabel p cx cy \<in> set labels"
      using that by (auto simp: cells_def corners_def drawAxes_def vertical_def horizontal_def)
    then show ?thesis by (auto simp: labels_def mult.commute)
  qed
  ultimately show ?thesis using run by blast
qed

theorem labels_name_chunks_witness:
  "\<exists>calls. drawBackground exact (\<lambda>(x, y). (\<lfloor>x\<rfloor>, \<lfloor>y\<rfloor>))
      \<lparr>edgeLeft = - 100, edgeTop = - 100, edgeRight = 100, edgeBottom = 100\<rparr> (scaleBy exact 12 (newCamera exact)) = Some calls \<and>
    DrawLabel (- 61, 67) (- 1) 1 \<in> set calls"
proof -
  let ?r = "\<lparr>edgeLeft = - 100, edgeTop = - 100, edgeRight = 100, edgeBottom = 100\<rparr> :: real Edges"
  let ?c = "scaleBy exact 12 (newCamera exact)"
  let ?f = "(\<lambda>(x, y). (\<lfloor>x\<rfloor>, \<lfloor>y\<rfloor>)) :: real \<times> real \<Rightarrow> int \<times> int"
  have "inView ?r" by (simp add: inView_def)
  moreover have "12 \<le> backgroundScale exact ?c"
    by (simp add: backgroundScale_def newCamera_def scaleBy_def Let_def)
  ultimately obtain calls where run: "drawBackground exact ?f ?r ?c = Some calls"
    and cells: "\<forall>X Y. \<lfloor>edgeLeft ?r\<rfloor> \<le> X \<and> X \<le> \<lfloor>edgeRight ?r\<rfloor> \<and> \<lfloor>edgeTop ?r\<rfloor> \<le> Y \<and> Y \<le> \<lfloor>edgeBottom ?r\<rfloor> \<longrightarrow>
       DrawLabel (?f (of_int (64 * (X div 64)) + 3, of_int (64 * (Y div 64)) + 3))
         (coordX (keyAt X Y)) (coordY (keyAt X Y)) \<in> set calls"
    using labels_name_chunks [of ?r ?c ?f] by blast
  from cells [rule_format, of "- 1" 70] have "DrawLabel (- 61, 67) (- 1) 1 \<in> set calls"
    by (simp add: keyAt_def)
  with run show ?thesis by blast
qed

end
