(* ===== verification/Mini_Map.thy ===== *)
theory Mini_Map
  imports Grid_Zoom
begin

section \<open>InfiniteGridView: the mini map and the models it follows\<close>

text \<open>
  The overlay draws the cells within 256 of the view's centre as dots, and the visible
  rectangle over them. The overlay and the view follow a world model through its signal; which
  listener is connected to which model is part of the state. Qt's clipping of the visible
  rectangle to the widget and its rounding of a rectangle's edges are arguments.
\<close>

subsection \<open>Painting the overlay\<close>

datatype 'r MiniCall =
  MiniPen "(nat \<times> nat \<times> nat \<times> nat) option" 'r
| MiniBrush "(nat \<times> nat \<times> nat \<times> nat) option"
| RoundedBorder 'r
| Dot 'r 'r 'r
| ViewFrame "'r Rect"

definition miniSize :: int where "miniSize = 220"

definition isEmptyRect :: "('f, 'r, 'z) GridScalars_scheme \<Rightarrow> 'r Rect \<Rightarrow> bool" where
  "isEmptyRect sc r \<longleftrightarrow> qLe sc (rectW r) (literal sc 0 0) \<or> qLe sc (rectH r) (literal sc 0 0)"

definition rectCenter :: "('f, 'r, 'z) GridScalars_scheme \<Rightarrow> 'r Rect \<Rightarrow> 'r \<times> 'r" where
  "rectCenter sc r = (qAdd sc (rectX r) (qDiv sc (rectW r) (literal sc 2 0)),
     qAdd sc (rectY r) (qDiv sc (rectH r) (literal sc 2 0)))"

definition miniWorldRect :: "('f, 'r, 'z) GridScalars_scheme \<Rightarrow> 'r Rect \<Rightarrow> 'r Rect" where
  "miniWorldRect sc viewRect =
     (let (cx, cy) = rectCenter sc viewRect; halfSpan = literal sc 256 0
      in Rect (qSub sc cx halfSpan) (qSub sc cy halfSpan)
           (qMul sc halfSpan (literal sc 2 0)) (qMul sc halfSpan (literal sc 2 0)))"

definition toMini :: "('f, 'r, 'z) GridScalars_scheme \<Rightarrow> 'r Rect \<Rightarrow> 'r \<times> 'r \<Rightarrow> 'r \<times> 'r" where
  "toMini sc worldRect p =
     (let nx = qDiv sc (qSub sc (fst p) (rectX worldRect)) (rectW worldRect);
          ny = qDiv sc (qSub sc (snd p) (rectY worldRect)) (rectH worldRect)
      in (qMul sc nx (literal sc miniSize 0), qMul sc ny (literal sc miniSize 0)))"

definition cellDot :: "('f, 'r, 'z) GridScalars_scheme \<Rightarrow> 'r Rect \<Rightarrow> AliveCell \<Rightarrow> 'r MiniCall" where
  "cellDot sc worldRect cell =
     (let p = toMini sc worldRect (ofInt64 sc (cellX cell), ofInt64 sc (cellY cell))
      in Dot (fst p) (snd p) (literal sc 12 1))"

definition cornersRect :: "('f, 'r, 'z) GridScalars_scheme \<Rightarrow> 'r \<times> 'r \<Rightarrow> 'r \<times> 'r \<Rightarrow> 'r Rect" where
  "cornersRect sc p q = Rect (fst p) (snd p) (qSub sc (fst q) (fst p)) (qSub sc (snd q) (snd p))"

definition paintMiniMap ::
  "('f, 'r, 'z) GridScalars_scheme \<Rightarrow> ('r Rect \<Rightarrow> int \<times> int \<times> int \<times> int) \<Rightarrow> ('r Rect \<Rightarrow> 'r Rect) \<Rightarrow>
   WorldModel option \<Rightarrow> 'r Rect \<Rightarrow> 'r MiniCall list" where
  "paintMiniMap sc outward clip model viewRect =
     (let frame = [MiniPen None (literal sc 0 0), MiniBrush (Some (255, 255, 255, 220)), RoundedBorder (literal sc 10 0),
                   MiniPen (Some (180, 184, 190, 220)) (literal sc 1 0), MiniBrush None, RoundedBorder (literal sc 10 0)]
      in case model of
           None \<Rightarrow> frame
         | Some m \<Rightarrow>
             if isEmptyRect sc viewRect then frame
             else
               let worldRect = miniWorldRect sc viewRect;
                   (leftX, topY, rightX, bottomY) = outward worldRect;
                   cells = visibleCells leftX topY rightX bottomY m;
                   topLeft = toMini sc worldRect (rectX viewRect, rectY viewRect);
                   bottomRight = toMini sc worldRect
                     (qAdd sc (rectX viewRect) (rectW viewRect), qAdd sc (rectY viewRect) (rectH viewRect))
               in frame @ [MiniPen None (literal sc 0 0), MiniBrush (Some (70, 128, 230, 200))] @
                  map (cellDot sc worldRect) cells @
                  [MiniPen (Some (214, 53, 53, 220)) (literal sc 15 1), MiniBrush None,
                   ViewFrame (clip (cornersRect sc topLeft bottomRight))])"

subsection \<open>Where the dots are\<close>

fun dots :: "'r MiniCall list \<Rightarrow> ('r \<times> 'r) list" where
  "dots [] = []"
| "dots (Dot x y r # cs) = (x, y) # dots cs"
| "dots (_ # cs) = dots cs"

lemma dots_append [simp]: "dots (cs @ cs') = dots cs @ dots cs'"
  by (induction cs rule: dots.induct) simp_all

definition edgesOutward :: "real Rect \<Rightarrow> int \<times> int \<times> int \<times> int" where
  "edgesOutward r = (\<lfloor>rectX r\<rfloor>, \<lfloor>rectY r\<rfloor>, \<lceil>rectX r + rectW r\<rceil>, \<lceil>rectY r + rectH r\<rceil>)"

lemma toMini_exact:
  "toMini exact (miniWorldRect exact r) (x, y) =
     ((x - (rectX r + rectW r / 2 - 256)) * 220 / 512, (y - (rectY r + rectH r / 2 - 256)) * 220 / 512)"
  by (simp add: toMini_def miniWorldRect_def rectCenter_def miniSize_def Let_def)

lemma dots_cells:
  "dots (map (\<lambda>e. cellDot sc w (f e)) es) =
     map (\<lambda>e. toMini sc w (ofInt64 sc (cellX (f e)), ofInt64 sc (cellY (f e)))) es"
  by (induction es) (simp_all add: cellDot_def Let_def)

lemma mini_near:
  fixes l :: real
  assumes "\<lfloor>l\<rfloor> \<le> x" "x \<le> \<lceil>l + 512\<rceil>"
  shows "\<bar>(of_int x - l) * 220 / 512 - 110\<bar> < 111"
proof -
  have "- 1 < of_int x - l" "of_int x - l < 513" using assms by linarith+
  then show ?thesis by (simp add: abs_less_iff)
qed

text \<open>
  The mini map is a true map: up to rounding, there is one dot for each live cell of the model
  within the span of 512 around the view's centre, at the widget's centre plus 220/512 of the
  cell's distance from the view's centre, and no dot lies a pixel or more outside the widget.
\<close>

theorem mini_map_dots:
  assumes "wf_model m" "0 < rectW r" "0 < rectH r"
  defines "cx \<equiv> rectX r + rectW r / 2" and "cy \<equiv> rectY r + rectH r / 2"
  shows "\<exists>keys. distinct keys \<and>
    set keys = {key. inBounds (edgesOutward (miniWorldRect exact r)) key \<and> ownerAt m (keyX key) (keyY key) \<noteq> 0} \<and>
    dots (paintMiniMap exact edgesOutward clip (Some m) r) =
      map (\<lambda>key. (110 + (of_int (sint (keyX key)) - cx) * 220 / 512, 110 + (of_int (sint (keyY key)) - cy) * 220 / 512)) keys \<and>
    (\<forall>(x, y) \<in> set (dots (paintMiniMap exact edgesOutward clip (Some m) r)). - 1 < x \<and> x < 221 \<and> - 1 < y \<and> y < 221)"
proof -
  let ?w = "miniWorldRect exact r"
  obtain l t ri b where bounds: "edgesOutward ?w = (l, t, ri, b)" by (cases "edgesOutward ?w")
  define keys where "keys = map fst (filter (\<lambda>e. inBounds (l, t, ri, b) (fst e)) (aliveCells m))"
  let ?at = "\<lambda>key. (110 + (of_int (sint (keyX key)) - cx) * 220 / 512, 110 + (of_int (sint (keyY key)) - cy) * 220 / 512 :: real)"
  have d: "distinct keys" using assms(1) by (simp add: keys_def wf_model_def distinct_map_filter)
  have set: "set keys = {key. inBounds (l, t, ri, b) key \<and> ownerAt m (keyX key) (keyY key) \<noteq> 0}"
    using ownerAt_entry [OF assms(1)] ownerAt_live [of m] unfolding keys_def by fastforce
  have "toMini exact ?w (of_int (sint (keyX key)), of_int (sint (keyY key))) = ?at key" for key
    by (simp add: toMini_exact cx_def cy_def field_simps)
  then have dots: "dots (paintMiniMap exact edgesOutward clip (Some m) r) = map ?at keys"
    using assms(2,3) by (simp add: paintMiniMap_def Let_def bounds isEmptyRect_def dots_cells
        visibleCells_keys keys_def comp_def case_prod_beta del: of_int_sint)
  have near: "- 1 < fst (?at key) \<and> fst (?at key) < 221 \<and> - 1 < snd (?at key) \<and> snd (?at key) < 221"
    if "key \<in> set keys" for key
  proof -
    have "inBounds (l, t, ri, b) key" using that set by blast
    then have "\<lfloor>cx - 256\<rfloor> \<le> sint (keyX key) \<and> sint (keyX key) \<le> \<lceil>cx - 256 + 512\<rceil>"
      "\<lfloor>cy - 256\<rfloor> \<le> sint (keyY key) \<and> sint (keyY key) \<le> \<lceil>cy - 256 + 512\<rceil>"
      using bounds by (auto simp: inBounds_def edgesOutward_def miniWorldRect_def rectCenter_def Let_def cx_def cy_def)
    then have "\<bar>(of_int (sint (keyX key)) - (cx - 256)) * 220 / 512 - 110\<bar> < 111"
      "\<bar>(of_int (sint (keyY key)) - (cy - 256)) * 220 / 512 - 110\<bar> < 111"
      using mini_near [of "cx - 256"] mini_near [of "cy - 256"] by blast+
    then show "- 1 < fst (?at key) \<and> fst (?at key) < 221 \<and> - 1 < snd (?at key) \<and> snd (?at key) < 221"
      by (auto simp: abs_less_iff field_simps simp del: of_int_sint)
  qed
  have "\<forall>(x, y) \<in> set (map ?at keys). - 1 < x \<and> x < 221 \<and> - 1 < y \<and> y < 221"
    using near by fastforce
  with d set dots bounds show ?thesis by (intro exI [of _ keys]) (simp only: bounds dots)
qed

theorem mini_map_dots_witness:
  "dots (paintMiniMap exact edgesOutward id (Some (newWorldModel\<lparr>aliveCells := [(CellKey 64 0, 7)]\<rparr>)) (Rect (- 10) (- 10) 20 20)) =
     [(137.5, 110)]"
proof -
  let ?m = "newWorldModel\<lparr>aliveCells := [(CellKey 64 0, 7)]\<rparr>"
  let ?r = "Rect (- 10) (- 10) 20 20 :: real Rect"
  have "wf_model ?m" by (simp add: wf_model_def)
  then obtain keys where keys: "distinct keys"
    "set keys = {key. inBounds (edgesOutward (miniWorldRect exact ?r)) key \<and> ownerAt ?m (keyX key) (keyY key) \<noteq> 0}"
    "dots (paintMiniMap exact edgesOutward id (Some ?m) ?r) =
      map (\<lambda>key. (110 + (of_int (sint (keyX key)) - 0) * 220 / 512, 110 + (of_int (sint (keyY key)) - 0) * 220 / 512)) keys"
    using mini_map_dots [of ?m ?r id] by auto
  have "ownerAt ?m (keyX key) (keyY key) = (if key = CellKey 64 0 then 7 else 0)" for key
    by (cases key) (simp add: ownerAt_def)
  note own = this
  have "set keys = {CellKey 64 0}"
    unfolding keys(2) own by (auto simp: inBounds_def edgesOutward_def miniWorldRect_def rectCenter_def Let_def)
  moreover from this keys(1) have "length keys = 1" by (metis distinct_card is_singletonI is_singleton_altdef)
  ultimately have "keys = [CellKey 64 0]" by (cases keys) auto
  with keys(3) show ?thesis by simp
qed

subsection \<open>Following a model\<close>

text \<open>
  Models are identified by a reference, \<open>'m\<close>; \<open>contents\<close> is what a reference points to. The
  connections of their signal \<open>worldChanged\<close> are in the state, oldest first.
\<close>

datatype Listener = MapListener | ViewListener

text \<open>The repaints and announcements the operations ask for, in order.\<close>

datatype FollowCall = RepaintMap | RepaintView | AnnounceViewRect

record ('m, 'f) FollowState =
  worldModelPtr :: "'m option"
  miniModelPtr :: "'m option"
  connections :: "('m \<times> Listener) list"
  cellVisuals :: "'f Visuals"
  pendingMarks :: "(CellKey \<times> nat) list"
  asked :: "FollowCall list"

definition newFollowState :: "('m, 'f) FollowState" where
  "newFollowState = \<lparr>worldModelPtr = None, miniModelPtr = None, connections = [], cellVisuals = [],
     pendingMarks = [], asked = []\<rparr>"

definition ask :: "FollowCall list \<Rightarrow> ('m, 'f) FollowState \<Rightarrow> ('m, 'f) FollowState" where
  "ask cs v = v\<lparr>asked := asked v @ cs\<rparr>"

definition disconnectFrom :: "'m option \<Rightarrow> Listener \<Rightarrow> ('m \<times> Listener) list \<Rightarrow> ('m \<times> Listener) list" where
  "disconnectFrom old l cs = (case old of None \<Rightarrow> cs | Some m \<Rightarrow> filter (\<lambda>c. c \<noteq> (m, l)) cs)"

definition connectTo :: "'m option \<Rightarrow> Listener \<Rightarrow> ('m \<times> Listener) list \<Rightarrow> ('m \<times> Listener) list" where
  "connectTo new l cs = (case new of None \<Rightarrow> cs | Some m \<Rightarrow> cs @ [(m, l)])"

definition miniSetWorldModel :: "'m option \<Rightarrow> ('m, 'f) FollowState \<Rightarrow> ('m, 'f) FollowState" where
  "miniSetWorldModel model v =
     (if miniModelPtr v = model then v
      else ask [RepaintMap] (v\<lparr>miniModelPtr := model,
        connections := connectTo model MapListener (disconnectFrom (miniModelPtr v) MapListener (connections v))\<rparr>))"

definition syncView ::
  "'f \<Rightarrow> ('f \<Rightarrow> bool) \<Rightarrow> ('m \<Rightarrow> WorldModel) \<Rightarrow> ('m, 'f) FollowState \<Rightarrow> ('m, 'f) FollowState" where
  "syncView zero nonpos contents v = (case worldModelPtr v of
     None \<Rightarrow> v
   | Some m \<Rightarrow> v\<lparr>cellVisuals := syncVisualState zero nonpos (contents m) (cellVisuals v)\<rparr>)"

definition setWorldModel ::
  "'f \<Rightarrow> ('f \<Rightarrow> bool) \<Rightarrow> ('m \<Rightarrow> WorldModel) \<Rightarrow> 'm option \<Rightarrow> ('m, 'f) FollowState \<Rightarrow> ('m, 'f) FollowState" where
  "setWorldModel zero nonpos contents model v =
     (if worldModelPtr v = model then v
      else ask [RepaintView, AnnounceViewRect] (syncView zero nonpos contents (miniSetWorldModel model
        (v\<lparr>worldModelPtr := model,
           connections := connectTo model ViewListener (disconnectFrom (worldModelPtr v) ViewListener (connections v))\<rparr>))))"

definition setPendingEdits ::
  "'f \<Rightarrow> ('f \<Rightarrow> bool) \<Rightarrow> ('m \<Rightarrow> WorldModel) \<Rightarrow> (CellKey \<times> nat) list \<Rightarrow> ('m, 'f) FollowState \<Rightarrow> ('m, 'f) FollowState" where
  "setPendingEdits zero nonpos contents edits v =
     ask [RepaintView] (syncView zero nonpos contents (v\<lparr>pendingMarks := edits\<rparr>))"

text \<open>The signal \<open>worldChanged\<close> of a model runs the listeners connected to it.\<close>

fun runListener ::
  "'f \<Rightarrow> ('f \<Rightarrow> bool) \<Rightarrow> ('m \<Rightarrow> WorldModel) \<Rightarrow> Listener \<Rightarrow> ('m, 'f) FollowState \<Rightarrow> ('m, 'f) FollowState" where
  "runListener zero nonpos contents ViewListener v = ask [RepaintView] (syncView zero nonpos contents v)"
| "runListener zero nonpos contents MapListener v = ask [RepaintMap] v"

definition worldChanged ::
  "'f \<Rightarrow> ('f \<Rightarrow> bool) \<Rightarrow> ('m \<Rightarrow> WorldModel) \<Rightarrow> 'm \<Rightarrow> ('m, 'f) FollowState \<Rightarrow> ('m, 'f) FollowState" where
  "worldChanged zero nonpos contents m v =
     fold (\<lambda>(m', l) v. if m' = m then runListener zero nonpos contents l v else v) (connections v) v"

datatype 'm FollowEvent = SetModel "'m option" | SetPending "(CellKey \<times> nat) list" | Changed 'm

fun followEvent ::
  "'f \<Rightarrow> ('f \<Rightarrow> bool) \<Rightarrow> ('m \<Rightarrow> WorldModel) \<Rightarrow> 'm FollowEvent \<Rightarrow> ('m, 'f) FollowState \<Rightarrow> ('m, 'f) FollowState" where
  "followEvent zero nonpos contents (SetModel model) v = setWorldModel zero nonpos contents model v"
| "followEvent zero nonpos contents (SetPending edits) v = setPendingEdits zero nonpos contents edits v"
| "followEvent zero nonpos contents (Changed m) v = worldChanged zero nonpos contents m v"

definition followsOne :: "('m, 'f) FollowState \<Rightarrow> bool" where
  "followsOne v \<longleftrightarrow> miniModelPtr v = worldModelPtr v \<and>
     connections v = (case worldModelPtr v of None \<Rightarrow> [] | Some m \<Rightarrow> [(m, ViewListener), (m, MapListener)])"

lemma followsOne_ask [simp]: "followsOne (ask cs v) = followsOne v"
  by (simp add: followsOne_def ask_def)

lemma followsOne_sync [simp]: "followsOne (syncView z np f v) = followsOne v"
  by (simp add: followsOne_def syncView_def split: option.split)

lemma followsOne_changed:
  assumes "followsOne v"
  shows "worldChanged z np f m v = (if worldModelPtr v = Some m
      then ask [RepaintMap] (ask [RepaintView] (syncView z np f v)) else v)"
  using assms by (auto simp: followsOne_def worldChanged_def split: option.splits)

lemma followsOne_event: "followsOne v \<Longrightarrow> followsOne (followEvent z np f e v)"
proof (cases e)
  case (SetModel model)
  assume "followsOne v"
  then have "followsOne (miniSetWorldModel model (v\<lparr>worldModelPtr := model,
      connections := connectTo model ViewListener (disconnectFrom (worldModelPtr v) ViewListener (connections v))\<rparr>))"
    if "worldModelPtr v \<noteq> model"
    using that by (auto simp: followsOne_def miniSetWorldModel_def disconnectFrom_def connectTo_def ask_def
        split: option.splits)
  with \<open>followsOne v\<close> show ?thesis by (simp add: SetModel setWorldModel_def)
next
  case (SetPending edits)
  assume "followsOne v"
  then have "followsOne (v\<lparr>pendingMarks := edits\<rparr>)" by (simp add: followsOne_def)
  then show ?thesis by (simp add: SetPending setPendingEdits_def)
qed (simp add: followsOne_changed)

text \<open>
  The view and its mini map follow one model, and each is connected to it once: whatever models are
  set, in any order and with any changes in between, no listener of an earlier model is left, and
  a change of the current model synchronises the view and repaints view and map exactly once.
\<close>

theorem view_follows_one_model:
  "let v = fold (followEvent zero nonpos contents) es newFollowState
   in followsOne v \<and> worldChanged zero nonpos contents m v =
     (if worldModelPtr v = Some m
      then ask [RepaintMap] (ask [RepaintView] (syncView zero nonpos contents v)) else v)"
proof -
  have "followsOne v \<Longrightarrow> followsOne (fold (followEvent zero nonpos contents) es v)" for v
    by (induction es arbitrary: v) (simp_all add: followsOne_event)
  then have "followsOne (fold (followEvent zero nonpos contents) es newFollowState)"
    by (simp add: followsOne_def newFollowState_def)
  then show ?thesis by (simp add: Let_def followsOne_changed)
qed

end
