(* ===== verification/Panel_Accounts.thy ===== *)
theory Panel_Accounts
  imports Resync_Repair Client_App
begin

section \<open>The players panel shows the server's accounts\<close>

text \<open>
  The way of the statistics: the tick serializes accounts and live cells, the network manager
  writes the bytes to every session, the client's reader parses them and emits a signal, and
  the window's slot fills the panel. The parts are \<open>Game_Server\<close>, \<open>Round_Trips\<close>,
  \<open>Client_Network\<close> and \<open>Client_Window\<close>.
\<close>

text \<open>What the network manager does with a payload of the tick.\<close>

lemma statsBroadcast_all:
  "registered n \<Longrightarrow> map_of (sessions n) p = Some sid \<Longrightarrow> SendTcp sid payload \<in> set (statsBroadcast payload n)"
  by (auto simp: statsBroadcast_def image_iff dest!: map_of_SomeD intro: rev_bexI)

text \<open>The entries of a tick's statistics, one per account when there are at most 65535.\<close>

definition accountEntry :: "GameServer \<Rightarrow> PlayerId \<Rightarrow> ServerStatsEntry" where
  "accountEntry s p = \<lparr>statPlayerId = p, statBalance = getBalance (resources s) p,
     statLiveCells = (if p = 0 then 0 else of_nat (liveCellsOf (world s) p))\<rparr>"

definition accountEntries :: "GameServer \<Rightarrow> ServerStatsEntry list" where
  "accountEntries s = map (accountEntry s) (sort (getPlayerIds (resources s)))"

lemma find_accountEntry:
  "find (\<lambda>st. statPlayerId st = p) (rev (map (accountEntry s) ps)) =
     (if p \<in> set ps then Some (accountEntry s p) else None)"
  by (induction ps rule: rev_induct) (auto simp: accountEntry_def)

lemma stats_signal:
  assumes "networkManager s \<noteq> NoNetwork" "tcpReadBuffer cl = []"
    and "length (getPlayerIds (resources (fst (onTick s)))) \<le> 65535"
  shows "\<exists>payload gen. BroadcastServerStats payload \<in> set (snd (onTick s)) \<and>
    snd (onTcpReadyRead payload cl) = [ServerStatsUpdated gen (accountEntries (fst (onTick s)))]"
proof -
  let ?s = "fst (onTick s)"
  have "take 65535 (sort (getPlayerIds (resources ?s))) = sort (getPlayerIds (resources ?s))"
    using assms(3) by simp
  with onTick_statsPayload [OF assms(1), of "[]"] obtain payload where
    "BroadcastServerStats payload \<in> set (snd (onTick s))"
    "tryParseServerStatsMessage payload = (Some \<lparr>statsGeneration = broadcastSeq ?s,
        statsPlayers = accountEntries ?s\<rparr>, [])"
    by (auto simp: accountEntries_def accountEntry_def [abs_def])
  moreover have "readStats [] = ([], [])"
    by (simp add: readStats.simps tryParseServerStatsMessage.simps kServerStatsHeader_def)
  ultimately show ?thesis
    using assms(2) by (auto simp: onTcpReadyRead_def readStats.simps [of payload])
qed


lemma sampleServer_ids: "getPlayerIds (resources (fst (onTick sampleServer))) = [7]"
proof -
  let ?r = "resources (fst (onTick sampleServer))"
  let ?b = "\<lambda>X Y. if sameCoord X 3 \<and> sameCoord Y (- 4) then \<lparr>alive = True, owner = 7\<rparr> else deadCell"
  have "accounts (absGame (fst (onTick sampleServer))) = payLive ?b [7 \<mapsto> 8]"
    using absGame_tick [OF wf_sampleServer]
    by (simp add: absGame_sampleServer lifeStep_dead gameCommand_def placeSample_def)
  moreover have "gridLive ?b p = 0" if "p \<noteq> 7" for p
  proof -
    have none: "\<not> (alive (?b X Y) \<and> owner (?b X Y) = p)" for X Y using that by (simp add: deadCell_def)
    then have "{(X, Y). inRange X \<and> inRange Y \<and> alive (?b X Y) \<and> owner (?b X Y) = p} = {}" by blast
    then show ?thesis by (simp only: gridLive_def card.empty)
  qed
  ultimately have "accounts (absGame (fst (onTick sampleServer))) p = None \<longleftrightarrow> p \<noteq> 7" for p
    by (cases "p = 7") (simp_all add: payLive_def)
  then have "map_of (balances ?r) p = None \<longleftrightarrow> p \<noteq> 7" for p by (simp add: absGame_def)
  then have "set (getPlayerIds ?r) = {7}"
    by (auto simp: getPlayerIds_def map_of_eq_None_iff)
  moreover have "distinct (getPlayerIds ?r)"
    using wf_onTick [OF wf_sampleServer] by (simp add: wf_server_def wf_resources_def getPlayerIds_def)
  ultimately have "length (getPlayerIds ?r) = 1" by (metis distinct_card is_singletonI is_singleton_altdef)
  with \<open>set (getPlayerIds ?r) = {7}\<close> show ?thesis by (cases "getPlayerIds ?r") auto
qed


end
