(* ===== verification/Gap_Detection.thy ===== *)
theory Gap_Detection
  imports Mirror Game_Runs
begin

section \<open>What the client takes for a loss\<close>

text \<open>
  The client asks for a resync whenever a delta's sequence number is not the last one plus one.
  The server numbers its ticks, not its updates: a tick that changes nothing takes a number
  and sends nothing.
\<close>

subsection \<open>Resync requests are gaps\<close>

fun gaps :: "u32 option \<Rightarrow> (u32 \<times> byte) list \<Rightarrow> nat" where
  "gaps prev [] = 0"
| "gaps prev ((q, f) # qs) =
     (if f \<noteq> kFlagFull \<and> prev \<noteq> None \<and> q \<noteq> the prev + 1 then 1 else 0) + gaps (Some q) qs"

definition resyncs :: "ClientEffect list \<Rightarrow> nat" where
  "resyncs effs = length (filter (\<lambda>e. e = TcpWrite [kMsgResyncReq]) effs)"

lemma resyncs_simps [simp]:
  "resyncs [] = 0" "resyncs (es @ es') = resyncs es + resyncs es'"
  "resyncs (e # es) = (if e = TcpWrite [kMsgResyncReq] then 1 else 0) + resyncs es"
  by (simp_all add: resyncs_def)

lemma resyncs_gaps:
  assumes "isConnected cl" "\<forall>(q, f, c, es) \<in> set ps. length es \<le> 125"
  shows "resyncs (snd (onUdpReadyRead (map (\<lambda>(q, f, c, es). encodePacket q f c es) ps) cl)) =
    gaps (lastSeqNum cl) (map (\<lambda>(q, f, c, es). (q, f)) ps)"
  using assms
proof (induction ps arbitrary: cl)
  case (Cons p ps)
  obtain q f c es where p: "p = (q, f, c, es)" by (cases p)
  have "length es \<le> 125" using Cons.prems(2) p by auto
  from parse_encodePacket [OF this, of q f c "[]"] Cons.prems(1)
  have "fst (applyDatagram (encodePacket q f c es) cl) = cl\<lparr>lastSeqNum := Some q\<rparr>"
    "resyncs (snd (applyDatagram (encodePacket q f c es) cl)) = gaps (lastSeqNum cl) [(q, f)]"
    by (auto simp: applyDatagram_def sendResync_def Let_def split: option.splits)
  moreover have "isConnected (cl\<lparr>lastSeqNum := Some q\<rparr>)" using Cons.prems(1) by (simp add: isConnected_def)
  ultimately show ?case
    using Cons.IH [of "cl\<lparr>lastSeqNum := Some q\<rparr>"] Cons.prems(2) p
    by (simp add: Let_def case_prod_beta)
qed simp

lemma resyncs_delta:
  assumes "isConnected cl" "lastSeqNum cl = Some prev" "smallPackets ps"
  shows "resyncs (snd (onUdpReadyRead (map (\<lambda>(c, es). encodePacket q kFlagDelta c es) ps) cl)) =
    length ps - (if q = prev + 1 then 1 else 0)"
proof -
  let ?qs = "map (\<lambda>(c, es). (q, kFlagDelta, c, es)) ps"
  have ne: "kFlagDelta \<noteq> kFlagFull" by (simp add: kFlagDelta_def kFlagFull_def)
  have same: "gaps (Some q) (map (\<lambda>(c, es). (q, kFlagDelta)) ps) = length ps" for ps :: "(ChunkCoord \<times> Entry list) list"
    using ne by (induction ps) auto
  have "gaps (Some prev) (map (\<lambda>(c, es). (q, kFlagDelta)) ps) = length ps - (if q = prev + 1 then 1 else 0)"
    using ne by (cases ps) (auto simp: same)
  moreover have "\<forall>(q, f, c, es) \<in> set ?qs. length es \<le> 125" using assms(3) by (auto simp: smallPackets_def)
  from resyncs_gaps [OF assms(1) this] have "resyncs (snd (onUdpReadyRead
      (map (\<lambda>(c, es). encodePacket q kFlagDelta c es) ps) cl)) =
      gaps (lastSeqNum cl) (map (\<lambda>(c, es). (q, kFlagDelta)) ps)"
    by (simp add: comp_def case_prod_unfold)
  ultimately show ?thesis using assms(2) by simp
qed

subsection \<open>Idle ticks\<close>

text \<open>
  C35. Idle ticks look like losses: after a tick in which nothing changed, and so nothing was
  sent, a connected client that had seen the number of the tick before asks for a resync at
  every packet of the next update, although no datagram was lost; had there been no idle tick it
  would have asked at all but the first.
\<close>

theorem idle_tick_looks_like_loss:
  assumes "networkManager s \<noteq> NoNetwork" "tickUpdate s = []"
    and "isConnected cl" "lastSeqNum cl = Some (broadcastSeq s)"
  shows "\<exists>ds. sendPayloadTo (tickUpdate (onCommandsFromNetwork cmds (fst (onTick s)))) = Some ds \<and>
    resyncs (snd (onUdpReadyRead ds cl)) = length ds \<and>
    resyncs (snd (onUdpReadyRead ds (cl\<lparr>lastSeqNum := Some (broadcastSeq s + 1)\<rparr>))) = length ds - 1"
proof -
  let ?s = "onCommandsFromNetwork cmds (fst (onTick s))"
  let ?ps = "deltaPackets (chunks (fst (afterCommands ?s)))"
  have s: "networkManager ?s \<noteq> NoNetwork" "broadcastSeq ?s = broadcastSeq s + 1"
    using assms(1) by (simp_all add: onCommandsFromNetwork_def onTick_state)
  have "sendPayloadTo (tickUpdate ?s) = Some (map (\<lambda>(c, es). encodePacket (broadcastSeq ?s + 1) kFlagDelta c es) ?ps)"
    by (simp add: tickUpdate_eq [OF s(1)] sendPayloadTo_encodeAll smallPackets_delta)
  moreover have "isConnected (cl\<lparr>lastSeqNum := Some (broadcastSeq s + 1)\<rparr>)"
    using assms(3) by (simp add: isConnected_def)
  ultimately show ?thesis
    using resyncs_delta [OF assms(3,4) smallPackets_delta]
      resyncs_delta [OF _ _ smallPackets_delta, of "cl\<lparr>lastSeqNum := Some (broadcastSeq s + 1)\<rparr>" "broadcastSeq s + 1"]
    by (simp add: s(2))
qed

lemma payLive_dead: "payLive (\<lambda>X Y. deadCell) accts = accts"
  by (auto simp: payLive_def fun_eq_iff deadCell_def gridLive_def split: option.split)

lemma newWorldModel_ownerAt: "ownerAt newWorldModel x y = 0"
  by (simp add: newWorldModel_def ownerAt_def)

text \<open>
  Player 7 joins, a tick passes with nothing to do, then the player's first cell is placed: the
  update with that cell is not empty, and it is taken for a loss.
\<close>

theorem idle_tick_looks_like_loss_witness:
  "\<exists>ds. sendPayloadTo (tickUpdate (onCommandsFromNetwork [placeSample]
      (fst (onTick (onPlayerJoined 7 (newGameServer BoostNetwork)))))) = Some ds \<and> ds \<noteq> [] \<and>
    resyncs (snd (onUdpReadyRead ds (newClient\<lparr>tcpState := Connected, lastSeqNum := Some 0\<rparr>))) = length ds"
proof -
  let ?s = "onPlayerJoined 7 (newGameServer BoostNetwork)"
  let ?t = "onCommandsFromNetwork [placeSample] (fst (onTick ?s))"
  let ?cl = "newClient\<lparr>tcpState := Connected, lastSeqNum := Some 0\<rparr>"
  have s: "networkManager ?s \<noteq> NoNetwork" "broadcastSeq ?s = 0"
    by (simp_all add: onPlayerJoined_def newGameServer_def)
  have "chunks (fst (afterCommands ?s)) = []"
    by (simp add: onPlayerJoined_def newGameServer_def afterCommands_def emptyQueue_def newWorld_def
        simulateGeneration_def exchangeBorders_def ensureSimulationMarginUnlocked_def
        chunksToCreate_def runChunkTasks_def Let_def)
  then have idle: "tickUpdate ?s = []" by (simp add: tickUpdate_eq [OF s(1)] deltaPackets_def encodeAll_def)
  have cl: "isConnected ?cl" "lastSeqNum ?cl = Some (broadcastSeq ?s)" by (simp_all add: isConnected_def s(2))
  obtain ds where ds: "sendPayloadTo (tickUpdate ?t) = Some ds" "resyncs (snd (onUdpReadyRead ds ?cl)) = length ds"
    using idle_tick_looks_like_loss [OF s(1) idle cl, of "[placeSample]"] by blast
  have "ds \<noteq> []"
  proof
    assume none: "ds = []"
    have "sessionInv (onCommandsFromNetwork [] (fold onPlayerJoined [7] (newGameServer BoostNetwork))) newWorldModel"
      by (rule sessionInv_inputs [OF sessionInv_start])
    then have "sessionInv ?s newWorldModel" by (simp add: onCommandsFromNetwork_def)
    from sessionInv_tick [OF this, of newClient] have "sessionInv (fst (onTick ?s)) newWorldModel"
      by (simp add: idle sendPayloadTo.simps deliver_def)
    from sessionInv_tick [OF sessionInv_inputs [OF this, of "[placeSample]" "[]"], of newClient]
    have "mirrors newWorldModel (world (fst (onTick ?t)))"
      using ds(1) none by (simp add: sessionInv_def deliver_def)
    moreover have "inRange 3 \<and> inRange (- 4)" by (simp add: inRange_def)
    ultimately have "shown (cellAt (world (fst (onTick ?t))) 3 (- 4)) = 0"
      unfolding mirrors_def by (metis newWorldModel_ownerAt)
    moreover have "absGame (fst (onTick ?t)) =
        fold gameStep [Join 7, Tick, Send [placeSample], Tick] emptyGame"
      using server_game.abst_run [OF wf_newGameServer [of BoostNetwork],
          of "[Join 7, Tick, Send [placeSample], Tick]"] by (simp add: absGame_start)
    then have "cellAt (world (fst (onTick ?t))) 3 (- 4) = \<lparr>alive = True, owner = 7\<rparr>"
      by (simp add: absGame_def emptyGame_def lifeStep_dead gameCommand_def placeSample_def payLive_dead sameCoord_def)
    ultimately show False by (simp add: shown_def)
  qed
  with ds show ?thesis by blast
qed

end
