(* ===== verification/Edit_To_Picture.thy ===== *)
theory Edit_To_Picture
  imports Client_Edits Game_Runs
begin

section \<open>From a click to the picture\<close>

text \<open>
  The whole way of an edit: the window judges the click, the runtime posts the call, the client
  writes bytes, the player's session reads a command, the next tick plays it, and its update
  comes back as datagrams into the window's model. What the player sees then is the abstract
  game's board.
\<close>

definition afterEdits ::
  "(TcpState \<Rightarrow> bool) \<Rightarrow> TcpState \<Rightarrow> RuntimeCall list \<Rightarrow> GameNetworkClient \<Rightarrow> nat \<Rightarrow> 'ep NetManager \<Rightarrow>
   GameServer \<Rightarrow> GameServer" where
  \<comment> \<open>the server once the posted calls' bytes have been read by the player's session\<close>
  "afterEdits emits st calls c sid n s =
     fold onCommandsFromNetwork (snd (readSession (written (snd (runPosted emits st calls c))) sid n)) s"

lemma sendBatches:
  "absGame (fold onCommandsFromNetwork bs s) = gameStep (Send (concat bs)) (absGame s)"
  by (induction bs arbitrary: s)
    (simp_all add: absGame_def onCommandsFromNetwork_def commands.contents_pushes)

lemma batches_frame:
  "world (fold onCommandsFromNetwork bs s) = world s \<and> resources (fold onCommandsFromNetwork bs s) = resources s \<and>
   networkManager (fold onCommandsFromNetwork bs s) = networkManager s"
  by (induction bs arbitrary: s) (simp_all add: onCommandsFromNetwork_def)

lemma edits_to_picture:
  assumes "server_reachable s" "networkManager s \<noteq> NoNetwork" "mirrors m (world s)"
    and "isConnected c" "playerOf n sid = playerId c" "commandCallbackSet n"
  shows "\<exists>ds. sendPayloadTo (tickUpdate (afterEdits emits st (map (\<lambda>(a, x, y). editCall a x y) edits) c sid n s)) =
      Some ds \<and>
    (\<forall>X Y. inRange X \<and> inRange Y \<longrightarrow>
       ownerAt (deliver (snd (onUdpReadyRead ds cl)) m) (word_of_int X) (word_of_int Y) =
       shown (board (gameStep Tick (gameStep (Send (map (\<lambda>(a, x, y). editCommand (playerId c) a x y) edits))
         (absGame s))) X Y))"
proof -
  let ?s = "afterEdits emits st (map (\<lambda>(a, x, y). editCall a x y) edits) c sid n s"
  let ?cmds = "map (\<lambda>(a, x, y). editCommand (playerId c) a x y) edits"
  let ?bs = "map (\<lambda>(a, x, y). [editCommand (playerId c) a x y]) edits"
  have s: "?s = fold onCommandsFromNetwork ?bs s"
    using edits_read [OF assms(4-6), of emits st edits] by (auto simp: afterEdits_def)
  have "concat ?bs = ?cmds" by (induction edits) auto
  then have game: "absGame ?s = gameStep (Send ?cmds) (absGame s)" by (simp only: s sendBatches)
  have inv: "server_inv s" using assms(1) by (rule server_reachable_server_inv)
  then have "sessionInv ?s m"
    using assms(2,3) by (simp add: s sessionInv_def server_inv_def wf_server_def batches_frame)
  then have wf: "wf_server ?s" and "\<exists>ds. sendPayloadTo (tickUpdate ?s) = Some ds \<and>
      mirrors (deliver (snd (onUdpReadyRead ds cl)) m) (world (fst (onTick ?s)))"
    using sessionInv_tick [of ?s m cl] by (auto simp: sessionInv_def)
  moreover have "board (absGame t) = cellAt (world t)" for t by (simp add: absGame_def)
  then have "cellAt (world (fst (onTick ?s))) = board (gameStep Tick (gameStep (Send ?cmds) (absGame s)))"
    using absGame_tick [OF wf] game by metis
  ultimately show ?thesis unfolding mirrors_def by simp
qed

text \<open>
  C7. A click comes back as the game says: when the client mirrors the server and is connected as
  the window's player, then after a click in immediate mode, the server's reading of the bytes
  written for it, the next tick and the delivery of its update, every position in range shows the
  board of the abstract game after the same tick, in which the clicked edit, if the window let
  it pass, came after the commands that were already waiting.
\<close>

theorem click_comes_back:
  assumes "server_reachable s" "networkManager s \<noteq> NoNetwork" "mirrors (worldModel w) (world s)"
    and "modeCombo w = Immediate" "isConnected c" "playerId c = me w"
    and "playerOf n sid = me w" "commandCallbackSet n"
  shows "\<exists>ds. sendPayloadTo (tickUpdate (afterEdits emits st (snd (onGridCellClicked x y w)) c sid n s)) = Some ds \<and>
    (\<forall>X Y. inRange X \<and> inRange Y \<longrightarrow>
       ownerAt (deliver (snd (onUdpReadyRead ds cl)) (worldModel w)) (word_of_int X) (word_of_int Y) =
       shown (board (gameStep Tick (gameStep
         (Send (if sendable w (actionCombo w) x y then [editCommand (me w) (actionCombo w) x y] else []))
         (absGame s))) X Y))"
proof -
  let ?edits = "if sendable w (actionCombo w) x y then [(actionCombo w, x, y)] else []"
  have calls: "snd (onGridCellClicked x y w) = map (\<lambda>(a, x, y). editCall a x y) ?edits"
    using assms(4) by (simp add: onGridCellClicked_def sendAction_calls)
  have cmds: "map (\<lambda>(a, x, y). editCommand (playerId c) a x y) ?edits =
      (if sendable w (actionCombo w) x y then [editCommand (me w) (actionCombo w) x y] else [])"
    by (simp add: assms(6))
  have id: "playerOf n sid = playerId c" using assms(6,7) by simp
  from edits_to_picture [OF assms(1-3,5) id assms(8), of emits st ?edits cl]
  show ?thesis by (simp only: calls cmds)
qed

text \<open>A click that places player 7's first cell.\<close>

theorem click_comes_back_witness:
  "\<exists>(w :: GameWindow) ds. sendPayloadTo (tickUpdate (afterEdits (\<lambda>_. True) Unconnected (snd (onGridCellClicked 3 (- 4) w))
      (newClient\<lparr>playerId := 7, tcpState := Connected\<rparr>) 1 (manager sampleRun)
      (onPlayerJoined 7 (newGameServer BoostNetwork)))) = Some ds \<and>
    ownerAt (deliver (snd (onUdpReadyRead ds newClient)) (worldModel w)) 3 (- 4) = 7"
proof -
  let ?s = "onPlayerJoined 7 (newGameServer BoostNetwork)"
  let ?w = "(newWindow 0 0)\<lparr>lastParams := defaultParams\<lparr>paramPlayerId := 7\<rparr>, actionCombo := Place, modeCombo := Immediate\<rparr>"
  let ?c = "newClient\<lparr>playerId := 7, tcpState := Connected\<rparr>"
  have r: "server_reachable ?s" by (intro server_reachable.intros)
  have m: "worldModel ?w = newWorldModel" "me ?w = 7" "serverPlayers ?w = []"
    by (simp_all add: newWindow_def updateNavigationPanel_def frame_simps me_def)
  have world: "mirrors newWorldModel (world ?s)" "networkManager ?s \<noteq> NoNetwork"
    using sessionInv_start by (simp_all add: sessionInv_def onPlayerJoined_def)
  have sent: "sendable ?w Place 3 (- 4)"
    by (simp add: sendable_def m ownerAt_def newWorldModel_def)
  have game: "absGame ?s = \<lparr>board = (\<lambda>X Y. deadCell), accounts = [7 \<mapsto> 10], waiting = []\<rparr>"
  proof -
    have "cellAt newWorld = (\<lambda>X Y. deadCell)" by (intro ext) (rule cellAt_newWorld)
    then show ?thesis
      by (simp add: absGame_def onPlayerJoined_def newGameServer_def addPlayer_def newResourceManager_def
          kStartBalance_def emptyQueue_def)
  qed
  have placed: "board (gameStep Tick (gameStep (Send [editCommand 7 Place 3 (- 4)]) (absGame ?s))) 3 (- 4) =
      \<lparr>alive = True, owner = 7\<rparr>"
    by (simp add: game lifeStep_dead gameCommand_def editCommand_def sameCoord_def)
  have range: "inRange 3 \<and> inRange (- 4)" by (simp add: inRange_def)
  have "\<exists>ds. sendPayloadTo (tickUpdate (afterEdits (\<lambda>_. True) Unconnected (snd (onGridCellClicked 3 (- 4) ?w))
      ?c 1 (manager sampleRun) ?s)) = Some ds \<and>
    (\<forall>X Y. inRange X \<and> inRange Y \<longrightarrow>
       ownerAt (deliver (snd (onUdpReadyRead ds newClient)) (worldModel ?w)) (word_of_int X) (word_of_int Y) =
       shown (board (gameStep Tick (gameStep (Send (if sendable ?w (actionCombo ?w) 3 (- 4)
         then [editCommand (me ?w) (actionCombo ?w) 3 (- 4)] else [])) (absGame ?s))) X Y))"
    by (rule click_comes_back [OF r world(2)])
      (simp_all only: m world(1), simp_all add: isConnected_def playerOf_def sampleRun_eq sampleSession_def)
  then obtain ds where ds: "sendPayloadTo (tickUpdate (afterEdits (\<lambda>_. True) Unconnected
      (snd (onGridCellClicked 3 (- 4) ?w)) ?c 1 (manager sampleRun) ?s)) = Some ds"
    "\<forall>X Y. inRange X \<and> inRange Y \<longrightarrow>
       ownerAt (deliver (snd (onUdpReadyRead ds newClient)) (worldModel ?w)) (word_of_int X) (word_of_int Y) =
       shown (board (gameStep Tick (gameStep (Send (if sendable ?w (actionCombo ?w) 3 (- 4)
         then [editCommand (me ?w) (actionCombo ?w) 3 (- 4)] else [])) (absGame ?s))) X Y)"
    by (elim exE conjE)
  have cmd: "(if sendable ?w (actionCombo ?w) 3 (- 4) then [editCommand (me ?w) (actionCombo ?w) 3 (- 4)] else []) =
      [editCommand 7 Place 3 (- 4)]"
    using sent m(2) by simp
  from ds(2) [rule_format, OF range]
  have "ownerAt (deliver (snd (onUdpReadyRead ds newClient)) (worldModel ?w)) (word_of_int 3) (word_of_int (- 4)) =
      shown \<lparr>alive = True, owner = 7\<rparr>"
    by (simp only: cmd placed)
  with ds(1) show ?thesis by (intro exI [of _ ?w] exI [of _ ds]) (simp add: shown_def)
qed

end
