(* ===== verification/Client_Shutdown.thy ===== *)
theory Client_Shutdown
  imports Client_App
begin

section \<open>Disconnecting and closing the client\<close>

text \<open>
  The destructor of \<open>ClientRuntime\<close> posts \<open>disconnectFromServer\<close> behind the calls still waiting,
  blocks until it has run, and then ends the network thread; until then that thread runs the
  posted calls in order, with slots of the sockets in between. What becomes of bytes that the
  socket has buffered is Qt's affair: \<open>onWire\<close> says which bytes reach the network, and what Qt
  documents of \<open>abort\<close> is a hypothesis on it.
\<close>

subsection \<open>The destructor of ClientRuntime\<close>

inductive destroyRuntime :: "(TcpState \<Rightarrow> bool) \<Rightarrow> ClientApp \<Rightarrow> ClientApp \<Rightarrow> bool" for emits where
  blocking_call: "posted app = [] \<Longrightarrow>
    destroyRuntime emits app (netRuns (disconnectFromServer emits after (netClient app)) app)"
| posted_call: "posted app = c # cs \<Longrightarrow>
    destroyRuntime emits (netRuns (invokeClient emits after c (netClient app)) (app\<lparr>posted := cs\<rparr>)) app' \<Longrightarrow>
    destroyRuntime emits app app'"
| slot: "socket_slot emits (netClient app) r \<Longrightarrow> destroyRuntime emits (netRuns r app) app' \<Longrightarrow>
    destroyRuntime emits app app'"

text \<open>A client that has nothing left to do: only a new connect would wake it.\<close>

definition shutDown :: "GameNetworkClient \<Rightarrow> bool" where
  "shutDown c \<longleftrightarrow> tcpState c = Unconnected \<and> \<not> udpBound c \<and> \<not> reconnectActive c \<and> manualDisconnect c \<and>
     tcpReadBuffer c = [] \<and> lastSeqNum c = None"

lemma disconnect_shutDown: "shutDown (fst (disconnectFromServer emits after c))"
  by (simp add: shutDown_def disconnectFromServer_def abortTcp_def onTcpDisconnected_def cancelReconnect_def Let_def)

lemma shutDown_stays:
  assumes "shutDown c" "client_step emits c c'"
  shows "(\<exists>h tp up p. c' = fst (connectToServer emits h tp up p c)) \<or> shutDown c'"
  using assms(2)
proof (cases rule: client_step.cases)
  case (disconnect "after")
  then show ?thesis using disconnect_shutDown by simp
qed (use assms(1) in \<open>auto simp: shutDown_def\<close>)

lemma netRuns_frame [simp]: "posted (netRuns r app) = posted app" "window (netRuns r app) = window app"
  "netClient (netRuns r app) = fst r"
  by (simp_all add: netRuns_def)

lemma destroy_possible: "\<exists>app'. destroyRuntime emits app app'"
proof (induction "posted app" arbitrary: app)
  case Nil
  then show ?case using destroyRuntime.blocking_call [of app emits Unconnected] by auto
next
  case (Cons c cs)
  obtain app' where "destroyRuntime emits (netRuns (invokeClient emits Unconnected c (netClient app)) (app\<lparr>posted := cs\<rparr>)) app'"
    using Cons(1) [of "netRuns (invokeClient emits Unconnected c (netClient app)) (app\<lparr>posted := cs\<rparr>)"] by auto
  then show ?case using destroyRuntime.posted_call [OF Cons(2) [symmetric]] by blast
qed

text \<open>
  C32. Closing the client settles it: the destructor can always finish, and however the sockets
  interleave with the calls still posted, all of these have been run, the window is as it was, and
  the client is disconnected for good: no socket is open, no timer runs, and no step of a
  socket or timer leads out of this state.
\<close>

theorem closing_shuts_down:
  "(\<exists>app'. destroyRuntime emits app app') \<and>
   (\<forall>app'. destroyRuntime emits app app' \<longrightarrow> posted app' = [] \<and> window app' = window app \<and>
      shutDown (netClient app') \<and> (\<forall>c'. client_step emits (netClient app') c' \<longrightarrow>
        (\<exists>h tp up p. c' = fst (connectToServer emits h tp up p (netClient app'))) \<or> shutDown c'))"
proof -
  have "posted app' = [] \<and> window app' = window app \<and> shutDown (netClient app')" if "destroyRuntime emits app app'" for app'
    using that by (induction rule: destroyRuntime.induct) (simp_all add: disconnect_shutDown)
  with destroy_possible shutDown_stays show ?thesis by blast
qed

theorem closing_shuts_down_witness:
  "\<exists>app'. destroyRuntime (\<lambda>_. True) ((newApp 0 0)\<lparr>posted := [CallPlaceCell 1 2]\<rparr>) app' \<and> posted app' = [] \<and>
     shutDown (netClient app')"
  using closing_shuts_down [of "\<lambda>_. True" "(newApp 0 0)\<lparr>posted := [CallPlaceCell 1 2]\<rparr>"] by blast

subsection \<open>Edits in the write buffer\<close>

text \<open>
  What Qt's socket sees: the calls made on it, and the moments at which its event loop writes
  what is buffered.
\<close>

datatype SocketEvent = Called ClientEffect | Flushed

definition noWrite :: "SocketEvent list \<Rightarrow> bool" where
  "noWrite es \<longleftrightarrow> (\<forall>e \<in> set es. e \<noteq> Flushed \<and> (\<forall>bs. e \<noteq> Called (TcpWrite bs)))"

text \<open>
  The documentation of \<open>QAbstractSocket::abort\<close>: it closes the socket immediately and discards
  any pending data in the write buffer.
\<close>

definition abortDiscards :: "(SocketEvent list \<Rightarrow> byte list) \<Rightarrow> bool" where
  "abortDiscards onWire \<longleftrightarrow> (\<forall>es pending later. Flushed \<notin> set pending \<and> noWrite later \<longrightarrow>
     onWire (es @ [Flushed] @ pending @ [Called TcpAbort] @ later) = onWire (es @ [Flushed]))"

definition socketEvents :: "ClientEffect list \<Rightarrow> SocketEvent list" where
  "socketEvents effs = map Called (filter (\<lambda>e. \<not> isSignal e) effs)"

lemma runPosted_append:
  "runPosted emits st (xs @ ys) c =
     (let (c1, e1) = runPosted emits st xs c; (c2, e2) = runPosted emits st ys c1 in (c2, e1 @ e2))"
  by (induction xs arbitrary: c) (simp_all add: runPosted_Nil runPosted_Cons case_prod_beta Let_def)

lemma edits_keep_client:
  assumes "isConnected c"
  shows "fst (runPosted emits st (map (\<lambda>(a, x, y). editCall a x y) edits) c) = c"
proof (induction edits)
  case (Cons e edits)
  obtain a x y where e: "e = (a, x, y)" by (cases e)
  obtain bs where "invokeClient emits st (editCall a x y) c = (c, [TcpWrite bs])"
    using invokeClient_edit [OF assms, of a emits st x y] by blast
  with Cons e show ?case by (simp add: runPosted_Cons case_prod_beta Let_def)
qed (simp add: runPosted_Nil)

text \<open>
  C40. Edits sent just before a disconnect are lost: when the network thread runs edits and the
  disconnect behind them before its event loop writes the socket's buffer, nothing of the edits
  reaches the server, for \<open>disconnectFromServer\<close> asks for a graceful close, which would wait for
  the buffer, and aborts the socket in the next line.
\<close>

theorem disconnect_drops_edits:
  assumes "abortDiscards onWire" "isConnected c" "after \<noteq> Unconnected"
  shows "onWire (es @ [Flushed] @ socketEvents (snd (runPosted emits after
      (map (\<lambda>(a, x, y). editCall a x y) edits @ [CallDisconnect]) c))) = onWire (es @ [Flushed])"
proof -
  let ?r = "runPosted emits after (map (\<lambda>(a, x, y). editCall a x y) edits) c"
  have "snd (runPosted emits after (map (\<lambda>(a, x, y). editCall a x y) edits @ [CallDisconnect]) c) =
      snd ?r @ snd (disconnectFromServer emits after c)"
    using edits_keep_client [OF assms(2), of emits "after" edits]
    by (simp add: runPosted_append runPosted_Cons runPosted_Nil case_prod_beta Let_def)
  moreover have "\<exists>later. noWrite later \<and> socketEvents (snd (disconnectFromServer emits after c)) =
      [Called UdpClose, Called TcpDisconnectFromHost] @ [Called TcpAbort] @ later"
    using assms(3) by (auto simp: disconnectFromServer_def abortTcp_def onTcpDisconnected_def cancelReconnect_def
        socketEvents_def noWrite_def Let_def)
  ultimately obtain later where "noWrite later" "socketEvents (snd (runPosted emits after
      (map (\<lambda>(a, x, y). editCall a x y) edits @ [CallDisconnect]) c)) =
      (socketEvents (snd ?r) @ [Called UdpClose, Called TcpDisconnectFromHost]) @ [Called TcpAbort] @ later"
    by (auto simp: socketEvents_def)
  moreover have "Flushed \<notin> set (socketEvents (snd ?r) @ [Called UdpClose, Called TcpDisconnectFromHost])"
    by (auto simp: socketEvents_def)
  ultimately show ?thesis using assms(1) unfolding abortDiscards_def by (metis append.assoc)
qed

text \<open>A socket that buffers all writes until the event loop flushes them.\<close>

fun bufferedWire :: "byte list \<Rightarrow> SocketEvent list \<Rightarrow> byte list" where
  "bufferedWire buf [] = []"
| "bufferedWire buf (Flushed # es) = buf @ bufferedWire [] es"
| "bufferedWire buf (Called (TcpWrite bs) # es) = bufferedWire (buf @ bs) es"
| "bufferedWire buf (Called TcpAbort # es) = bufferedWire [] es"
| "bufferedWire buf (Called e # es) = bufferedWire buf es"

lemma bufferedWire_quiet: "noWrite es \<Longrightarrow> bufferedWire [] es = []"
proof (induction es)
  case (Cons e es)
  then show ?case by (cases "([] :: byte list, e # es)" rule: bufferedWire.cases) (auto simp: noWrite_def)
qed simp

lemma bufferedWire_pending: "Flushed \<notin> set ps \<Longrightarrow> bufferedWire buf (ps @ Called TcpAbort # es) = bufferedWire [] es"
proof (induction ps arbitrary: buf)
  case (Cons p ps)
  then show ?case by (cases "(buf, p # ps)" rule: bufferedWire.cases) auto
qed simp

lemma bufferedWire_flush: "bufferedWire buf (es @ Flushed # es') = bufferedWire buf (es @ [Flushed]) @ bufferedWire [] es'"
  by (induction buf es rule: bufferedWire.induct) simp_all

lemma bufferedWire_discards: "abortDiscards (bufferedWire [])"
  unfolding abortDiscards_def
proof (intro allI impI)
  fix es pending later
  assume "Flushed \<notin> set pending \<and> noWrite later"
  then have "bufferedWire [] (pending @ Called TcpAbort # later) = []"
    by (simp add: bufferedWire_pending bufferedWire_quiet)
  then show "bufferedWire [] (es @ [Flushed] @ pending @ [Called TcpAbort] @ later) = bufferedWire [] (es @ [Flushed])"
    using bufferedWire_flush [of "[]" es "pending @ Called TcpAbort # later"] by simp
qed

theorem disconnect_drops_edits_witness:
  "bufferedWire [] ([Flushed] @ socketEvents (snd (runPosted (\<lambda>_. True) Closing [CallPlaceCell 3 4, CallDisconnect]
     (newClient\<lparr>tcpState := Connected\<rparr>)))) = []"
  using disconnect_drops_edits [OF bufferedWire_discards, of "newClient\<lparr>tcpState := Connected\<rparr>" Closing "[]" "\<lambda>_. True" "[(Place, 3, 4)]"]
  by (simp add: isConnected_def)

end
