(* ===== verification/Client_Protocol.thy ===== *)
theory Client_Protocol
  imports Server_World Client_Window
begin

section \<open>ClientProtocol.h: the client's own constants\<close>

text \<open>
  The client does not include the server's headers: it repeats their constants, and its window
  two of the prices. Here they are as the client's files have them, with the lemma that
  both sides agree; the models of the client use the server's names for them because of it.
\<close>

definition kMagic_client :: u32 where "kMagic_client = 0x4D4C4946"
definition kCmdPlace_client :: byte where "kCmdPlace_client = 0x00"
definition kCmdRemove_client :: byte where "kCmdRemove_client = 0x01"
definition kCmdToggle_client :: byte where "kCmdToggle_client = 0x02"
definition kMsgResyncReq_client :: byte where "kMsgResyncReq_client = 0x10"
definition kMsgServerStats_client :: byte where "kMsgServerStats_client = 0x20"

definition kHandshakeSize_client :: nat where "kHandshakeSize_client = 12"
definition kCommandSize_client :: nat where "kCommandSize_client = 25"
definition kServerStatsHeader_client :: nat where "kServerStatsHeader_client = 7"
definition kServerStatsEntry_client :: nat where "kServerStatsEntry_client = 24"

definition kUdpHeader_client :: nat where "kUdpHeader_client = 15"
definition kUdpCellEntry_client :: nat where "kUdpCellEntry_client = 11"
definition kMaxUdpPayload_client :: nat where "kMaxUdpPayload_client = 1400"

definition kOffSeqNum_client :: nat where "kOffSeqNum_client = 0"
definition kOffFlags_client :: nat where "kOffFlags_client = 4"
definition kOffChunkX_client :: nat where "kOffChunkX_client = 5"
definition kOffChunkY_client :: nat where "kOffChunkY_client = 9"
definition kOffCellCount_client :: nat where "kOffCellCount_client = 13"

definition kFlagDelta_client :: byte where "kFlagDelta_client = 0x00"
definition kFlagFull_client :: byte where "kFlagFull_client = 0x01"

definition kClientRemoveAward :: u64 where "kClientRemoveAward = 1"

lemmas client_constants = kMagic_client_def kCmdPlace_client_def kCmdRemove_client_def kCmdToggle_client_def
  kMsgResyncReq_client_def kMsgServerStats_client_def kHandshakeSize_client_def kCommandSize_client_def
  kServerStatsHeader_client_def kServerStatsEntry_client_def kUdpHeader_client_def kUdpCellEntry_client_def
  kMaxUdpPayload_client_def kOffSeqNum_client_def kOffFlags_client_def kOffChunkX_client_def kOffChunkY_client_def
  kOffCellCount_client_def kFlagDelta_client_def kFlagFull_client_def kClientRemoveAward_def kClientPlaceCost_def
  kChunkWidth_def kChunkHeight_def

lemmas server_constants = kMagic_def kCmdPlace_def kCmdRemove_def kCmdToggle_def kMsgResyncReq_def kMsgServerStats_def
  kFlagDelta_def kFlagFull_def kPlaceCost_def kRemoveAward_def

lemma protocols_agree:
  "kMagic_client = kMagic" "kCmdPlace_client = kCmdPlace" "kCmdRemove_client = kCmdRemove"
  "kCmdToggle_client = kCmdToggle" "kMsgResyncReq_client = kMsgResyncReq" "kMsgServerStats_client = kMsgServerStats"
  "kHandshakeSize_client = kHandshakeSize" "kCommandSize_client = kCommandSize"
  "kServerStatsHeader_client = kServerStatsHeader" "kServerStatsEntry_client = kServerStatsEntry"
  "kUdpHeader_client = kUdpHeader" "kUdpCellEntry_client = kUdpCellEntry" "kMaxUdpPayload_client = kMaxUdpPayload"
  "kOffSeqNum_client = kOffSeqNum" "kOffFlags_client = kOffFlags" "kOffChunkX_client = kOffChunkX"
  "kOffChunkY_client = kOffChunkY" "kOffCellCount_client = kOffCellCount"
  "kFlagDelta_client = kFlagDelta" "kFlagFull_client = kFlagFull"
  "kClientPlaceCost = kPlaceCost" "kClientRemoveAward = kRemoveAward"
  by (simp_all only: client_constants server_constants size_consts)

lemma chunk_sizes_agree: "kChunkWidth = int ChunkWidth" "kChunkHeight = int ChunkHeight"
  by (simp_all add: client_constants ChunkWidth_def ChunkHeight_def)

end
