(* ===== verification/Panel_Text.thy ===== *)
theory Panel_Text
  imports Client_Window
begin

section \<open>GameWindow: the combo boxes and the text of the pending list\<close>

text \<open>
  \<open>Client_Window\<close> keeps the data of a widget. Here is the text the window makes of the pending
  edits, the items of its two combo boxes, and its own copy of \<open>floorDiv\<close>, with what ties them
  to that data: the texts of the list tell the edits apart.
\<close>

fun actionName :: "EditAction \<Rightarrow> string" where
  "actionName Place = ''place''"
| "actionName Remove = ''remove''"
| "actionName Toggle = ''toggle''"

text \<open>\<open>QString::arg\<close> of an integer: its decimal digits.\<close>

fun digits :: "nat \<Rightarrow> string" where
  "digits n = (if n < 10 then [] else digits (n div 10)) @ [char_of (48 + n mod 10)]"

definition decimal :: "int \<Rightarrow> string" where
  "decimal i = (if i < 0 then CHR ''-'' # digits (nat (- i)) else digits (nat i))"

definition pendingText :: "EditAction \<times> CellKey \<Rightarrow> string" where
  "pendingText e = actionName (fst e) @ '' ('' @ decimal (sint (keyX (snd e))) @ '', '' @
     decimal (sint (keyY (snd e))) @ '')''"

definition pendingTexts :: "GameWindow \<Rightarrow> string list" where
  "pendingTexts w = map pendingText (pendingList w)"

text \<open>The combo boxes: each item's text and the number stored with it, read back from the current item.\<close>

definition actionItems :: "(string \<times> int) list" where
  "actionItems = [(''Toggle'', 0), (''Place'', 1), (''Remove'', 2)]"

definition modeItems :: "(string \<times> int) list" where
  "modeItems = [(''Immediate'', 0), (''Queue then Apply'', 1)]"

definition currentAction :: "int \<Rightarrow> EditAction" where
  "currentAction data = (if data = 1 then Place else if data = 2 then Remove else Toggle)"

definition currentMode :: "int \<Rightarrow> EditMode" where
  "currentMode data = (if data = 1 then Queued else Immediate)"

text \<open>The window's own \<open>floorDiv\<close>.\<close>

definition floorDiv_window :: "int \<Rightarrow> int \<Rightarrow> int" where
  "floorDiv_window value divisor =
     (if divisor \<le> 0 then 0
      else if value \<ge> 0 then value sdiv divisor
      else (value - divisor + 1) sdiv divisor)"

lemma floorDivs_agree: "floorDiv_window = floorDiv"
  by (intro ext) (simp add: floorDiv_window_def floorDiv_def)

lemma items_name_actions:
  "map (actionName \<circ> currentAction \<circ> snd) actionItems = [''toggle'', ''place'', ''remove'']"
  "map (currentAction \<circ> snd) actionItems = [Toggle, Place, Remove]"
  "map (currentMode \<circ> snd) modeItems = [Immediate, Queued]"
  by (simp_all add: actionItems_def modeItems_def currentAction_def currentMode_def)

subsection \<open>Numbers in a text\<close>

definition isDigit :: "char \<Rightarrow> bool" where
  "isDigit c \<longleftrightarrow> of_char c \<ge> (48::nat) \<and> of_char c < (58::nat)"

fun digitsValue :: "nat \<Rightarrow> string \<Rightarrow> nat" where
  "digitsValue v [] = v"
| "digitsValue v (c # cs) = digitsValue (10 * v + (of_char c - 48)) cs"

lemma digitsValue_append: "digitsValue v (xs @ ys) = digitsValue (digitsValue v xs) ys"
  by (induction v xs rule: digitsValue.induct) simp_all

declare digits.simps [simp del]

lemma digit_of: "isDigit (char_of (48 + n mod (10::nat)))" "of_char (char_of (48 + n mod (10::nat)) :: char) = 48 + n mod (10::nat)"
proof -
  have "48 + n mod 10 < (256::nat)" using mod_less_divisor [of 10 n] by linarith
  then show "of_char (char_of (48 + n mod (10::nat)) :: char) = 48 + n mod (10::nat)" by simp
  then show "isDigit (char_of (48 + n mod (10::nat)))" by (simp add: isDigit_def)
qed

lemma digits_digits: "list_all isDigit (digits n)"
  by (induction n rule: digits.induct) (subst digits.simps, auto simp: digit_of(1))

lemma digitsValue_digits: "digitsValue 0 (digits n) = n"
  by (induction n rule: digits.induct) (subst digits.simps, simp add: digitsValue_append digit_of(2))

lemma digits_not_Nil: "digits n \<noteq> []"
  by (subst digits.simps) simp

lemma decimal_inj: "decimal i = decimal j \<Longrightarrow> i = j"
proof -
  have val: "digits m = digits n \<Longrightarrow> m = n" for m n using digitsValue_digits by metis
  have head: "digits m \<noteq> CHR ''-'' # cs" for m cs
    using digits_digits [of m] by (auto simp: isDigit_def)
  note head' = head [symmetric]
  assume "decimal i = decimal j"
  then show "i = j" by (auto simp: decimal_def head head' split: if_splits dest!: val)
qed

text \<open>A number ends where a separator begins.\<close>

lemma decimal_chars: "list_all (\<lambda>c. isDigit c \<or> c = CHR ''-'') (decimal i)"
  using digits_digits [of "nat i"] digits_digits [of "nat (- i)"]
  by (auto simp: decimal_def list_all_iff)

lemma split_at:
  "list_all P xs \<Longrightarrow> list_all P ys \<Longrightarrow> \<not> P c \<Longrightarrow> \<not> P d \<Longrightarrow> xs @ c # us = ys @ d # vs \<Longrightarrow> xs = ys \<and> c # us = d # vs"
proof (induction xs arbitrary: ys)
  case Nil
  then show ?case by (cases ys) auto
next
  case (Cons x xs)
  then show ?case by (cases ys) auto
qed

lemma pendingText_inj: "pendingText e = pendingText e' \<Longrightarrow> e = e'"
proof -
  assume eq: "pendingText e = pendingText e'"
  obtain a k a' k' where e: "e = (a, k)" "e' = (a', k')" by (cases e, cases e')
  obtain x y x' y' where k: "k = CellKey x y" "k' = CellKey x' y'" by (cases k, cases k')
  let ?P = "\<lambda>c. isDigit c \<or> c = CHR ''-''"
  have sep: "\<not> ?P CHR '',''" "\<not> ?P CHR '')''" by (simp_all add: isDigit_def)
  have "a = a'" and num: "decimal (sint x) @ '', '' @ decimal (sint y) @ '')'' = decimal (sint x') @ '', '' @ decimal (sint y') @ '')''"
    using eq unfolding e k pendingText_def by (cases a; cases a'; simp)+
  have "decimal (sint x) = decimal (sint x') \<and> CHR '','' # '' '' @ decimal (sint y) @ '')'' = CHR '','' # '' '' @ decimal (sint y') @ '')''"
    by (rule split_at [of ?P]) (use num decimal_chars sep in simp_all)
  moreover from this have "decimal (sint y) = decimal (sint y')" by simp
  ultimately show ?thesis using \<open>a = a'\<close> by (auto simp: e k dest!: decimal_inj signed_word_eqI)
qed

text \<open>
  The list of pending edits tells them apart: two windows whose refreshed lists read the same,
  line for line, have the same pending edits.
\<close>

theorem list_text_tells_edits:
  assumes "pendingTexts (refreshPendingList w) = pendingTexts (refreshPendingList w')"
  shows "map_of (pendingEdits w) = map_of (pendingEdits w')"
proof -
  have inj: "inj pendingText" by (rule injI) (rule pendingText_inj)
  have list: "pendingList (refreshPendingList w) = pendingList (refreshPendingList w')"
    using assms inj by (simp add: pendingTexts_def map_injective inj_map_eq_map)
  have rebuilt: "map_of (map (\<lambda>(a, k). (k, a)) (pendingList (refreshPendingList v))) = map_of (pendingEdits v)" for v
  proof
    fix key
    let ?es = "pendingEdits v"
    have "map_of (map (\<lambda>k. (k, the (map_of ?es k))) ks) key =
        (if key \<in> set ks then Some (the (map_of ?es key)) else None)" for ks
      by (induction ks) auto
    moreover have "map_of ?es key = None \<longleftrightarrow> key \<notin> fst ` set ?es" by (rule map_of_eq_None_iff)
    ultimately show "map_of (map (\<lambda>(a, k). (k, a)) (pendingList (refreshPendingList v))) key = map_of ?es key"
      by (cases "map_of ?es key") (auto simp: refreshPendingList_def comp_def)
  qed
  show ?thesis using rebuilt [of w] rebuilt [of w'] list by simp
qed

end
