(* ===== verification/Side_Panel.thy ===== *)
theory Side_Panel
  imports Panel_Text
begin

section \<open>GameWindow: where its widgets are placed\<close>

text \<open>
  The tree of layouts the constructor and \<open>createSidePanel\<close> build, statement by statement: a box or
  a form is a list of items to which \<open>addWidget\<close>, \<open>addRow\<close> and \<open>addLayout\<close> append. It decides
  what the user can see and operate: every widget the window keeps is placed exactly once.
\<close>

datatype Member =
  GridViewWidget | StatusLabel | GenerationLabel | LiveCellsLabel | TickDurationLabel | PlayerIdLabel
| BalanceLabel | MyCellsLabel | IncomeLabel | CenterLabel | ChunkLabel | PendingLabel
| DisconnectButton | ResyncButton | ConnectButton | ActionCombo | ModeCombo | PlayersList | PendingList
| ApplyPendingButton | ClearPendingButton

datatype Item =
  Placed Member
| FormRow string Member
| Box "Item list"
| Group string "Item list"
| Stretch

definition addWidget :: "Member \<Rightarrow> Item list \<Rightarrow> Item list" where
  "addWidget m layout = layout @ [Placed m]"

definition addRow :: "string \<Rightarrow> Member \<Rightarrow> Item list \<Rightarrow> Item list" where
  "addRow text m layout = layout @ [FormRow text m]"

definition addItem :: "Item \<Rightarrow> Item list \<Rightarrow> Item list" where
  "addItem i layout = layout @ [i]"

definition createSidePanel :: "Item list" where
  "createSidePanel =
     (let profileLayout = addWidget IncomeLabel (addWidget MyCellsLabel (addWidget BalanceLabel (addWidget PlayerIdLabel [])));
          layout1 = addItem (Group ''Profile'' profileLayout) [];
          sessionLayout = addWidget PendingLabel (addWidget TickDurationLabel (addWidget LiveCellsLabel (addWidget GenerationLabel [])));
          layout2 = addItem (Group ''Session'' sessionLayout) layout1;
          editLayout = addRow ''Mode'' ModeCombo (addRow ''Action'' ActionCombo []);
          layout3 = addItem (Group ''Edits'' editLayout) layout2;
          pendingLayout1 = addWidget PendingList [];
          buttons = addWidget ClearPendingButton (addWidget ApplyPendingButton []);
          pendingLayout2 = addItem (Box buttons) pendingLayout1;
          layout4 = addItem (Group ''Pending'' pendingLayout2) layout3;
          playersLayout = addWidget PlayersList [];
          layout5 = addItem (Group ''Players'' playersLayout) layout4;
          navLayout = addWidget ChunkLabel (addWidget CenterLabel []);
          layout6 = addItem (Group ''Navigation'' navLayout) layout5
      in addItem Stretch layout6)"

record WindowLayout =
  centralWidget :: Member
  rightDock :: "Item list"
  toolbar :: "Item list"
  statusBar :: "Item list"

definition windowLayout :: WindowLayout where
  "windowLayout = \<lparr>centralWidget = GridViewWidget, rightDock = createSidePanel,
     toolbar = addWidget ResyncButton (addWidget DisconnectButton (addWidget ConnectButton [])),
     statusBar = addWidget StatusLabel []\<rparr>"

fun placedIn :: "Item \<Rightarrow> Member list" where
  "placedIn (Placed m) = [m]"
| "placedIn (FormRow text m) = [m]"
| "placedIn (Box items) = concat (map placedIn items)"
| "placedIn (Group title items) = concat (map placedIn items)"
| "placedIn Stretch = []"

definition shownWidgets :: "WindowLayout \<Rightarrow> Member list" where
  "shownWidgets w = centralWidget w # concat (map placedIn (rightDock w @ toolbar w @ statusBar w))"

lemma shownWidgets_window: "shownWidgets windowLayout = [GridViewWidget,
    PlayerIdLabel, BalanceLabel, MyCellsLabel, IncomeLabel, GenerationLabel, LiveCellsLabel, TickDurationLabel,
    PendingLabel, ActionCombo, ModeCombo, PendingList, ApplyPendingButton, ClearPendingButton, PlayersList,
    CenterLabel, ChunkLabel, ConnectButton, DisconnectButton, ResyncButton, StatusLabel]"
  by (simp add: shownWidgets_def windowLayout_def createSidePanel_def addWidget_def addRow_def addItem_def Let_def)

text \<open>Every widget of the window has exactly one place, so every slot behind one can be used.\<close>

theorem widgets_placed_once: "distinct (shownWidgets windowLayout) \<and> set (shownWidgets windowLayout) = UNIV"
proof
  have "m \<in> set (shownWidgets windowLayout)" for m
    unfolding shownWidgets_window by (cases m) simp_all
  then show "set (shownWidgets windowLayout) = UNIV" by blast
qed (simp add: shownWidgets_window)

end
