(* ===== verification/Grid_Animation.thy ===== *)
theory Grid_Animation
  imports Grid_View
begin

section \<open>InfiniteGridView: when the animation asks for a repaint\<close>

text \<open>
  The timer's handler runs every 16 ms: it steps the visual states (\<open>animTick\<close>) and asks for a
  repaint when its flag \<open>changed\<close> is set. The loop sets the flag at every visual state it meets,
  whether or not its values change.
\<close>

fun animLoop :: "('f \<Rightarrow> 'f) \<Rightarrow> ('f \<Rightarrow> 'f) \<Rightarrow> ('f \<Rightarrow> bool) \<Rightarrow> 'f Visuals \<Rightarrow> bool \<Rightarrow> 'f Visuals \<times> bool" where
  "animLoop grow shrink gone [] changed = ([], changed)"
| "animLoop grow shrink gone ((key, v) # rest) changed =
     (let v' = (if targetAlive v then v\<lparr>life := grow (life v)\<rparr> else v\<lparr>life := shrink (life v)\<rparr>)
      in if \<not> targetAlive v' \<and> gone (life v') then animLoop grow shrink gone rest True
         else let (rest', c) = animLoop grow shrink gone rest True in ((key, v') # rest', c))"

text \<open>The handler: the new visual states and whether \<open>viewport()->update()\<close> is called.\<close>

definition animTimeout :: "('f \<Rightarrow> 'f) \<Rightarrow> ('f \<Rightarrow> 'f) \<Rightarrow> ('f \<Rightarrow> bool) \<Rightarrow> 'f Visuals \<Rightarrow> 'f Visuals \<times> bool" where
  "animTimeout grow shrink gone visuals = animLoop grow shrink gone visuals False"

lemma animLoop_eq: "animLoop g s d vs c = (animTick g s d vs, c \<or> vs \<noteq> [])"
  by (induction g s d vs c rule: animLoop.induct) (auto simp: animTick_def Let_def)

lemma animTimeout_eq: "animTimeout g s d vs = (animTick g s d vs, vs \<noteq> [])"
  by (simp add: animTimeout_def animLoop_eq)

text \<open>
  The view never comes to rest: once the fading cells have vanished, every further run of the
  timer's handler asks for a repaint if and only if the model has a live cell within a billion of
  the origin, however long nothing has changed. When the lives of the shown cells are at
  their maximum the run changes no visual state, and the repaint is asked for all the same.
\<close>

theorem animation_never_rests:
  fixes visuals :: "'f Visuals"
  assumes "distinct (map fst visuals)"
    and "\<forall>(key, v) \<in> set visuals. \<exists>j \<le> n. 0 < j \<and> gone ((shrink ^^ j) (life v))"
    and "vs = (animTick grow shrink gone ^^ n) (syncVisualState zero nonpos m visuals)"
  shows "(snd (animTimeout grow shrink gone vs) \<longleftrightarrow> hugeCells m \<noteq> []) \<and>
    ((\<forall>(key, v) \<in> set vs. targetAlive v \<and> grow (life v) = life v) \<longrightarrow> fst (animTimeout grow shrink gone vs) = vs)"
proof
  have "fst ` set vs = set (hugeCells m)" unfolding assms(3) by (rule visuals_follow_model [OF assms(1,2)])
  then show "snd (animTimeout grow shrink gone vs) \<longleftrightarrow> hugeCells m \<noteq> []"
    by (auto simp: animTimeout_eq)
  have "\<forall>(key, v) \<in> set ws. targetAlive v \<and> grow (life v) = life v \<Longrightarrow> animTick grow shrink gone ws = ws"
    for ws :: "'f Visuals"
    by (induction ws) (auto simp: animTick_def)
  then show "(\<forall>(key, v) \<in> set vs. targetAlive v \<and> grow (life v) = life v) \<longrightarrow>
      fst (animTimeout grow shrink gone vs) = vs"
    by (simp add: animTimeout_eq)
qed

text \<open>The same at numbers: a model of one cell, a full life of 3, ten runs of the handler.\<close>

theorem animation_never_rests_witness:
  "snd (animTimeout (\<lambda>l. min 3 (l + 1)) (\<lambda>l. l - 1) (\<lambda>l. l = (0::nat))
     ((animTick (\<lambda>l. min 3 (l + 1)) (\<lambda>l. l - 1) (\<lambda>l. l = 0) ^^ 10)
       (syncVisualState 0 (\<lambda>l. l = 0) (newWorldModel\<lparr>aliveCells := [(CellKey 1 2, 7)]\<rparr>) [])))"
  using animation_never_rests [of "[]" 10 "\<lambda>l. l = (0::nat)" "\<lambda>l. l - 1" _ "\<lambda>l. min 3 (l + 1)" 0 "\<lambda>l. l = 0"
      "newWorldModel\<lparr>aliveCells := [(CellKey 1 2, 7)]\<rparr>"]
  by (simp add: hugeCells_def visibleCells_def)

end
