(* ===== verification/Spec2Isabelle.thy ===== *)
theory Spec2Isabelle
  imports Snapshot Thread_Pool Tick_Scheduler Still_World World_Growth World_Debug Client_Loops
    Connection_Settings Grid_Lines Mini_Map Panel_Accounts Gap_Detection
    Edit_To_Picture Client_Shutdown Client_Protocol Side_Panel Grid_Animation
begin

text \<open>
  Multilife: a multiplayer Game of Life, verified.

  The program is a server and a Qt client. The server (\<open>server/\<close>) keeps an infinite world of
  cells cut into chunks of 64 x 64, steps it on a fixed tick with a pool of worker threads,
  applies the players' commands, pays the players for their live cells, and sends the changes
  over UDP and statistics over TCP. The client (\<open>client/\<close>) connects, sends commands, parses
  what arrives and keeps a picture of the live cells, which its window shows. The two sides
  share no code, only a byte layout. The development models both sides, each from its own
  source, and composes them.

  The parts and their theories:

  \<^item> \<open>Prelude\<close>: bytes, machine words, association lists for the hash maps of the program, and
    the shared lemmas. \<open>Interfaces\<close>: the contracts between components as locales
    (\<open>cell_store\<close>: a rectangle of cells with get and set; \<open>fifo\<close>: a queue; \<open>ledger\<close>: balances;
    \<open>codec\<close>: integers in bytes; \<open>refinement\<close>: a machine and its specification), each interpreted in the theory that provides it.
  \<^item> \<open>Server_Types\<close> (Types.hpp, PlayerCommand.hpp), \<open>Server_Chunk\<close> (Chunk.hpp, Chunk.cpp: the
    two buffers with their ghost ring, the dirty list, \<open>calculateNext\<close>), \<open>Life_Rule\<close> (the
    rule of the game stated without loops, and the neighbour count proved equal to it).
  \<^item> \<open>Server_Resources\<close> (ResourceManager.cpp), \<open>Server_Queue\<close> (ThreadSafeQueue.hpp),
    \<open>Server_World\<close> (World.cpp: the map of chunks, \<open>applyCommands\<close>, \<open>exchangeBorders\<close>, the
    simulation margin), \<open>World_Refinement\<close> (one generation of all chunks is the rule applied
    to the whole grid; this is also where \<open>simulateGeneration\<close>, the first half of
    \<open>GameServer::onTick\<close>, is defined).
  \<^item> \<open>Client_Protocol\<close> (ClientProtocol.h and the proof that it repeats Protocol.hpp),
    \<open>Wire_Format\<close> (Protocol.hpp, \<open>readLE\<close>/\<open>writeLE\<close>), \<open>World_Serializer\<close>
    (WorldSerializer.hpp), \<open>Client_Parsers\<close> (ClientParsers.cpp), \<open>Round_Trips\<close> (every message
    written by the model of its sender is read by the model of its receiver).
  \<^item> \<open>Game_Server\<close> (GameServer.cpp: the tick, the snapshot cache, statistics), \<open>Game_Spec\<close>
    (the abstract game and the refinement of \<open>onTick\<close> to it, the commands one by one),
    \<open>Dirty_Tracking\<close> (reachable server states; no change escapes the dirty lists), \<open>Game_Runs\<close>
    (every run of the server is a run of the abstract game, accounts included), \<open>Server_Process\<close>
    (main.cpp and the life of the process: \<open>start\<close>, the polling loop, the calls of the threads),
    \<open>World_Growth\<close> (which chunks a tick may add), \<open>World_Debug\<close> (the data of the debug output).
  \<^item> \<open>Boost_Network\<close> (BoostNetworkManager.cpp: accept, handshake, commands, broadcasts, \<open>stop\<close>,
    as handlers and as a step relation of the I/O thread).
  \<^item> \<open>Thread_Pool\<close> (ThreadPool.cpp as a step relation of workers), \<open>Tick_Scheduler\<close>
    (TickScheduler.cpp: the schedule, and the loop with \<open>start\<close> and \<open>stop\<close> as a state machine).
  \<^item> \<open>Client_World_Model\<close> (WorldModel.cpp), \<open>Client_Network\<close> (GameNetworkClient.cpp: connection
    life cycle, commands, datagrams, statistics stream), \<open>Client_Loops\<close> (its reading loops as
    partial functions that are shown to return).
  \<^item> \<open>Client_Window\<close> (GameWindow.cpp: editing, pending edits, statistics panel, dialog),
    \<open>Grid_View\<close> (InfiniteGridView.cpp: clicks and drags, colours, fading cells), \<open>Grid_Paint\<close>
    (its \<open>drawForeground\<close> as a sequence of painter calls), \<open>Grid_Zoom\<close> (wheel, resize and scroll
    events on the view's transformation), \<open>Grid_Lines\<close> (\<open>drawBackground\<close>: the grid and the chunk
    labels), \<open>Mini_Map\<close> (the overlay, and the model the view follows), \<open>Grid_Animation\<close> (when the
    timer asks for a repaint), \<open>Panel_Text\<close> (combo boxes and the text of the pending list), \<open>Side_Panel\<close> (where the
    window's widgets are placed), \<open>Client_Edits\<close>
    (ClientRuntime.cpp's posted calls; an edit from the click to the server's queue),
    \<open>Client_App\<close> (the window's slots as a step relation; window and network thread joined by
    their two queues), \<open>Connection_Settings\<close> (the saved settings and the dialog), \<open>Client_Shutdown\<close> (the destructor of
    \<open>ClientRuntime\<close>, and what a disconnect does to edits just written).
  \<^item> \<open>Mirror\<close> and \<open>Snapshot\<close>: server, network and client composed; what deltas and snapshots
    do to the client's picture. \<open>Whole_System\<close>: server, datagrams on their way and the client's
    two threads as one step relation. \<open>Resync_Repair\<close>: the way of a resync request.
    \<open>Lossy_Network\<close>: the same with a network that loses, repeats and reorders datagrams.
    \<open>Gap_Detection\<close>: what the client takes for a loss.
    \<open>Panel_Accounts\<close>: the way of the statistics. \<open>Edit_To_Picture\<close>: the way of a click, to the
    server and back.
  \<^item> \<open>Server_Streams\<close>: server and network manager joined, with any number of connections that carry
    any bytes. \<open>Client_Streams\<close>: what a client writes, and the game its edits make there.
    \<open>Multiplayer\<close>: that server, a client at every endpoint and lossy links as one step relation;
    each player's part of it is a run of \<open>Lossy_Network\<close>. \<open>Quiet_Ticks\<close> and \<open>Still_World\<close>: the ticks
    that send nothing, and what they hide from a player that joins. \<open>Sample_Runs\<close>: a run of the server with one
    player, for the concrete cases.

  How the model corresponds to the code. A class is a record of its fields, a method a function
  on that record under the method's name (a suffix where HOL or another class has the
  name). A hash map is an association list in the order the program iterates over it, so a
  theorem about all such lists holds for every iteration order. Unsigned integers and
  \<open>int32_t\<close>/\<open>int64_t\<close> fields are words of their width, read with \<open>unat\<close> or \<open>sint\<close>; positions
  inside a chunk are naturals below 66. Calls a component makes on another object across a
  thread or library border (network manager, sockets, signals) are returned as a list of
  effects in the order the code makes them. A method that holds its mutex for its whole body
  is one step. What Boost.Asio and Qt decide is an argument or a nondeterministic choice of a
  step relation: error codes, received bytes, the peer of a socket, the outcome of a bind.

  What the lemmas show. The refinement chain is: the neighbour loop computes \<open>lifeRule\<close>
  (\<open>Life_Rule\<close>); a chunk step applies it to every inner cell (\<open>Server_World\<close>); margin, border
  exchange, chunk steps and swaps apply it to the infinite grid (\<open>World_Refinement\<close>), in any
  interleaving of the pool's workers (\<open>Thread_Pool\<close>); the tick is a tick of the abstract game
  (\<open>Game_Spec\<close>), and whole runs are runs of the game (\<open>Game_Runs\<close>), also with
  main and the threads it starts in any interleaving (\<open>Server_Process\<close>), and on whatever bytes
  its connections carry (\<open>Server_Streams\<close>). The distribution chain is: changes are on the dirty lists (\<open>Dirty_Tracking\<close>);
  the serializer's packets parse back (\<open>Round_Trips\<close>); the network splits and sends them
  (\<open>Boost_Network\<close>); the client's model after all of it shows the server's world (\<open>Mirror\<close>); the
  window's thread catches up with it and its labels are never outdated (\<open>Client_App\<close>), in any
  interleaving of the server, the datagrams' arrival and the client's threads when no datagram is
  lost (\<open>Whole_System\<close>), and after a resync where some were (\<open>Resync_Repair\<close>); over any network it
  shows no cell that never lived, and can always be repaired (\<open>Lossy_Network\<close>), for every player of
  the whole party at once, whose windows show what the abstract game of the bytes read had at some time,
  and who catch up with the next update (\<open>Multiplayer\<close>); the view paints
  the model's cells (\<open>Grid_Paint\<close>) over a grid whose labels name the server's chunks
  (\<open>Grid_Lines\<close>), within the limits of its zoom (\<open>Grid_Zoom\<close>), the panel lists the server's accounts (\<open>Panel_Accounts\<close>). In the
  other direction an edit is judged by the window as the server would (\<open>Client_Edits\<close>),
  reaches its queue, in the client's order whatever other clients send (\<open>Client_Streams\<close>), and
  comes back as what the abstract game makes of it (\<open>Edit_To_Picture\<close>).
  Where the code does not keep what it seems to promise (snapshots of full chunks, deltas of several
  packets, replaced sessions, stopping with half-open connections, a failed UDP bind, updates
  of an old connection after a new one is made, the fading of dead cells, ticks that send nothing,
  joining a world at rest,
  edits just before a disconnect, a main loop that never ends), a theorem says what happens.

  Bounds. No definition uses fuel: the loops over buffers recur on the rest of the buffer with
  its length as measure (\<open>Client_Loops\<close> has them as partial functions too), and the interleavings are step relations without a bound. The grid
  coordinates of the abstract game are integers; chunk coordinates are 32 bits, so the concrete
  grid is periodic with period \<open>2 ^ 38\<close>, and the theorems are stated for that periodic grid.
  A datagram holds at most 125 cells of 11 bytes after a header of 15; a statistics message
  at most 65535 players.

  Scalars. The view computes with \<open>qreal\<close> and \<open>float\<close>. Its definitions take the arithmetic as a
  record of operations, so what is proved for every such record (which cells are painted, in which
  order and colour; when a loop of the background ends) holds for floating point as it is.
  Properties of the geometry (limits of the zoom, spacing of the lines, places of labels and
  dots) are proved for the record \<open>exact\<close> of the real numbers, and hold up to rounding.

  Not modelled. Log output; the event loop and signal handling of the two processes; the hash
  functions (hash maps are association lists in any iteration order); sizes and styles of the
  window's widgets; the addresses of UDP datagrams, which the client never looks at. Data races are out
  of scope: the mutexes are taken as the source takes them.
\<close>

end
